(* ===== verification/Gox_Prelude.thy ===== *)
theory Gox_Prelude
  imports Main "HOL-Library.Word"
begin

text \<open>
  Shared vocabulary of the development: the types that stand for Go's bytes, strings,
  times, durations and contexts, Go's error values with \<^verbatim>\<open>errors.Is\<close>, the fact collections
  the component theories extend, and the generic list and word lemmas they share.

  A Go string is a sequence of bytes and so is an Isabelle \<^typ>\<open>string\<close> (a \<^typ>\<open>char\<close> is
  eight bits); a byte slice is a list of 8-bit words.
\<close>

section \<open>Fact collections\<close>

named_theorems go_def \<open>definitions of small operations, unfolded together\<close>
named_theorems result_iff \<open>when a fallible operation returns a given success\<close>

section \<open>Types\<close>

type_synonym byte = "8 word"
type_synonym bytes = "byte list"

text \<open>
  A \<^verbatim>\<open>time.Time\<close> is its distance in nanoseconds from Go's zero time, a \<^verbatim>\<open>time.Duration\<close> a
  number of nanoseconds.
\<close>

type_synonym time = int
type_synonym duration = int

definition IsZero :: "time \<Rightarrow> bool" where
  "IsZero t \<longleftrightarrow> t = 0"

text \<open>The conversions \<^verbatim>\<open>[]byte(s)\<close> and \<^verbatim>\<open>string(b)\<close>.\<close>

definition bytes_of :: "string \<Rightarrow> bytes" where
  "bytes_of s = map (\<lambda>c. of_nat (of_char c)) s"

definition string_of :: "bytes \<Rightarrow> string" where
  "string_of bs = map (\<lambda>b. char_of (unat b)) bs"

section \<open>Contexts\<close>

text \<open>
  The only use the modelled operations make of a context is \<^verbatim>\<open>ctx.Err()\<close>. A context may be
  cancelled between two calls, so it is the sequence of answers: \<open>ctx i\<close> is what the call
  number \<open>i\<close> made during the operation returns.
\<close>

datatype ctxerr = Canceled | DeadlineExceeded

type_synonym ctx = "nat \<Rightarrow> ctxerr option"

definition Background :: ctx where
  "Background = (\<lambda>_. None)"

text \<open>The context as a callee sees it after \<open>n\<close> calls have been made.\<close>

definition ctx_from :: "nat \<Rightarrow> ctx \<Rightarrow> ctx" where
  "ctx_from n ctx = (\<lambda>i. ctx (n + i))"

text \<open>The documented law of \<^verbatim>\<open>context.Context\<close>: after a non-nil answer, the answer stays.\<close>

definition ctx_stable :: "ctx \<Rightarrow> bool" where
  "ctx_stable ctx \<longleftrightarrow> (\<forall>i j e. i \<le> j \<longrightarrow> ctx i = Some e \<longrightarrow> ctx j = Some e)"

lemma Background_apply [simp]: "Background i = None"
  by (simp add: Background_def)

lemma ctx_from_apply [simp]: "ctx_from n ctx i = ctx (n + i)"
  by (simp add: ctx_from_def)

lemma ctx_from_Background [simp]: "ctx_from n Background = Background"
  by (simp add: ctx_from_def Background_def)

section \<open>Errors\<close>

text \<open>
  Go's error values: a package-level sentinel (compared by identity, so named by its
  message), an error made in place by \<^verbatim>\<open>errors.New\<close> or \<^verbatim>\<open>fmt.Errorf\<close> without \<^verbatim>\<open>%w\<close>, one that
  wraps a cause (\<^verbatim>\<open>fmt.Errorf\<close> with \<^verbatim>\<open>%w\<close>; the text is the part before the cause), a context
  error, and an error of type \<open>'x\<close> returned by code outside the repository.
\<close>

datatype 'x goerr =
    Sentinel string
  | New string
  | Wrap string "'x goerr"
  | CtxErr ctxerr
  | Ext 'x

text \<open>
  \<^verbatim>\<open>errors.Is(err, target)\<close> compares the error and then each cause with the target. The
  targets of the modelled code are sentinels, context errors and foreign errors; an error
  made in place is a new pointer and equals no target, which the callers respect.
\<close>

primrec errors_Is :: "'x goerr \<Rightarrow> 'x goerr \<Rightarrow> bool" where
  "errors_Is (Sentinel s) t \<longleftrightarrow> t = Sentinel s"
| "errors_Is (New s) t \<longleftrightarrow> False"
| "errors_Is (Wrap s e) t \<longleftrightarrow> errors_Is e t"
| "errors_Is (CtxErr c) t \<longleftrightarrow> t = CtxErr c"
| "errors_Is (Ext x) t \<longleftrightarrow> t = Ext x"

section \<open>Generic lemmas\<close>

lemma nth_map_upt_eq: "map f [0..<n] = xs \<longleftrightarrow> length xs = n \<and> (\<forall>i<n. xs ! i = f i)"
  by (auto simp: list_eq_iff_nth_eq)

lemma unat_of_nat_small [simp]:
  "n < 2 ^ LENGTH('a) \<Longrightarrow> unat (of_nat n :: 'a::len word) = n"
  by (simp add: unat_of_nat take_bit_nat_eq_self)

lemma unat_less_8: "unat (w :: 8 word) < 256"
  using unsigned_less [of w] by simp

lemma unat_less_32: "unat (w :: 32 word) < 4294967296"
  using unsigned_less [of w] by simp

lemma takeWhile_append_stop: "\<lbrakk>\<forall>x\<in>set xs. P x; \<not> P y\<rbrakk> \<Longrightarrow> takeWhile P (xs @ y # ys) = xs"
  by (induction xs) auto

lemma dropWhile_append_stop: "\<lbrakk>\<forall>x\<in>set xs. P x; \<not> P y\<rbrakk> \<Longrightarrow> dropWhile P (xs @ y # ys) = y # ys"
  by (induction xs) auto

lemma filter_id_iff: "filter P xs = xs \<longleftrightarrow> (\<forall>x\<in>set xs. P x)"
  by (auto simp: filter_id_conv)

lemma length_bytes_of [simp]: "length (bytes_of s) = length s"
  by (simp add: bytes_of_def)

lemma bytes_of_append: "bytes_of (s @ t) = bytes_of s @ bytes_of t"
  by (simp add: bytes_of_def)

lemma string_of_bytes_of [simp]: "string_of (bytes_of s) = s"
proof -
  have "char_of (unat (of_nat (of_char c) :: 8 word)) = c" for c :: char by simp
  then show ?thesis by (simp add: bytes_of_def string_of_def map_idI)
qed

end
