(* ===== verification/Go_Strings.thy ===== *)
theory Go_Strings
  imports Gox_Prelude
begin

text \<open>
  The operations of Go's \<^verbatim>\<open>strings\<close> package that the repository uses, on byte strings, and
  the laws the components need: splitting and joining are inverse, a prefix test and a
  prefix removal agree.
\<close>

section \<open>Prefixes and suffixes\<close>

definition HasPrefix :: "string \<Rightarrow> string \<Rightarrow> bool" where
  "HasPrefix s p \<longleftrightarrow> take (length p) s = p"

definition HasSuffix :: "string \<Rightarrow> string \<Rightarrow> bool" where
  "HasSuffix s p \<longleftrightarrow> HasPrefix (rev s) (rev p)"

definition TrimPrefix :: "string \<Rightarrow> string \<Rightarrow> string" where
  "TrimPrefix s p = (if HasPrefix s p then drop (length p) s else s)"

lemma HasPrefix_append [simp]: "HasPrefix (p @ s) p"
  by (simp add: HasPrefix_def)

lemma HasPrefix_iff: "HasPrefix s p \<longleftrightarrow> (\<exists>r. s = p @ r)"
  by (metis HasPrefix_append HasPrefix_def append_take_drop_id)

lemma TrimPrefix_append [simp]: "TrimPrefix (p @ s) p = s"
  by (simp add: TrimPrefix_def)

lemma HasPrefix_single: "HasPrefix s [c] \<longleftrightarrow> s \<noteq> [] \<and> hd s = c"
  by (cases s) (auto simp: HasPrefix_def)

lemma HasSuffix_single: "HasSuffix s [c] \<longleftrightarrow> s \<noteq> [] \<and> last s = c"
  by (cases s rule: rev_cases) (auto simp: HasSuffix_def HasPrefix_single)

section \<open>Split and Join\<close>

text \<open>\<^verbatim>\<open>strings.Split\<close> with a separator of one byte, the only kind the repository uses.\<close>

fun Split :: "string \<Rightarrow> char \<Rightarrow> string list" where
  "Split [] c = [[]]"
| "Split (x # xs) c =
     (if x = c then [] # Split xs c
      else (case Split xs c of [] \<Rightarrow> [[x]] | w # ws \<Rightarrow> (x # w) # ws))"

fun Join :: "string list \<Rightarrow> string \<Rightarrow> string" where
  "Join [] sep = []"
| "Join [w] sep = w"
| "Join (w # v # ws) sep = w @ sep @ Join (v # ws) sep"

lemma Split_nonempty [simp]: "Split s c \<noteq> []"
  by (induction s) (auto split: list.splits)

lemma Join_Cons: "ws \<noteq> [] \<Longrightarrow> Join (w # ws) sep = w @ sep @ Join ws sep"
  by (cases ws) auto

lemma Join_Split: "Join (Split s c) [c] = s"
proof (induction s)
  case (Cons x xs)
  obtain w ws where sp: "Split xs c = w # ws"
    by (cases "Split xs c") auto
  with Cons show ?case
    by (cases ws) auto
qed simp

lemma Split_no_sep: "c \<notin> set s \<Longrightarrow> Split s c = [s]"
  by (induction s) auto

lemma Split_append_sep: "c \<notin> set w \<Longrightarrow> Split (w @ c # s) c = w # Split s c"
  by (induction w) auto

lemma Split_segment_no_sep: "w \<in> set (Split s c) \<Longrightarrow> c \<notin> set w"
proof (induction s arbitrary: w)
  case (Cons x xs)
  obtain v vs where "Split xs c = v # vs"
    by (cases "Split xs c") auto
  with Cons show ?case
    by (auto split: if_splits)
qed simp

lemma Split_Join: "\<lbrakk>ws \<noteq> []; \<forall>w\<in>set ws. c \<notin> set w\<rbrakk> \<Longrightarrow> Split (Join ws [c]) c = ws"
  by (induction ws "[c]" rule: Join.induct) (auto simp: Split_no_sep Split_append_sep)

section \<open>Cutting and trimming at a byte\<close>

text \<open>\<^verbatim>\<open>strings.Cut\<close> at a separator of one byte: what is before it, what is after, found.\<close>

definition Cut :: "string \<Rightarrow> char \<Rightarrow> string \<times> string \<times> bool" where
  "Cut s c =
     (if c \<in> set s then (takeWhile (\<lambda>x. x \<noteq> c) s, tl (dropWhile (\<lambda>x. x \<noteq> c) s), True)
      else (s, [], False))"

text \<open>\<^verbatim>\<open>strings.IndexByte\<close>; \<open>None\<close> stands for -1.\<close>

fun IndexByte :: "string \<Rightarrow> char \<Rightarrow> nat option" where
  "IndexByte [] c = None"
| "IndexByte (x # xs) c = (if x = c then Some 0 else map_option Suc (IndexByte xs c))"

text \<open>\<^verbatim>\<open>strings.Trim\<close> with a cutset of one ASCII byte.\<close>

definition Trim :: "string \<Rightarrow> char \<Rightarrow> string" where
  "Trim s c = rev (dropWhile (\<lambda>x. x = c) (rev (dropWhile (\<lambda>x. x = c) s)))"

lemma IndexByte_Some: "IndexByte s c = Some i \<Longrightarrow> i < length s \<and> s ! i = c \<and> c \<notin> set (take i s)"
  by (induction s arbitrary: i) (auto split: if_splits)

lemma IndexByte_None: "IndexByte s c = None \<longleftrightarrow> c \<notin> set s"
  by (induction s) auto

lemma dropWhile_hd_eq: "dropWhile P s \<noteq> [] \<Longrightarrow> \<not> P (hd (dropWhile P s))"
  by (rule hd_dropWhile) auto

lemma Trim_ends:
  assumes "Trim s c \<noteq> []"
  shows "hd (Trim s c) \<noteq> c" "last (Trim s c) \<noteq> c"
proof -
  define d where "d = dropWhile (\<lambda>x. x = c) s"
  define e where "e = dropWhile (\<lambda>x. x = c) (rev d)"
  have T: "Trim s c = rev e" by (simp add: Trim_def d_def e_def)
  with assms have e: "e \<noteq> []" by simp
  then have "hd e \<noteq> c" unfolding e_def by (rule dropWhile_hd_eq)
  with T e show "last (Trim s c) \<noteq> c" by (simp add: last_rev)
  obtain u where u: "rev d = u @ e"
    unfolding e_def by (metis takeWhile_dropWhile_id)
  then have "d = rev e @ rev u" by (metis rev_append rev_rev_ident)
  with e have "d \<noteq> []" and hd: "hd (rev e) = hd d" by auto
  then have "hd d \<noteq> c" using dropWhile_hd_eq [of "\<lambda>x. x = c" s] by (simp add: d_def)
  with T hd show "hd (Trim s c) \<noteq> c" by simp
qed

lemma Trim_id: "\<lbrakk>s \<noteq> []; hd s \<noteq> c; last s \<noteq> c\<rbrakk> \<Longrightarrow> Trim s c = s"
proof -
  assume s: "s \<noteq> []" "hd s \<noteq> c" "last s \<noteq> c"
  have 1: "dropWhile (\<lambda>x. x = c) s = s"
    using s by (cases s) auto
  have 2: "dropWhile (\<lambda>x. x = c) (rev s) = rev s"
    using s by (cases s rule: rev_cases) auto
  show ?thesis by (simp add: Trim_def 1 2)
qed

section \<open>Case and white space\<close>

text \<open>
  \<^verbatim>\<open>strings.ToLower\<close> on the bytes that comparison with an ASCII literal can see: ASCII
  capitals, and the two characters outside ASCII whose lower case is an ASCII letter (U+0130
  and U+212A, here as their UTF-8 bytes). Every other character outside ASCII is mapped to
  one outside ASCII; the model leaves its bytes alone, which no caller can tell apart.
\<close>

definition lower_char :: "char \<Rightarrow> char" where
  "lower_char c =
     (let n = (of_char c :: nat) in if 65 \<le> n \<and> n \<le> 90 then char_of (n + 32) else c)"

fun ToLower :: "string \<Rightarrow> string" where
  "ToLower [] = []"
| "ToLower [a] = [lower_char a]"
| "ToLower [a, b] =
     (if a = CHR 0xC4 \<and> b = CHR 0xB0 then ''i'' else [lower_char a, lower_char b])"
| "ToLower (a # b # c # s) =
     (if a = CHR 0xC4 \<and> b = CHR 0xB0 then CHR ''i'' # ToLower (c # s)
      else if a = CHR 0xE2 \<and> b = CHR 0x84 \<and> c = CHR 0xAA then CHR ''k'' # ToLower s
      else lower_char a # ToLower (b # c # s))"

text \<open>
  \<^verbatim>\<open>strings.EqualFold\<close> against an ASCII word without the letters k and s (the only ASCII
  letters that characters outside ASCII fold to): byte-wise equality up to ASCII case.
\<close>

definition EqualFold :: "string \<Rightarrow> string \<Rightarrow> bool" where
  "EqualFold s t \<longleftrightarrow> map lower_char s = map lower_char t"

text \<open>
  The length in bytes of the white-space character (\<^verbatim>\<open>unicode.IsSpace\<close>) at the head of a
  string, 0 if there is none. A UTF-8 continuation byte is never a first byte, so looking
  for the encodings at every byte finds exactly the characters Go's rune loop finds.
\<close>

fun space_len :: "string \<Rightarrow> nat" where
  "space_len [] = 0"
| "space_len (a # s) =
     (let n = (of_char a :: nat) in
      if n = 32 \<or> 9 \<le> n \<and> n \<le> 13 then 1
      else (case s of
              [] \<Rightarrow> 0
            | b # s' \<Rightarrow>
                (let m = (of_char b :: nat) in
                 if n = 0xC2 \<and> (m = 0x85 \<or> m = 0xA0) then 2
                 else (case s' of
                         [] \<Rightarrow> 0
                       | c # _ \<Rightarrow>
                           (let k = (of_char c :: nat) in
                            if n = 0xE1 \<and> m = 0x9A \<and> k = 0x80
                             \<or> n = 0xE2 \<and> m = 0x80 \<and> (0x80 \<le> k \<and> k \<le> 0x8A \<or> k = 0xA8 \<or> k = 0xA9 \<or> k = 0xAF)
                             \<or> n = 0xE2 \<and> m = 0x81 \<and> k = 0x9F
                             \<or> n = 0xE3 \<and> m = 0x80 \<and> k = 0x80
                            then 3 else 0)))))"

text \<open>\<^verbatim>\<open>strings.Fields\<close>: the maximal runs of characters that are not white space.\<close>

function fields_aux :: "string \<Rightarrow> string \<Rightarrow> string list" where
  "fields_aux w [] = (if w = [] then [] else [w])"
| "fields_aux w (a # s) =
     (let n = space_len (a # s) in
      if n = 0 then fields_aux (w @ [a]) s
      else (if w = [] then [] else [w]) @ fields_aux [] (drop n (a # s)))"
  by pat_completeness auto
termination
  by (relation "measure (\<lambda>(w, s). length s)") auto

definition Fields :: "string \<Rightarrow> string list" where
  "Fields s = fields_aux [] s"

lemma fields_aux_nonempty: "w \<in> set (fields_aux v s) \<Longrightarrow> w \<noteq> []"
  by (induction v s rule: fields_aux.induct) (auto simp: Let_def split: if_splits)

lemma Fields_nonempty: "w \<in> set (Fields s) \<Longrightarrow> w \<noteq> []"
  unfolding Fields_def by (rule fields_aux_nonempty)

text \<open>Visible ASCII: a string of these bytes holds no white space.\<close>

definition graphic :: "char \<Rightarrow> bool" where
  "graphic c \<longleftrightarrow> 33 \<le> (of_char c :: nat) \<and> (of_char c :: nat) \<le> 126"

lemma space_len_graphic: "graphic a \<Longrightarrow> space_len (a # s) = 0"
  by (auto simp: graphic_def Let_def split: list.splits)

lemma fields_aux_graphic: "\<forall>c\<in>set s. graphic c \<Longrightarrow> fields_aux w (s @ t) = fields_aux (w @ s) t"
proof (induction s arbitrary: w)
  case (Cons a s)
  then have "space_len (a # s @ t) = 0" by (intro space_len_graphic) simp
  with Cons show ?case by (simp add: Let_def)
qed simp

lemma Fields_two:
  assumes "u \<noteq> []" "v \<noteq> []" "\<forall>c\<in>set u. graphic c" "\<forall>c\<in>set v. graphic c"
  shows "Fields (u @ CHR '' '' # v) = [u, v]"
proof -
  have sp: "space_len (CHR '' '' # v) = 1" by simp
  have "Fields (u @ CHR '' '' # v) = fields_aux u (CHR '' '' # v)"
    using fields_aux_graphic [OF assms(3), of "[]"] by (simp add: Fields_def)
  also have "\<dots> = u # fields_aux [] v"
    using assms(1) sp by (simp del: space_len.simps)
  also have "fields_aux [] v = [v]"
    using fields_aux_graphic [OF assms(4), of "[]" "[]"] assms(2) by simp
  finally show ?thesis .
qed

section \<open>Trimming white space\<close>

text \<open>The length of the white-space character that ends a string, 0 if none does.\<close>

definition space_end :: "string \<Rightarrow> nat" where
  "space_end s =
     (let ends = (\<lambda>n. n \<le> length s \<and> space_len (drop (length s - n) s) = n)
      in if ends 1 then 1 else if ends 2 then 2 else if ends 3 then 3 else 0)"

function trim_left :: "string \<Rightarrow> string" where
  "trim_left s = (if space_len s = 0 then s else trim_left (drop (space_len s) s))"
  by auto
termination
proof (relation "measure length")
  fix s assume "space_len s \<noteq> 0"
  then have "s \<noteq> []" by auto
  with \<open>space_len s \<noteq> 0\<close> show "(drop (space_len s) s, s) \<in> measure length" by (cases s) auto
qed simp

function trim_right :: "string \<Rightarrow> string" where
  "trim_right s = (if space_end s = 0 \<or> s = [] then s else trim_right (take (length s - space_end s) s))"
  by auto
termination
  by (relation "measure length") auto

declare trim_left.simps [simp del] trim_right.simps [simp del]

definition TrimSpace :: "string \<Rightarrow> string" where
  "TrimSpace s = trim_right (trim_left s)"

text \<open>A string that begins and ends with visible ASCII is not changed.\<close>

lemma TrimSpace_graphic:
  assumes "s \<noteq> []" "graphic (hd s)" "graphic (last s)"
  shows "TrimSpace s = s"
proof -
  have l: "trim_left s = s"
    using assms(1,2) space_len_graphic [of "hd s" "tl s"] by (simp add: trim_left.simps [of s])
  obtain u c where s: "s = u @ [c]" using assms(1) by (cases s rule: rev_cases) auto
  with assms(3) have c: "32 < (of_char c :: nat)" "(of_char c :: nat) < 127" by (auto simp: graphic_def)
  have "space_len [a, c] \<noteq> 2" "space_len [b, a, c] \<noteq> 3" for a b
    using c by (auto simp: Let_def)
  moreover have "\<exists>a b. drop (length s - 2) s = [a, c] \<or> length s < 2"
    "\<exists>a b. drop (length s - 3) s = [b, a, c] \<or> length s < 3"
    unfolding s by (cases u rule: rev_cases; simp; case_tac ys rule: rev_cases; simp)+
  ultimately have "space_end s = 0"
    using c unfolding space_end_def Let_def s by (auto simp: not_le)
  then show ?thesis by (simp add: TrimSpace_def l trim_right.simps [of s])
qed

end
