(* ===== verification/Go_Io.thy ===== *)
theory Go_Io
  imports Gox_Prelude
begin

text \<open>
  \<^verbatim>\<open>io.Reader\<close> and \<^verbatim>\<open>io.Writer\<close>, and the context-aware copy loop that \<^verbatim>\<open>blobx\<close> and \<^verbatim>\<open>emailx\<close> both have.

  A reader is the sequence of its answers: \<open>src i\<close> is the data and the error of call number \<open>i\<close>. A
  writer takes data and its state and returns how much it accepted, an error, and the new state. The
  loop need not end (a reader may go on for ever), so it is a partial function: \<open>None\<close> is divergence.
\<close>

type_synonym 'x reader = "nat \<Rightarrow> bytes \<times> 'x goerr option"
type_synonym ('x, 'w) writer = "bytes \<Rightarrow> 'w \<Rightarrow> nat \<times> 'x goerr option \<times> 'w"

definition EOF :: "'x goerr" where
  "EOF = Sentinel ''EOF''"

definition ErrShortWrite :: "'x goerr" where
  "ErrShortWrite = Sentinel ''short write''"

text \<open>A call that returns, panics, or never ends.\<close>

datatype 'a run = Return 'a | Panic string | Diverge

text \<open>\<^verbatim>\<open>io.MultiWriter\<close> of two writers: the second is given the data if the first took all of it.\<close>

definition MultiWriter :: "('x, 'v) writer \<Rightarrow> ('x, 'w) writer \<Rightarrow> ('x, 'v \<times> 'w) writer" where
  "MultiWriter w1 w2 d s =
     (let (n, e, s1) = w1 d (fst s)
      in if e \<noteq> None then (n, e, (s1, snd s))
         else if n \<noteq> length d then (n, Some ErrShortWrite, (s1, snd s))
         else (let (n, e, s2) = w2 d (snd s)
               in if e \<noteq> None then (n, e, (s1, s2))
                  else if n \<noteq> length d then (n, Some ErrShortWrite, (s1, s2))
                  else (length d, None, (s1, s2))))"

text \<open>\<^verbatim>\<open>bytes.Buffer\<close>: takes everything.\<close>

definition Buffer_Write :: "('x, bytes) writer" where
  "Buffer_Write d b = (length d, None, b @ d)"

section \<open>The copy loop\<close>

text \<open>\<open>i\<close> is the number of rounds made: the context and the reader are asked once a round.\<close>

partial_function (option) copy_loop ::
  "ctx \<Rightarrow> ('x, 'w) writer \<Rightarrow> 'x reader \<Rightarrow> nat \<Rightarrow> nat \<Rightarrow> 'w \<Rightarrow> (nat \<times> 'x goerr option \<times> 'w) option" where
  [code]: "copy_loop ctx wr src i written w =
     (case ctx i of
        Some e \<Rightarrow> Some (written, Some (CtxErr e), w)
      | None \<Rightarrow>
          (let (data, readErr) = src i;
               (count, writeErr, w') = (if data \<noteq> [] then wr data w else (0, None, w));
               written' = written + count
           in case writeErr of
                Some e \<Rightarrow> Some (written', Some e, w')
              | None \<Rightarrow>
                  if count \<noteq> length data then Some (written', Some ErrShortWrite, w')
                  else (case readErr of
                          Some e \<Rightarrow> Some (written', if errors_Is e EOF then None else Some e, w')
                        | None \<Rightarrow> copy_loop ctx wr src (Suc i) written' w')))"

definition copy_all :: "ctx \<Rightarrow> ('x, 'w) writer \<Rightarrow> 'x reader \<Rightarrow> 'w \<Rightarrow> (nat \<times> 'x goerr option \<times> 'w) option" where
  "copy_all ctx wr src w = copy_loop ctx wr src 0 0 w"

text \<open>What the reader has delivered in its first \<open>n\<close> answers, and that its answer \<open>n\<close> is the last.\<close>

definition delivered :: "'x reader \<Rightarrow> nat \<Rightarrow> bytes" where
  "delivered src n = concat (map (\<lambda>i. fst (src i)) [0..<n])"

definition ends_at :: "'x reader \<Rightarrow> nat \<Rightarrow> bool" where
  "ends_at src n \<longleftrightarrow> (\<forall>i<n. snd (src i) = None) \<and> snd (src n) = Some EOF"

text \<open>A reader of given chunks.\<close>

definition chunks :: "bytes list \<Rightarrow> 'x reader" where
  "chunks bs i = (if i < length bs then (bs ! i, None) else ([], Some EOF))"

lemma delivered_Suc: "delivered src (Suc n) = delivered src n @ fst (src n)"
  by (simp add: delivered_def)

lemma delivered_0 [simp]: "delivered src 0 = []"
  by (simp add: delivered_def)

lemma chunks_ends: "ends_at (chunks bs) (length bs)"
  by (simp add: ends_at_def chunks_def)

lemma errors_Is_EOF [simp]: "errors_Is EOF EOF"
  by (simp add: EOF_def)

section \<open>Termination\<close>

text \<open>The loop ends whenever the reader does or the context is cancelled, whatever the writer does.\<close>

lemma copy_loop_ends:
  assumes "i \<le> n" "ctx n \<noteq> None \<or> snd (src n) \<noteq> None"
  shows "\<exists>r. copy_loop ctx wr src i written w = Some r"
  using assms
proof (induction "n - i" arbitrary: i written w)
  case 0
  then have "i = n" by simp
  with 0 show ?case
    by (subst copy_loop.simps) (auto simp: Let_def split: option.split prod.split)
next
  case (Suc m)
  show ?case
  proof (cases "ctx i")
    case None
    obtain data re where s: "src i = (data, re)" by fastforce
    obtain c we w' where wr: "(if data \<noteq> [] then wr data w else (0, None, w)) = (c, we, w')"
      by (cases "if data \<noteq> [] then wr data w else (0, None, w)") auto
    have "\<exists>r. copy_loop ctx wr src (Suc i) (written + c) w' = Some r"
      using Suc.hyps(2) Suc.prems by (intro Suc.hyps(1)) auto
    then show ?thesis
      using None s wr by (subst copy_loop.simps) (auto simp: Let_def split: option.split)
  qed (subst copy_loop.simps, simp)
qed

section \<open>What is copied\<close>

text \<open>The rounds of a loop that ends, as a relation, for rule induction.\<close>

inductive copies ::
  "ctx \<Rightarrow> ('x, 'w) writer \<Rightarrow> 'x reader \<Rightarrow> nat \<Rightarrow> nat \<Rightarrow> 'w \<Rightarrow> nat \<times> 'x goerr option \<times> 'w \<Rightarrow> bool"
  for ctx wr src where
  cancelled: "ctx i = Some e \<Longrightarrow> copies ctx wr src i n w (n, Some (CtxErr e), w)"
| write_error: "\<lbrakk>ctx i = None; src i = (d, re); d \<noteq> []; wr d w = (c, Some e, w')\<rbrakk>
    \<Longrightarrow> copies ctx wr src i n w (n + c, Some e, w')"
| short_write: "\<lbrakk>ctx i = None; src i = (d, re); d \<noteq> []; wr d w = (c, None, w'); c \<noteq> length d\<rbrakk>
    \<Longrightarrow> copies ctx wr src i n w (n + c, Some ErrShortWrite, w')"
| ended: "\<lbrakk>ctx i = None; src i = (d, Some e); if d = [] then w' = w else wr d w = (length d, None, w')\<rbrakk>
    \<Longrightarrow> copies ctx wr src i n w (n + length d, if errors_Is e EOF then None else Some e, w')"
| round: "\<lbrakk>ctx i = None; src i = (d, None); if d = [] then w' = w else wr d w = (length d, None, w');
      copies ctx wr src (Suc i) (n + length d) w' r\<rbrakk> \<Longrightarrow> copies ctx wr src i n w r"

lemma copies_step:
  assumes "ctx i = None" "src i = (d, re)" "(if d \<noteq> [] then wr d w else (0, None, w)) = (c, we, w')"
    and "(case we of
             Some e \<Rightarrow> Some (n + c, Some e, w')
           | None \<Rightarrow>
               if c \<noteq> length d then Some (n + c, Some ErrShortWrite, w')
               else (case re of
                       Some e \<Rightarrow> Some (n + c, if errors_Is e EOF then None else Some e, w')
                     | None \<Rightarrow> rest (n + c) w')) = Some r"
    and "\<And>n w r. rest n w = Some r \<Longrightarrow> copies ctx wr src (Suc i) n w r"
  shows "copies ctx wr src i n w r"
proof (cases we)
  case (Some e)
  with assms have "d \<noteq> []" "wr d w = (c, Some e, w')" "r = (n + c, Some e, w')" by (auto split: if_splits)
  then show ?thesis using copies.write_error [of ctx i src d re wr w c e w' n] assms(1,2) by simp
next
  case None
  show ?thesis
  proof (cases "c = length d")
    case False
    with None assms have "d \<noteq> []" "wr d w = (c, None, w')" "r = (n + c, Some ErrShortWrite, w')"
      by (auto split: if_splits)
    then show ?thesis using copies.short_write [of ctx i src d re wr w c w' n] assms(1,2) False by simp
  next
    case True
    with None assms(3) have w': "if d = [] then w' = w else wr d w = (length d, None, w')" by (auto split: if_splits)
    show ?thesis
    proof (cases re)
      case None
      with \<open>we = None\<close> True assms(4) have "rest (n + length d) w' = Some r" by simp
      from assms(5) [OF this] show ?thesis
        using copies.round [of ctx i src d w' w wr n r] assms(1,2) None w' by simp
    next
      case (Some e)
      with None True assms(4) have "r = (n + length d, if errors_Is e EOF then None else Some e, w')" by simp
      then show ?thesis using copies.ended [of ctx i src d e w' w wr n] assms(1,2) Some w' by simp
    qed
  qed
qed

lemma copy_loop_copies: "copy_loop ctx wr src i n w = Some r \<Longrightarrow> copies ctx wr src i n w r"
proof (erule copy_loop.raw_induct [rotated], goal_cases)
  case (1 f ctx wr src i n w r)
  obtain d re where s: "src i = (d, re)" by fastforce
  obtain c we w' where x: "(if d \<noteq> [] then wr d w else (0, None, w)) = (c, we, w')"
    by (cases "if d \<noteq> [] then wr d w else (0, None, w)") auto
  show ?case
  proof (cases "ctx i")
    case None
    from 1(2) None s x show ?thesis
      by (intro copies_step [where rest = "f ctx wr src (Suc i)", of ctx i src d re wr w c we w'] 1(1))
         (simp_all add: Let_def)
  next
    case (Some e)
    with 1(2) show ?thesis by (auto intro: copies.cancelled)
  qed
qed

text \<open>A writer that accepts everything, in the states of an invariant that its writes keep.\<close>

definition accepts_on :: "('w \<Rightarrow> bool) \<Rightarrow> ('x, 'w) writer \<Rightarrow> bool" where
  "accepts_on I wr \<longleftrightarrow> (\<forall>d w. I w \<longrightarrow> (\<exists>w'. wr d w = (length d, None, w') \<and> I w'))"

definition accepts_all :: "('x, 'w) writer \<Rightarrow> bool" where
  "accepts_all wr \<longleftrightarrow> (\<forall>d w. \<exists>w'. wr d w = (length d, None, w'))"

lemma accepts_all_on: "accepts_all wr = accepts_on (\<lambda>_. True) wr"
  by (simp add: accepts_all_def accepts_on_def)

lemma accepts_onD: "\<lbrakk>accepts_on I wr; I w; wr d w = (c, e, w')\<rbrakk> \<Longrightarrow> c = length d \<and> e = None \<and> I w'"
  unfolding accepts_on_def by (metis Pair_inject)

text \<open>A reader that never ends, under a context that is never cancelled, is read for ever by a writer
  that accepts everything: the loop ends in no other way.\<close>

lemma copies_stops:
  "\<lbrakk>copies ctx wr src i n w r; accepts_on I wr; I w\<rbrakk> \<Longrightarrow> \<exists>k\<ge>i. ctx k \<noteq> None \<or> snd (src k) \<noteq> None"
proof (induction rule: copies.induct)
  case (round i d w' w n r)
  then have "I w'" by (auto dest: accepts_onD split: if_splits)
  with round show ?case by (auto intro: Suc_leD)
qed (auto dest: accepts_onD sym)

lemma copy_loop_diverges:
  "\<lbrakk>\<forall>i. ctx i = None; \<forall>i. snd (src i) = None; accepts_on I wr; I w\<rbrakk> \<Longrightarrow> copy_loop ctx wr src i n w = None"
  using copies_stops [OF copy_loop_copies, of ctx wr src i n w _ I]
  by (cases "copy_loop ctx wr src i n w") auto

text \<open>What the writer's every step keeps, the loop keeps.\<close>

lemma copies_inv: "\<lbrakk>copies ctx wr src i n w r; P w; \<And>d w. P w \<Longrightarrow> P (snd (snd (wr d w)))\<rbrakk> \<Longrightarrow> P (snd (snd r))"
proof (induction rule: copies.induct)
  case (ended i d e w' w n)
  then show ?case by (metis snd_conv)
next
  case (round i d w' w n r)
  then show ?case by (metis snd_conv)
qed (metis snd_conv)+

definition between :: "'x reader \<Rightarrow> nat \<Rightarrow> nat \<Rightarrow> bytes" where
  "between src i k = concat (map (\<lambda>j. fst (src j)) [i..<k])"

lemma between_step: "i < k \<Longrightarrow> between src i k = fst (src i) @ between src (Suc i) k"
  by (simp add: between_def upt_conv_Cons)

text \<open>If the loop reports success, the reader came to its end and everything it delivered was
  written, in order: what a relation \<open>R\<close> says of the data and the state, extended by each accepted
  write, it says at the end of all the data.\<close>

definition tracks :: "('x, 'w) writer \<Rightarrow> (bytes \<Rightarrow> 'w \<Rightarrow> bool) \<Rightarrow> bool" where
  "tracks wr R \<longleftrightarrow> (\<forall>x d w w'. R x w \<and> d \<noteq> [] \<and> wr d w = (length d, None, w') \<longrightarrow> R (x @ d) w')"

lemma tracksD: "\<lbrakk>tracks wr R; R x w; if d = [] then w' = w else wr d w = (length d, None, w')\<rbrakk> \<Longrightarrow> R (x @ d) w'"
  by (auto simp: tracks_def split: if_splits)

lemma copies_tracks:
  "\<lbrakk>copies ctx wr src i n w r; fst (snd r) = None; tracks wr R; R x w\<rbrakk> \<Longrightarrow>
   \<exists>k\<ge>i. (\<forall>j. i \<le> j \<and> j < k \<longrightarrow> snd (src j) = None) \<and> (\<exists>e. snd (src k) = Some e \<and> errors_Is e EOF)
      \<and> fst r = n + length (between src i (Suc k)) \<and> R (x @ between src i (Suc k)) (snd (snd r))"
proof (induction arbitrary: x rule: copies.induct)
  case (ended i d e w2 w n)
  then show ?case
    using tracksD [OF ended.prems(2,3) ended(3)] by (intro exI [of _ i]) (auto simp: between_def split: if_splits)
next
  case (round i d w2 w n r)
  from tracksD [OF round.prems(2,3) round(3)] round.IH [OF round.prems(1,2)] obtain k where
    k: "Suc i \<le> k" "\<forall>j. Suc i \<le> j \<and> j < k \<longrightarrow> snd (src j) = None"
    "\<exists>e. snd (src k) = Some e \<and> errors_Is e EOF" "fst r = n + length d + length (between src (Suc i) (Suc k))"
    "R ((x @ d) @ between src (Suc i) (Suc k)) (snd (snd r))" by blast
  moreover have "between src i (Suc k) = d @ between src (Suc i) (Suc k)"
    using between_step [of i "Suc k" src] k(1) round(2) by simp
  moreover have "\<forall>j. i \<le> j \<and> j < k \<longrightarrow> snd (src j) = None"
    using k(2) round(2) by (metis Suc_leI le_neq_implies_less snd_conv)
  ultimately show ?case by (intro exI [of _ k]) simp
qed simp_all

text \<open>The data of a reader that comes to an end.\<close>

definition content :: "'x reader \<Rightarrow> bytes \<Rightarrow> bool" where
  "content src d \<longleftrightarrow>
     (\<exists>k. (\<forall>j<k. snd (src j) = None) \<and> (\<exists>e. snd (src k) = Some e \<and> errors_Is e EOF) \<and> d = delivered src (Suc k))"

lemma content_ends_at: "ends_at src k \<Longrightarrow> content src (delivered src (Suc k))"
  by (auto simp: content_def ends_at_def)

lemma content_unique: "\<lbrakk>content src d; content src d'\<rbrakk> \<Longrightarrow> d = d'"
  unfolding content_def by (metis linorder_neqE_nat option.distinct(1))

lemma copy_all_tracks:
  assumes "copy_all ctx wr src w = Some (m, None, w')" "tracks wr R" "R [] w"
  shows "\<exists>d. content src d \<and> m = length d \<and> R d w'"
proof -
  have "between src 0 k = delivered src k" for k by (simp add: between_def delivered_def)
  with copies_tracks [OF copy_loop_copies, of ctx wr src 0 0 w "(m, None, w')" R "[]"] assms obtain k where
    "\<forall>j<k. snd (src j) = None" "\<exists>e. snd (src k) = Some e \<and> errors_Is e EOF"
    "m = length (delivered src (Suc k))" "R (delivered src (Suc k)) w'" by (auto simp: copy_all_def)
  then show ?thesis unfolding content_def by blast
qed

text \<open>A writer that puts accepted data into what \<open>vw\<close> shows of its state, by \<open>acc\<close>.\<close>

definition accumulates :: "('x, 'w) writer \<Rightarrow> ('w \<Rightarrow> 'a) \<Rightarrow> (bytes \<Rightarrow> 'a \<Rightarrow> 'a) \<Rightarrow> bool" where
  "accumulates wr vw acc \<longleftrightarrow>
     (\<forall>d w w'. wr d w = (length d, None, w') \<longrightarrow> vw w' = acc d (vw w))
     \<and> (\<forall>a. acc [] a = a) \<and> (\<forall>d e a. acc (d @ e) a = acc e (acc d a))"

lemma accumulates_tracks: "accumulates wr vw acc \<Longrightarrow> tracks wr (\<lambda>d w. vw w = acc d a)"
  by (auto simp: accumulates_def tracks_def)

lemma copy_all_success:
  assumes "copy_all ctx wr src w = Some (m, None, w')" "accumulates wr vw acc"
  shows "\<exists>k. (\<forall>j<k. snd (src j) = None) \<and> (\<exists>e. snd (src k) = Some e \<and> errors_Is e EOF)
      \<and> m = length (delivered src (Suc k)) \<and> vw w' = acc (delivered src (Suc k)) (vw w)"
  using copy_all_tracks [OF assms(1) accumulates_tracks [OF assms(2), of "vw w"]] assms(2)
  by (auto simp: accumulates_def content_def)

text \<open>Conversely, a reader that ends under a context that is not cancelled is copied whole by a writer
  that accepts everything.\<close>

lemma copies_accepted:
  "\<lbrakk>copies ctx wr src i n w r; \<forall>i. ctx i = None; accepts_on I wr; I w; i \<le> k; \<forall>j<k. snd (src j) = None;
    snd (src k) = Some e; errors_Is e EOF\<rbrakk>
   \<Longrightarrow> fst (snd r) = None \<and> I (snd (snd r))"
proof (induction rule: copies.induct)
  case (ended i d e' w' w n)
  then have "i = k" by (metis le_neq_implies_less option.distinct(1) snd_conv)
  with ended show ?case by (auto dest: accepts_onD split: if_splits)
next
  case (round i d w' w n r)
  then have "i \<noteq> k" "I w'" by (auto dest: accepts_onD split: if_splits)
  with round show ?case by simp
qed (auto dest: accepts_onD)

lemma copy_all_accepts:
  assumes "content src d" "\<forall>i. ctx i = None" "accepts_on I wr" "I w"
  shows "\<exists>m w'. copy_all ctx wr src w = Some (m, None, w') \<and> I w'"
proof -
  obtain k e where k: "\<forall>j<k. snd (src j) = None" "snd (src k) = Some e" "errors_Is e EOF"
    using assms(1) by (auto simp: content_def)
  obtain m x w' where r: "copy_all ctx wr src w = Some (m, x, w')"
    using copy_loop_ends [of 0 k ctx src wr 0 w] k(2) by (auto simp: copy_all_def)
  with copies_accepted [OF copy_loop_copies, of ctx wr src 0 0 w "(m, x, w')" I k e] k assms show ?thesis
    by (simp add: copy_all_def)
qed

lemma copy_all_accept:
  assumes "ends_at src k" "\<forall>i. ctx i = None" "accumulates wr vw acc" "accepts_all wr"
  shows "\<exists>w'. copy_all ctx wr src w = Some (length (delivered src (Suc k)), None, w')
           \<and> vw w' = acc (delivered src (Suc k)) (vw w)"
proof -
  obtain m w' where r: "copy_all ctx wr src w = Some (m, None, w')"
    using copy_all_accepts [OF content_ends_at [OF assms(1)] assms(2) assms(4) [unfolded accepts_all_on], of w] by auto
  from copy_all_tracks [OF r accumulates_tracks [OF assms(3), of "vw w"]] assms(3) obtain d where
    "content src d" "m = length d" "vw w' = acc d (vw w)" by (auto simp: accumulates_def)
  with r content_unique [OF content_ends_at [OF assms(1)]] show ?thesis by blast
qed

lemma copy_all_inv:
  assumes "copy_all ctx wr src w = Some (m, e, w')" "P w" "\<And>d w. P w \<Longrightarrow> P (snd (snd (wr d w)))"
  shows "P w'"
  using copies_inv [OF copy_loop_copies, of ctx wr src 0 0 w "(m, e, w')" P] assms
  by (simp add: copy_all_def)

end
