(* ===== verification/Emailx.thy ===== *)
theory Emailx
  imports Go_Strings Go_Io
begin

text \<open>
  \<^verbatim>\<open>emailx/email.go\<close> and \<^verbatim>\<open>emailx/testing.go\<close>: messages and their validation, the \<^verbatim>\<open>Sender\<close> interface as the
  locale \<open>sender\<close>, and the recorder. Package \<^verbatim>\<open>net/mail\<close> is the record \<open>mail\<close> of its two functions. A Go map
  of headers is the list of its entries in the order in which the runtime iterates over them.
\<close>

section \<open>Messages\<close>

datatype email_cause = MailError string | NetError string | SMTPError string | OpenError string | ReadError string
  | TemplateError string | RandError string

type_synonym email_error = "email_cause goerr"

record Address =
  Name :: string
  Email :: string

record Attachment =
  Filename :: string
  ContentType :: string
  Open :: "(email_error + email_cause reader) option"

record Message =
  From :: Address
  To :: "Address list"
  CC :: "Address list"
  BCC :: "Address list"
  ReplyTo :: "Address list"
  Subject :: string
  Text :: string
  HTML :: string
  Headers :: "(string \<times> string) list"
  Attachments :: "Attachment list"

record Result =
  MessageID :: string
  SentAt :: time

record mail =
  address_string :: "string \<Rightarrow> string \<Rightarrow> string"
  ParseAddress :: "string \<Rightarrow> email_error + string"

definition Address_String :: "mail \<Rightarrow> Address \<Rightarrow> string" where
  "Address_String ml a = address_string ml (Name a) (Email a)"

section \<open>Validation\<close>

definition reservedHeaders :: "string \<Rightarrow> bool" where
  "reservedHeaders h \<longleftrightarrow> h \<in> {''bcc'', ''cc'', ''content-transfer-encoding'', ''content-type'', ''date'', ''from'', ''message-id'',
     ''mime-version'', ''reply-to'', ''subject'', ''to''}"

text \<open>A byte above 126 belongs to a character above 126, so the loop over runes is a loop over bytes.\<close>

fun header_chars :: "string \<Rightarrow> bool" where
  "header_chars [] = True"
| "header_chars (c # s) =
     (let n = (of_char c :: nat) in if n \<le> 32 \<or> 127 \<le> n \<or> c = CHR '':'' then False else header_chars s)"

definition validHeader :: "string \<Rightarrow> bool" where
  "validHeader name = (if name = [] then False else header_chars name)"

definition has_newline :: "string \<Rightarrow> bool" where
  "has_newline s \<longleftrightarrow> CHR 0x0D \<in> set s \<or> CHR 0x0A \<in> set s"

definition validateAddress :: "mail \<Rightarrow> string \<Rightarrow> Address \<Rightarrow> email_error option" where
  "validateAddress ml field address =
     (if Email address = [] then Some (New (''emailx: '' @ field @ '' address is required''))
      else (case ParseAddress ml (Address_String ml address) of
              Inl e \<Rightarrow> Some (New (''emailx: invalid '' @ field @ '' address '' @ Email address))
            | Inr parsed \<Rightarrow>
                if parsed \<noteq> Email address then Some (New (''emailx: invalid '' @ field @ '' address '' @ Email address)) else None))"

fun address_loop :: "mail \<Rightarrow> string \<Rightarrow> Address list \<Rightarrow> email_error option" where
  "address_loop ml field [] = None"
| "address_loop ml field (a # as) =
     (case validateAddress ml field a of Some e \<Rightarrow> Some e | None \<Rightarrow> address_loop ml field as)"

fun group_loop :: "mail \<Rightarrow> (string \<times> Address list) list \<Rightarrow> email_error option" where
  "group_loop ml [] = None"
| "group_loop ml ((name, as) # gs) =
     (case address_loop ml name as of Some e \<Rightarrow> Some e | None \<Rightarrow> group_loop ml gs)"

fun header_loop :: "(string \<times> string) list \<Rightarrow> email_error option" where
  "header_loop [] = None"
| "header_loop ((name, v) # hs) =
     (if reservedHeaders (ToLower name) then Some (New (''emailx: header '' @ name @ '' is reserved''))
      else if \<not> validHeader name \<or> has_newline v then Some (New (''emailx: invalid header '' @ name))
      else header_loop hs)"

fun attachment_loop :: "Attachment list \<Rightarrow> email_error option" where
  "attachment_loop [] = None"
| "attachment_loop (a # as) =
     (if Filename a = [] \<or> has_newline (Filename a) then Some (New ''emailx: attachment filename is invalid'')
      else if Open a = None then Some (New (''emailx: attachment '' @ Filename a @ '' has no reader factory''))
      else attachment_loop as)"

definition validateMessage :: "mail \<Rightarrow> Message \<Rightarrow> email_error option" where
  "validateMessage ml m =
     (case validateAddress ml ''from'' (From m) of
        Some e \<Rightarrow> Some e
      | None \<Rightarrow>
     (if length (To m) + length (CC m) + length (BCC m) = 0 then Some (New ''emailx: at least one recipient is required'')
      else
     (case group_loop ml [(''to'', To m), (''cc'', CC m), (''bcc'', BCC m), (''reply-to'', ReplyTo m)] of
        Some e \<Rightarrow> Some e
      | None \<Rightarrow>
     (if Text m = [] \<and> HTML m = [] then Some (New ''emailx: text or HTML body is required'')
      else
     (case header_loop (Headers m) of
        Some e \<Rightarrow> Some e
      | None \<Rightarrow> attachment_loop (Attachments m))))))"

section \<open>The interface\<close>

text \<open>Sending several messages one after the other, as far as it goes.\<close>

fun send_all :: "(time \<Rightarrow> ctx \<Rightarrow> Message \<Rightarrow> 's \<Rightarrow> (email_error + Result) \<times> 's) \<Rightarrow> time \<Rightarrow> Message list \<Rightarrow> 's \<Rightarrow> bool \<times> 's" where
  "send_all Send now [] s = (True, s)"
| "send_all Send now (m # ms) s =
     (case Send now Background m s of (Inl e, s) \<Rightarrow> (False, s) | (Inr r, s) \<Rightarrow> send_all Send now ms s)"

text \<open>\<open>accepted s\<close> is what has been delivered, \<open>works s\<close> that delivery does not fail for a reason of its own.
  The law of a sender: a message that is not valid is refused and changes nothing, a reported
  success means that exactly this message was delivered, and a valid message is delivered if
  nothing else is wrong.\<close>

locale sender =
  fixes Send :: "time \<Rightarrow> ctx \<Rightarrow> Message \<Rightarrow> 's \<Rightarrow> (email_error + Result) \<times> 's"
    and accepted :: "'s \<Rightarrow> Message list"
    and works :: "'s \<Rightarrow> bool"
    and valid :: "Message \<Rightarrow> email_error option"
  assumes invalid: "valid m = Some e \<Longrightarrow> Send now Background m s = (Inl e, s)"
    and success: "Send now ctx m s = (Inr r, s') \<Longrightarrow> accepted s' = accepted s @ [m] \<and> valid m = None \<and> works s'"
    and delivers: "\<lbrakk>valid m = None; works s\<rbrakk> \<Longrightarrow> \<exists>r s'. Send now Background m s = (Inr r, s')"
begin

lemma send_all_success:
  "\<lbrakk>works s; \<forall>m\<in>set ms. valid m = None\<rbrakk> \<Longrightarrow>
   \<exists>s'. send_all Send now ms s = (True, s') \<and> accepted s' = accepted s @ ms \<and> works s'"
proof (induction ms arbitrary: s)
  case (Cons m ms)
  then obtain r s1 where s1: "Send now Background m s = (Inr r, s1)" using delivers [of m s now] by auto
  from success [OF s1] Cons.prems Cons.IH [of s1] show ?case by (auto simp: s1)
qed simp

lemma send_all_only_valid:
  "send_all Send now ms s = (True, s') \<Longrightarrow> accepted s' = accepted s @ ms \<and> (\<forall>m\<in>set ms. valid m = None)"
proof (induction ms arbitrary: s)
  case (Cons m ms)
  then obtain r s1 where s1: "Send now Background m s = (Inr r, s1)" "send_all Send now ms s1 = (True, s')"
    by (auto split: prod.splits sum.splits)
  from success [OF s1(1)] Cons.IH [OF s1(2)] show ?case by simp
qed simp

end

section \<open>The recorder\<close>

record Recorder =
  messages :: "Message list"
  rec_err :: "email_error option"

definition NewRecorder :: Recorder where
  "NewRecorder = \<lparr>messages = [], rec_err = None\<rparr>"

text \<open>The copy of a message: each slice and the map are rebuilt entry by entry.\<close>

definition cloneMessage :: "Message \<Rightarrow> Message" where
  "cloneMessage m =
     (let c = m;
          c = c\<lparr>To := [] @ To m\<rparr>; c = c\<lparr>CC := [] @ CC m\<rparr>; c = c\<lparr>BCC := [] @ BCC m\<rparr>; c = c\<lparr>ReplyTo := [] @ ReplyTo m\<rparr>;
          c = c\<lparr>Attachments := [] @ Attachments m\<rparr>
      in if Headers m \<noteq> [] then c\<lparr>Headers := map (\<lambda>(k, v). (k, v)) (Headers m)\<rparr> else c)"

definition Recorder_Send :: "mail \<Rightarrow> time \<Rightarrow> ctx \<Rightarrow> Message \<Rightarrow> Recorder \<Rightarrow> (email_error + Result) \<times> Recorder" where
  "Recorder_Send ml now ctx m r =
     (case ctx 0 of
        Some e \<Rightarrow> (Inl (CtxErr e), r)
      | None \<Rightarrow>
     (case validateMessage ml m of
        Some e \<Rightarrow> (Inl e, r)
      | None \<Rightarrow>
     (case rec_err r of
        Some e \<Rightarrow> (Inl e, r)
      | None \<Rightarrow> (Inr \<lparr>MessageID = [], SentAt = now\<rparr>, r\<lparr>messages := messages r @ [cloneMessage m]\<rparr>))))"

definition Recorder_Messages :: "Recorder \<Rightarrow> Message list" where
  "Recorder_Messages r = map cloneMessage (messages r)"

definition Recorder_SetError :: "email_error option \<Rightarrow> Recorder \<Rightarrow> Recorder" where
  "Recorder_SetError e r = r\<lparr>rec_err := e\<rparr>"

definition Recorder_Reset :: "Recorder \<Rightarrow> Recorder" where
  "Recorder_Reset r = r\<lparr>messages := [], rec_err := None\<rparr>"

lemma cloneMessage_id [simp]: "cloneMessage m = m"
  by (cases m) (simp add: cloneMessage_def Let_def case_prod_beta)

lemma Recorder_Messages_eq [simp]: "Recorder_Messages r = messages r"
  by (simp add: Recorder_Messages_def map_idI)

interpretation recorder: sender "Recorder_Send ml" Recorder_Messages "\<lambda>r. rec_err r = None" "validateMessage ml" for ml
proof (unfold_locales, goal_cases)
  case (2 now ctx m s r s')
  then show ?case by (auto simp: Recorder_Send_def split: option.splits)
qed (auto simp: Recorder_Send_def)

section \<open>Lemmas\<close>

lemma header_chars_iff:
  "header_chars s \<longleftrightarrow> list_all (\<lambda>c. 32 < (of_char c :: nat) \<and> (of_char c :: nat) < 127 \<and> c \<noteq> CHR '':'') s"
  by (induction s) (auto simp: Let_def)

lemma address_loop_None: "address_loop ml f as = None \<longleftrightarrow> list_all (\<lambda>a. validateAddress ml f a = None) as"
  by (induction as) (auto split: option.split)

lemma validateAddress_None:
  "validateAddress ml f a = None \<longleftrightarrow> Email a \<noteq> [] \<and> ParseAddress ml (Address_String ml a) = Inr (Email a)"
  by (auto simp: validateAddress_def split: sum.split)

lemma group_loop_None:
  "group_loop ml gs = None \<longleftrightarrow> list_all (\<lambda>(f, as). list_all (\<lambda>a. validateAddress ml f a = None) as) gs"
  by (induction gs) (auto simp: address_loop_None split: option.splits)

lemma header_loop_None:
  "header_loop hs = None \<longleftrightarrow>
     list_all (\<lambda>(k, v). \<not> reservedHeaders (ToLower k) \<and> validHeader k \<and> \<not> has_newline v) hs"
  by (induction hs) (auto split: if_splits)

lemma attachment_loop_None:
  "attachment_loop as = None \<longleftrightarrow>
     list_all (\<lambda>a. Filename a \<noteq> [] \<and> \<not> has_newline (Filename a) \<and> Open a \<noteq> None) as"
  by (induction as) auto

lemma validHeader_iff:
  "validHeader k \<longleftrightarrow>
     k \<noteq> [] \<and> list_all (\<lambda>c. 32 < (of_char c :: nat) \<and> (of_char c :: nat) < 127 \<and> c \<noteq> CHR '':'') k"
  by (simp add: validHeader_def header_chars_iff)

lemma validHeader_no_newline: "validHeader k \<Longrightarrow> \<not> has_newline k"
proof -
  assume "validHeader k"
  then have "\<forall>c\<in>set k. 32 < (of_char c :: nat)" by (simp add: validHeader_iff list_all_iff)
  from bspec [OF this, of "CHR 0x0D"] bspec [OF this, of "CHR 0x0A"] show ?thesis by (auto simp: has_newline_def)
qed

lemma validateMessage_None:
  "validateMessage ml m = None \<longleftrightarrow>
      validateAddress ml ''from'' (From m) = None \<and> To m @ CC m @ BCC m \<noteq> []
      \<and> group_loop ml [(''to'', To m), (''cc'', CC m), (''bcc'', BCC m), (''reply-to'', ReplyTo m)] = None
      \<and> \<not> (Text m = [] \<and> HTML m = []) \<and> header_loop (Headers m) = None \<and> attachment_loop (Attachments m) = None"
  by (auto simp: validateMessage_def simp del: group_loop.simps split: option.split)

section \<open>Properties\<close>

text \<open>C14. Validation accepts exactly the messages that have a sender, at least one recipient and a body,
  whose addresses all parse back to themselves, whose custom headers are not reserved, have
  names of visible ASCII without a colon and values without line breaks, and whose attachments
  have a file name without line breaks and a source, in whatever order the headers are visited.\<close>

theorem validate_message_iff:
  "(validateMessage ml m = None) =
     (To m @ CC m @ BCC m \<noteq> [] \<and> \<not> (Text m = [] \<and> HTML m = [])
      \<and> list_all (\<lambda>a. Email a \<noteq> [] \<and> ParseAddress ml (Address_String ml a) = Inr (Email a))
          (From m # To m @ CC m @ BCC m @ ReplyTo m)
      \<and> list_all (\<lambda>(k, v). \<not> reservedHeaders (ToLower k) \<and> k \<noteq> []
            \<and> list_all (\<lambda>c. 32 < (of_char c :: nat) \<and> (of_char c :: nat) < 127 \<and> c \<noteq> CHR '':'') k \<and> \<not> has_newline v) (Headers m)
      \<and> list_all (\<lambda>a. Filename a \<noteq> [] \<and> \<not> has_newline (Filename a) \<and> Open a \<noteq> None) (Attachments m))"
proof -
  have h: "header_loop (Headers m) = None \<longleftrightarrow> list_all (\<lambda>(k, v). \<not> reservedHeaders (ToLower k) \<and> k \<noteq> []
            \<and> list_all (\<lambda>c. 32 < (of_char c :: nat) \<and> (of_char c :: nat) < 127 \<and> c \<noteq> CHR '':'') k \<and> \<not> has_newline v) (Headers m)"
    unfolding header_loop_None validHeader_iff by (simp add: conj_assoc)
  show ?thesis
    unfolding validateMessage_None h attachment_loop_None group_loop_None validateAddress_None by (simp add: validateAddress_None conj_ac)
qed

text \<open>The recorder: messages sent one after the other are recorded in order, copies equal to what
  was sent, if all are valid and no error is configured; if a sequence is reported as sent, all of
  it was valid and recorded; a reset recorder is a new one.\<close>

theorem recorder_records:
  "(rec_err r = None \<and> list_all (\<lambda>m. validateMessage ml m = None) ms \<longrightarrow>
      (\<exists>r'. send_all (Recorder_Send ml) now ms r = (True, r') \<and> Recorder_Messages r' = Recorder_Messages r @ ms))
   \<and> (\<forall>r'. send_all (Recorder_Send ml) now ms r = (True, r') \<longrightarrow>
        Recorder_Messages r' = Recorder_Messages r @ ms \<and> list_all (\<lambda>m. validateMessage ml m = None) ms)
   \<and> Recorder_Reset r = NewRecorder"
proof (intro conjI impI allI)
  assume "rec_err r = None \<and> list_all (\<lambda>m. validateMessage ml m = None) ms"
  with recorder.send_all_success [of r ms ml now]
  show "\<exists>r'. send_all (Recorder_Send ml) now ms r = (True, r') \<and> Recorder_Messages r' = Recorder_Messages r @ ms"
    by (auto simp: list_all_iff)
next
  fix r' assume "send_all (Recorder_Send ml) now ms r = (True, r')"
  from recorder.send_all_only_valid [OF this]
  show "Recorder_Messages r' = Recorder_Messages r @ ms" "list_all (\<lambda>m. validateMessage ml m = None) ms"
    by (simp_all add: list_all_iff)
qed (simp add: Recorder_Reset_def NewRecorder_def)

definition demo_mail :: mail where
  "demo_mail = \<lparr>address_string = (\<lambda>name email. email), ParseAddress = Inr\<rparr>"

definition demo_message :: Message where
  "demo_message = \<lparr>From = \<lparr>Name = [], Email = ''a@x''\<rparr>, To = [\<lparr>Name = [], Email = ''b@x''\<rparr>], CC = [], BCC = [\<lparr>Name = [], Email = ''c@x''\<rparr>],
     ReplyTo = [], Subject = ''s'', Text = ''t'', HTML = [], Headers = [], Attachments = []\<rparr>"

lemma demo_valid: "validateMessage demo_mail demo_message = None"
  by (simp add: validateMessage_def validateAddress_def Address_String_def demo_mail_def demo_message_def)

theorem recorder_records_witness:
  "\<exists>r'. send_all (Recorder_Send demo_mail) 5 [demo_message, demo_message] NewRecorder = (True, r')
      \<and> Recorder_Messages r' = [demo_message, demo_message]"
  using recorder_records [of NewRecorder demo_mail "[demo_message, demo_message]" 5] demo_valid
  by (simp add: NewRecorder_def)

end
