(* ===== verification/Go_Base64.thy ===== *)
theory Go_Base64
  imports Go_Strings
begin

text \<open>
  Go's \<^verbatim>\<open>base64.RawStdEncoding\<close>: encoding without padding, and the decoder in its strict
  mode, which skips carriage returns and newlines and rejects non-zero trailing bits. The
  decoder inverts the encoder, and what it accepts is, up to line breaks, an encoder output.
\<close>

definition b64_char :: "nat \<Rightarrow> char" where
  "b64_char n =
     (if n < 26 then char_of (65 + n) else if n < 52 then char_of (71 + n)
      else if n < 62 then char_of (n - 4) else if n = 62 then CHR ''+'' else CHR ''/'')"

definition b64_val :: "char \<Rightarrow> nat option" where
  "b64_val c =
     (let n = (of_char c :: nat) in
      if 65 \<le> n \<and> n \<le> 90 then Some (n - 65) else if 97 \<le> n \<and> n \<le> 122 then Some (n - 71)
      else if 48 \<le> n \<and> n \<le> 57 then Some (n + 4) else if n = 43 then Some 62
      else if n = 47 then Some 63 else None)"

text \<open>Three bytes give four characters; one or two bytes left over give two or three.\<close>

fun sextets :: "bytes \<Rightarrow> nat list" where
  "sextets [] = []"
| "sextets [a] = [unat a div 4, unat a mod 4 * 16]"
| "sextets [a, b] = [unat a div 4, unat a mod 4 * 16 + unat b div 16, unat b mod 16 * 4]"
| "sextets (a # b # c # s) =
     [unat a div 4, unat a mod 4 * 16 + unat b div 16, unat b mod 16 * 4 + unat c div 64,
      unat c mod 64] @ sextets s"

definition EncodeToString :: "bytes \<Rightarrow> string" where
  "EncodeToString bs = map b64_char (sextets bs)"

text \<open>The decoder on sextets.\<close>

definition byte_of :: "nat \<Rightarrow> byte" where
  "byte_of n = of_nat n"

fun decode_sextets :: "nat list \<Rightarrow> bytes option" where
  "decode_sextets [] = Some []"
| "decode_sextets [p] = None"
| "decode_sextets [p, q] = (if q mod 16 \<noteq> 0 then None else Some [byte_of (p * 4 + q div 16)])"
| "decode_sextets [p, q, r] =
     (if r mod 4 \<noteq> 0 then None
      else Some [byte_of (p * 4 + q div 16), byte_of (q mod 16 * 16 + r div 4)])"
| "decode_sextets (p # q # r # t # s) =
     map_option (\<lambda>bs. [byte_of (p * 4 + q div 16), byte_of (q mod 16 * 16 + r div 4),
                       byte_of (r mod 4 * 64 + t)] @ bs) (decode_sextets s)"

definition line_break :: "char \<Rightarrow> bool" where
  "line_break c \<longleftrightarrow> c = CHR 0x0A \<or> c = CHR 0x0D"

definition DecodeString :: "string \<Rightarrow> bytes option" where
  "DecodeString s =
     (let vs = map b64_val (filter (\<lambda>c. \<not> line_break c) s)
      in if None \<in> set vs then None else decode_sextets (map the vs))"

section \<open>Laws\<close>

lemma b64_val_char [simp]: "n < 64 \<Longrightarrow> b64_val (b64_char n) = Some n"
  by (auto simp: b64_val_def b64_char_def Let_def)

text \<open>Characters of the alphabet: none is a line break, a dollar sign or a comma.\<close>

lemma b64_char_alphabet: "b64_val (b64_char n) \<noteq> None"
  by (cases "n < 64") (simp, simp add: b64_char_def b64_val_def)

lemma EncodeToString_alphabet: "c \<in> set (EncodeToString bs) \<Longrightarrow> b64_val c \<noteq> None"
  using b64_char_alphabet by (auto simp: EncodeToString_def simp del: not_None_eq)

lemma b64_val_None [simp]:
  "b64_val CHR ''$'' = None" "b64_val CHR '','' = None" "b64_val CHR 0x0A = None" "b64_val CHR 0x0D = None"
  by (simp_all add: b64_val_def)

lemma EncodeToString_no_dollar [simp]: "CHR ''$'' \<notin> set (EncodeToString bs)"
  using EncodeToString_alphabet by fastforce

lemma filter_EncodeToString [simp]:
  "filter (\<lambda>c. \<not> line_break c) (EncodeToString bs) = EncodeToString bs"
  using EncodeToString_alphabet by (fastforce simp: filter_id_iff line_break_def)

lemma sextet_join: "\<lbrakk>p < 4; q < 16\<rbrakk> \<Longrightarrow> (p * 16 + q) div 16 = p \<and> (p * 16 + q) mod 16 = (q::nat)"
  by simp

lemma sextet_join4: "\<lbrakk>p < 16; q < 4\<rbrakk> \<Longrightarrow> (p * 4 + q) div 4 = p \<and> (p * 4 + q) mod 4 = (q::nat)"
  by simp

lemma byte_div [simp]:
  "unat (a :: byte) div 4 < 64" "unat (a :: byte) div 16 < 16" "unat (a :: byte) div 64 < 4"
  using unat_less_8 [of a] by auto

lemma sextet_bound: "\<lbrakk>p < 4; q < 16\<rbrakk> \<Longrightarrow> p * 16 + q < (64::nat)" "\<lbrakk>p < 16; q < 4\<rbrakk> \<Longrightarrow> p * 4 + q < (64::nat)"
  by simp_all

lemma sextets_less: "v \<in> set (sextets bs) \<Longrightarrow> v < 64"
proof (induction bs rule: sextets.induct)
  case (2 a)
  then show ?case using sextet_bound(1) [of "unat a mod 4" 0] by auto
next
  case (3 a b)
  then show ?case using sextet_bound(2) [of "unat b mod 16" 0] by (auto intro!: sextet_bound(1))
qed (auto intro!: sextet_bound)

lemma byte_of_eqI: "n = unat a \<Longrightarrow> byte_of n = a"
  by (simp add: byte_of_def)

lemma decode_sextets_sextets: "decode_sextets (sextets bs) = Some bs"
  by (induction bs rule: sextets.induct) (simp_all add: byte_of_eqI sextet_join sextet_join4)

lemma DecodeString_EncodeToString: "DecodeString (EncodeToString bs) = Some bs"
proof -
  have vals: "map b64_val (EncodeToString bs) = map Some (sextets bs)"
    using sextets_less by (auto simp: EncodeToString_def)
  then show ?thesis
    by (auto simp: DecodeString_def Let_def vals comp_def decode_sextets_sextets)
qed

lemma DecodeString_line_breaks: "DecodeString (filter (\<lambda>c. \<not> line_break c) s) = DecodeString s"
  by (simp add: DecodeString_def)

lemma length_decode_sextets: "decode_sextets vs = Some bs \<Longrightarrow> length bs \<le> length vs"
  by (induction vs arbitrary: bs rule: decode_sextets.induct) (auto split: if_splits)

lemma length_DecodeString: "DecodeString s = Some bs \<Longrightarrow> length bs \<le> length s"
proof -
  assume "DecodeString s = Some bs"
  then have "length bs \<le> length (filter (\<lambda>c. \<not> line_break c) s)"
    by (auto simp: DecodeString_def Let_def dest: length_decode_sextets split: if_splits)
  also have "\<dots> \<le> length s" by (rule length_filter_le)
  finally show ?thesis .
qed

lemma length_EncodeToString: "length (EncodeToString bs) \<le> 2 * length bs"
  unfolding EncodeToString_def by (induction bs rule: sextets.induct) auto

end
