(* ===== verification/Emailx_Lines.thy ===== *)
theory Emailx_Lines
  imports Emailx Go_Base64 "HOL-Library.Sublist"
begin

text \<open>
  \<^verbatim>\<open>emailx/smtp.go\<close>, the writers below a message: the connection's buffered writer, the line wrapper of
  base64 bodies, the streaming encoder of \<^verbatim>\<open>encoding/base64\<close>, and the copy loop. The main lemma is that
  however an attachment arrives, its text is the encoding of the whole in lines of 76 characters.
\<close>

section \<open>The buffered connection\<close>

text \<open>\<^verbatim>\<open>bufio.Writer\<close> over the connection: what it has accepted, after how many more bytes the connection
  fails, if it does, whether it has failed (then, as in \<^verbatim>\<open>bufio\<close>, all later writes fail), and whether
  the final flush succeeds. Beside it the state of a message being written: how many attachment
  readers are open, and how many copies have been started (the context is asked anew in each).\<close>

record sink =
  out :: string
  room :: "nat option"
  broken :: bool
  flush_ok :: bool
  bodies :: nat
  copy_count :: nat

definition conn_error :: email_error where
  "conn_error = Ext (NetError ''write'')"

definition sink_Write :: "string \<Rightarrow> sink \<Rightarrow> nat \<times> email_error option \<times> sink" where
  "sink_Write d s =
     (if broken s then (0, Some conn_error, s)
      else (case room s of
        None \<Rightarrow> (length d, None, s\<lparr>out := out s @ d\<rparr>)
      | Some n \<Rightarrow>
          if length d \<le> n then (length d, None, s\<lparr>out := out s @ d, room := Some (n - length d)\<rparr>)
          else (n, Some conn_error, s\<lparr>out := out s @ take n d, room := Some 0, broken := True\<rparr>)))"

definition sink_Flush :: "sink \<Rightarrow> email_error option \<times> sink" where
  "sink_Flush s = (if broken s \<or> \<not> flush_ok s then (Some conn_error, s\<lparr>broken := True\<rparr>) else (None, s))"

definition healthy :: "sink \<Rightarrow> bool" where
  "healthy s \<longleftrightarrow> room s = None \<and> \<not> broken s \<and> flush_ok s"

lemma sink_Write_contract:
  "sink_Write d s = (n, e, s') \<Longrightarrow> n \<le> length d \<and> out s' = out s @ take n d \<and> (e = None \<longrightarrow> n = length d)
     \<and> bodies s' = bodies s \<and> copy_count s' = copy_count s"
  by (auto simp: sink_Write_def split: option.splits if_splits)

lemma sink_Write_healthy:
  "healthy s \<Longrightarrow> sink_Write d s = (length d, None, s\<lparr>out := out s @ d\<rparr>)"
  "healthy s \<Longrightarrow> healthy (s\<lparr>out := x\<rparr>)"
  by (simp_all add: healthy_def sink_Write_def)

section \<open>The line wrapper\<close>

record lineWriter =
  writer :: sink
  column :: nat

text \<open>The break at the end of a full line.\<close>

definition line_break_if_full :: "lineWriter \<Rightarrow> email_error option \<times> lineWriter" where
  "line_break_if_full w =
     (if 76 - column w = 0 then
        (case sink_Write [CHR 0x0D, CHR 0x0A] (writer w) of
           (_, Some e, u) \<Rightarrow> (Some e, w\<lparr>writer := u\<rparr>)
         | (_, None, u) \<Rightarrow> (None, w\<lparr>writer := u, column := 0\<rparr>))
      else (None, w))"

lemma line_break_if_full_column: "line_break_if_full w = (None, w') \<Longrightarrow> column w' < 76"
  by (auto simp: line_break_if_full_def split: if_splits prod.splits option.splits)

lemma lineWriter_step:
  assumes "line_break_if_full w = (None, y)" "data \<noteq> []"
    and "sink_Write (take (min (length data) (76 - column y)) data) (writer y) = (n, None, u)"
  shows "0 < n" "n \<le> length data" "column y + n \<le> 76"
  using sink_Write_contract [OF assms(3)] line_break_if_full_column [OF assms(1)] assms(2) by auto

function lineWriter_loop :: "string \<Rightarrow> nat \<Rightarrow> lineWriter \<Rightarrow> nat \<times> email_error option \<times> lineWriter" where
  "lineWriter_loop data written w =
     (if data = [] then (written, None, w)
      else
        (case line_break_if_full w of
           (Some e, w) \<Rightarrow> (written, Some e, w)
         | (None, w) \<Rightarrow>
             (let count = min (length data) (76 - column w)
              in case sink_Write (take count data) (writer w) of
                   (n, Some e, u) \<Rightarrow> (written + n, Some e, w\<lparr>writer := u, column := column w + n\<rparr>)
                 | (n, None, u) \<Rightarrow>
                     lineWriter_loop (drop n data) (written + n) (w\<lparr>writer := u, column := column w + n\<rparr>))))"
  by auto

termination
proof (relation "measure (\<lambda>(d, _, _). length d)", goal_cases)
  case (2 data written w x y xa xb ya xc yb)
  then show ?case using lineWriter_step [of w y data xb yb] by simp
qed simp

declare lineWriter_loop.simps [simp del]

definition lineWriter_Write :: "string \<Rightarrow> lineWriter \<Rightarrow> nat \<times> email_error option \<times> lineWriter" where
  "lineWriter_Write data w = lineWriter_loop data 0 w"

text \<open>The reference: break the line when it is full and more is to come.\<close>

fun wrap :: "nat \<Rightarrow> string \<Rightarrow> string" where
  "wrap c [] = []"
| "wrap c (b # bs) = (if c = 76 then CHR 0x0D # CHR 0x0A # b # wrap 1 bs else b # wrap (Suc c) bs)"

fun wrap_column :: "nat \<Rightarrow> string \<Rightarrow> nat" where
  "wrap_column c [] = c"
| "wrap_column c (b # bs) = wrap_column (if c = 76 then 1 else Suc c) bs"

lemma wrap_append: "wrap c (xs @ ys) = wrap c xs @ wrap (wrap_column c xs) ys"
  by (induction xs arbitrary: c) auto

lemma wrap_column_append: "wrap_column c (xs @ ys) = wrap_column (wrap_column c xs) ys"
  by (induction xs arbitrary: c) auto

lemma wrap_within: "c + length xs \<le> 76 \<Longrightarrow> wrap c xs = xs \<and> wrap_column c xs = c + length xs"
  by (induction xs arbitrary: c) auto

lemma wrap_full: "xs \<noteq> [] \<Longrightarrow> wrap 76 xs = [CHR 0x0D, CHR 0x0A] @ wrap 0 xs \<and> wrap_column 76 xs = wrap_column 0 xs"
  by (cases xs) auto

text \<open>\<open>wraps data w e w'\<close>: writing \<open>data\<close> took the wrapper from \<open>w\<close> to \<open>w'\<close> and returned \<open>e\<close>. It wrote what the
  reference says, or a beginning of it if it failed.\<close>

definition wraps :: "string \<Rightarrow> lineWriter \<Rightarrow> email_error option \<Rightarrow> lineWriter \<Rightarrow> bool" where
  "wraps data w e w' \<longleftrightarrow>
     column w' \<le> 76 \<and> bodies (writer w') = bodies (writer w) \<and> copy_count (writer w') = copy_count (writer w)
     \<and> (\<exists>p. prefix p (wrap (column w) data) \<and> out (writer w') = out (writer w) @ p
          \<and> (e = None \<longrightarrow> p = wrap (column w) data \<and> column w' = wrap_column (column w) data))"

lemma wraps_Nil: "column w \<le> 76 \<Longrightarrow> wraps [] w None w"
  by (simp add: wraps_def)

lemma wraps_step:
  assumes "wraps data' y e w'" "out (writer y) = out (writer w) @ q" "bodies (writer y) = bodies (writer w)"
    "copy_count (writer y) = copy_count (writer w)"
    "wrap (column w) data = q @ wrap (column y) data'" "wrap_column (column w) data = wrap_column (column y) data'"
  shows "wraps data w e w'"
proof -
  from assms(1) obtain p where p: "prefix p (wrap (column y) data')" "out (writer w') = out (writer y) @ p"
    "e = None \<longrightarrow> p = wrap (column y) data' \<and> column w' = wrap_column (column y) data'"
    unfolding wraps_def by blast
  moreover have "column w' \<le> 76 \<and> bodies (writer w') = bodies (writer y) \<and> copy_count (writer w') = copy_count (writer y)"
    using assms(1) by (simp add: wraps_def)
  ultimately show ?thesis
    using assms(2-) by (auto simp: wraps_def intro!: exI [of _ "q @ p"])
qed

lemma wraps_stop:
  assumes "column y \<le> 76" "out (writer y) = out (writer w) @ q" "bodies (writer y) = bodies (writer w)"
    "copy_count (writer y) = copy_count (writer w)" "prefix q (wrap (column w) data)"
  shows "wraps data w (Some e) y"
  using assms by (auto simp: wraps_def)

text \<open>One round of the loop follows the reference.\<close>

lemma line_break_wraps:
  assumes "line_break_if_full w = (e, y)" "column w \<le> 76" "data \<noteq> []"
  shows "case e of Some x \<Rightarrow> wraps data w (Some x) y | None \<Rightarrow> wraps data y e' w' \<longrightarrow> wraps data w e' w'"
proof (cases "column w = 76")
  case False
  with assms show ?thesis by (auto simp: line_break_if_full_def split: option.splits)
next
  case True
  obtain n e1 u where s: "sink_Write [CHR 0x0D, CHR 0x0A] (writer w) = (n, e1, u)" by (metis prod_cases3)
  note c = sink_Write_contract [OF s]
  have p: "prefix (take n [CHR 0x0D, CHR 0x0A]) (wrap 76 data)"
    using wrap_full [OF assms(3)] by (metis prefix_prefix take_is_prefix)
  from assms(1) s True have e: "e = e1" "y = (if e1 = None then w\<lparr>writer := u, column := 0\<rparr> else w\<lparr>writer := u\<rparr>)"
    by (auto simp: line_break_if_full_def split: option.splits)
  show ?thesis
  proof (cases e1)
    case None
    have "wraps data y e' w' \<Longrightarrow> wraps data w e' w'"
      using None e c True wrap_full [OF assms(3)]
      by (intro wraps_step [of data y e' w' w "[CHR 0x0D, CHR 0x0A]"]) simp_all
    with None e show ?thesis by simp
  next
    case (Some x)
    with e c True p show ?thesis by (auto intro: wraps_stop)
  qed
qed

lemma chunk_wraps:
  assumes "sink_Write (take (min (length data) (76 - column y)) data) (writer y) = (n, e, u)" "column y < 76"
  shows "case e of Some x \<Rightarrow> wraps data y (Some x) (y\<lparr>writer := u, column := column y + n\<rparr>)
    | None \<Rightarrow> wraps (drop n data) (y\<lparr>writer := u, column := column y + n\<rparr>) e' w' \<longrightarrow> wraps data y e' w'"
proof -
  let ?y = "y\<lparr>writer := u, column := column y + n\<rparr>"
  note c = sink_Write_contract [OF assms(1)]
  from c have "n \<le> min (length data) (76 - column y)" by simp
  then have n: "n \<le> length data" "column y + n \<le> 76" "take n (take (min (length data) (76 - column y)) data) = take n data"
    using assms(2) by auto
  have split: "wrap (column y) data = take n data @ wrap (column y + n) (drop n data)"
    "wrap_column (column y) data = wrap_column (column y + n) (drop n data)"
    using wrap_append [of "column y" "take n data" "drop n data"] wrap_within [of "column y" "take n data"]
      wrap_column_append [of "column y" "take n data" "drop n data"] n by simp_all
  have "wraps (drop n data) ?y e' w' \<Longrightarrow> wraps data y e' w'"
    using c n split by (intro wraps_step [of "drop n data" ?y e' w' y "take n data"]) simp_all
  moreover have "wraps data y (Some x) ?y" for x
    using c n split by (intro wraps_stop [of ?y y "take n data"]) simp_all
  ultimately show ?thesis by (simp split: option.split)
qed

lemma lineWriter_loop_wraps: "\<lbrakk>lineWriter_loop data k w = (m, e, w'); column w \<le> 76\<rbrakk> \<Longrightarrow> wraps data w e w'"
proof (induction data k w rule: lineWriter_loop.induct)
  case (1 data k w)
  show ?case
  proof (cases "data = []")
    case True
    with 1(2,3) show ?thesis by (subst (asm) lineWriter_loop.simps) (simp add: wraps_Nil)
  next
    case False
    obtain e1 y where b: "line_break_if_full w = (e1, y)" by fastforce
    note lb = line_break_wraps [OF b 1(3) False, of e w']
    show ?thesis
    proof (cases e1)
      case (Some x)
      with 1(2) b False have "e = Some x" "w' = y" by (subst (asm) lineWriter_loop.simps, simp)+
      with lb Some show ?thesis by simp
    next
      case None
      obtain n e2 u where s: "sink_Write (take (min (length data) (76 - column y)) data) (writer y) = (n, e2, u)"
        by (metis prod_cases3)
      note y = line_break_if_full_column [OF b [unfolded None]]
      note ch = chunk_wraps [OF s y, of e w']
      let ?y = "y\<lparr>writer := u, column := column y + n\<rparr>"
      have "wraps data y e w'"
      proof (cases e2)
        case (Some x)
        with 1(2) b None False s have "e = Some x" "w' = ?y" by (subst (asm) lineWriter_loop.simps, simp)+
        with ch Some show ?thesis by simp
      next
        case e2: None
        with 1(2) b None False s have r: "lineWriter_loop (drop n data) (k + n) ?y = (m, e, w')"
          by (subst (asm) lineWriter_loop.simps) simp
        have "column ?y \<le> 76" using lineWriter_step(3) [OF b [unfolded None] False s [unfolded e2]] by simp
        from 1(1) [OF False b [symmetric] None refl s [symmetric] refl e2 r this] ch e2 show ?thesis by simp
      qed
      with lb None show ?thesis by simp
    qed
  qed
qed

lemma lineWriter_loop_count: "lineWriter_loop data k w = (m, None, w') \<Longrightarrow> m = k + length data"
proof (induction data k w rule: lineWriter_loop.induct)
  case (1 data k w)
  show ?case
  proof (cases "data = []")
    case True
    with 1(2) show ?thesis by (subst (asm) lineWriter_loop.simps) simp
  next
    case False
    with 1(2) obtain y where b: "line_break_if_full w = (None, y)"
      by (subst (asm) lineWriter_loop.simps) (auto split: prod.splits option.splits)
    with False 1(2) obtain n u where s: "sink_Write (take (min (length data) (76 - column y)) data) (writer y) = (n, None, u)"
      by (subst (asm) lineWriter_loop.simps) (auto simp: Let_def split: prod.splits option.splits)
    from 1(1) [OF False b [symmetric] refl refl s [symmetric] refl refl] 1(2) b s False lineWriter_step [OF b False s]
    show ?thesis by (subst (asm) (2) lineWriter_loop.simps) simp
  qed
qed

lemma line_break_healthy: "healthy (writer w) \<Longrightarrow> \<exists>y. line_break_if_full w = (None, y) \<and> healthy (writer y)"
  by (cases "column w < 76") (simp_all add: line_break_if_full_def sink_Write_healthy)

lemma lineWriter_loop_healthy: "healthy (writer w) \<Longrightarrow> \<exists>m w'. lineWriter_loop data k w = (m, None, w') \<and> healthy (writer w')"
proof (induction data k w rule: lineWriter_loop.induct)
  case (1 data k w)
  show ?case
  proof (cases "data = []")
    case True
    with 1(2) show ?thesis by (subst lineWriter_loop.simps) simp
  next
    case False
    obtain y where b: "line_break_if_full w = (None, y)" "healthy (writer y)"
      using line_break_healthy [OF 1(2)] by blast
    note s = sink_Write_healthy(1) [OF b(2), of "take (min (length data) (76 - column y)) data"]
    from 1(1) [OF False b(1) [symmetric] refl refl s [symmetric] refl refl] b s False
    show ?thesis by (subst lineWriter_loop.simps) (simp add: Let_def sink_Write_healthy)
  qed
qed

lemma wraps_trans: "\<lbrakk>wraps a w None y; wraps b y e w'\<rbrakk> \<Longrightarrow> wraps (a @ b) w e w'"
proof -
  assume a: "wraps a w None y" and b: "wraps b y e w'"
  from a have "out (writer y) = out (writer w) @ wrap (column w) a" "column y = wrap_column (column w) a"
    "bodies (writer y) = bodies (writer w)" "copy_count (writer y) = copy_count (writer w)"
    by (auto simp: wraps_def)
  then show ?thesis by (intro wraps_step [OF b]) (simp_all add: wrap_append wrap_column_append)
qed

lemma wraps_column: "wraps d w e w' \<Longrightarrow> column w' \<le> 76"
  by (simp add: wraps_def)

lemma wraps_frame:
  "wraps d w e w' \<Longrightarrow> bodies (writer w') = bodies (writer w) \<and> copy_count (writer w') = copy_count (writer w)"
  by (simp add: wraps_def)

section \<open>Base64 with padding, streamed\<close>

text \<open>\<^verbatim>\<open>base64.StdEncoding\<close>.\<close>

definition std_encode :: "bytes \<Rightarrow> string" where
  "std_encode bs = EncodeToString bs @ replicate ((3 - length bs mod 3) mod 3) CHR ''=''"

text \<open>\<^verbatim>\<open>base64.NewEncoder\<close>: up to two bytes wait for the rest of their group; larger input is encoded in
  pieces of 768 bytes; after an error the encoder stays in it.\<close>

record encoder =
  enc_buf :: bytes
  enc_err :: "email_error option"
  enc_line :: lineWriter

definition NewEncoder :: "lineWriter \<Rightarrow> encoder" where
  "NewEncoder w = \<lparr>enc_buf = [], enc_err = None, enc_line = w\<rparr>"

definition enc_piece :: "string \<Rightarrow> encoder \<Rightarrow> encoder" where
  "enc_piece t e = (case lineWriter_Write t (enc_line e) of (_, x, w) \<Rightarrow> e\<lparr>enc_err := x, enc_line := w\<rparr>)"

definition piece_size :: "bytes \<Rightarrow> nat" where
  "piece_size p = (if 768 > length p then length p - length p mod 3 else 768)"

lemma piece_size_bounds: "3 \<le> length p \<Longrightarrow> 3 \<le> piece_size p \<and> piece_size p \<le> length p \<and> 3 dvd piece_size p"
proof -
  assume p: "3 \<le> length p"
  have "length p - length p mod 3 = 3 * (length p div 3)" by (simp add: minus_mod_eq_mult_div)
  moreover have "1 \<le> length p div 3" using p by simp
  ultimately show ?thesis by (auto simp: piece_size_def)
qed

function enc_interior :: "bytes \<Rightarrow> nat \<Rightarrow> encoder \<Rightarrow> nat \<times> email_error option \<times> encoder" where
  "enc_interior p n e =
     (if 3 \<le> length p then
        (let nn = piece_size p; e = enc_piece (EncodeToString (take nn p)) e
         in case enc_err e of
              Some x \<Rightarrow> (n, Some x, e)
            | None \<Rightarrow> enc_interior (drop nn p) (n + nn) e)
      else (n + length p, None, e\<lparr>enc_buf := p\<rparr>))"
  by auto

termination
proof (relation "measure (\<lambda>(p, _, _). length p)", goal_cases)
  case (2 p n e x xa)
  then show ?case using piece_size_bounds [of p] by auto
qed simp

declare enc_interior.simps [simp del]

definition encoder_Write :: "(email_cause, encoder) writer" where
  "encoder_Write p e =
     (case enc_err e of
        Some x \<Rightarrow> (0, Some x, e)
      | None \<Rightarrow>
          if 0 < length (enc_buf e) then
            (let i = min (length p) (3 - length (enc_buf e));
                 e = e\<lparr>enc_buf := enc_buf e @ take i p\<rparr>
             in if length (enc_buf e) < 3 then (i, None, e)
                else
                  (let e = enc_piece (EncodeToString (enc_buf e)) e
                   in case enc_err e of
                        Some x \<Rightarrow> (i, Some x, e)
                      | None \<Rightarrow> enc_interior (drop i p) i (e\<lparr>enc_buf := []\<rparr>)))
          else enc_interior p 0 e)"

definition encoder_Close :: "encoder \<Rightarrow> email_error option \<times> encoder" where
  "encoder_Close e =
     (if enc_err e = None \<and> 0 < length (enc_buf e)
      then (let e = (enc_piece (std_encode (enc_buf e)) e)\<lparr>enc_buf := []\<rparr> in (enc_err e, e))
      else (enc_err e, e))"

subsection \<open>What it writes\<close>

lemma sextets_append: "3 dvd length a \<Longrightarrow> sextets (a @ b) = sextets a @ sextets b"
proof (induction a rule: sextets.induct)
  case (4 x y z s)
  have "length (x # y # z # s) = length s + 3" by simp
  with 4(2) have "3 dvd length s" by (metis dvd_add_triv_right_iff)
  from 4(1) [OF this] show ?case by simp
qed (auto dest: dvd_imp_le)

lemma EncodeToString_append: "3 dvd length a \<Longrightarrow> EncodeToString (a @ b) = EncodeToString a @ EncodeToString b"
  by (simp add: EncodeToString_def sextets_append)

lemma std_encode_append: "3 dvd length a \<Longrightarrow> std_encode (a @ b) = EncodeToString a @ std_encode b"
  by (auto simp: std_encode_def EncodeToString_append)

lemma std_encode_full: "3 dvd length a \<Longrightarrow> std_encode a = EncodeToString a"
  by (auto simp: std_encode_def)

text \<open>\<open>encoded w d e\<close>: since it stood at \<open>w\<close>, the encoder was given \<open>d\<close> and has written the full groups of it.\<close>

definition encoded :: "lineWriter \<Rightarrow> bytes \<Rightarrow> encoder \<Rightarrow> bool" where
  "encoded w d e \<longleftrightarrow>
     enc_err e = None \<and> length (enc_buf e) < 3
     \<and> (\<exists>x. d = x @ enc_buf e \<and> 3 dvd length x \<and> wraps (EncodeToString x) w None (enc_line e))"

lemma encoded_new: "column w \<le> 76 \<Longrightarrow> encoded w [] (NewEncoder w)"
  by (auto simp: encoded_def NewEncoder_def EncodeToString_def wraps_Nil intro!: exI [of _ "[]"])

lemma enc_piece_wraps:
  assumes "wraps a w None (enc_line e)"
  shows "wraps (a @ t) w (enc_err (enc_piece t e)) (enc_line (enc_piece t e)) \<and> enc_buf (enc_piece t e) = enc_buf e"
proof -
  obtain m x w' where l: "lineWriter_loop t 0 (enc_line e) = (m, x, w')" by (metis prod_cases3)
  from wraps_trans [OF assms lineWriter_loop_wraps [OF l wraps_column [OF assms]]] l show ?thesis
    by (simp add: enc_piece_def lineWriter_Write_def)
qed

lemma enc_interior_encoded:
  assumes "enc_interior p n e = (m, None, e')" "wraps (EncodeToString x) w None (enc_line e)" "3 dvd length x" "enc_err e = None"
  shows "m = n + length p \<and> encoded w (x @ p) e'"
  using assms
proof (induction p n e arbitrary: x rule: enc_interior.induct)
  case (1 p n e)
  show ?case
  proof (cases "3 \<le> length p")
    case False
    with 1(2) have "m = n + length p" "e' = e\<lparr>enc_buf := p\<rparr>" by (subst (asm) enc_interior.simps, simp)+
    with False 1(3-) show ?thesis by (auto simp: encoded_def)
  next
    case True
    note b = piece_size_bounds [OF True]
    let ?e = "enc_piece (EncodeToString (take (piece_size p) p)) e"
    from 1(2) True have "enc_err ?e = None" "enc_interior (drop (piece_size p) p) (n + piece_size p) ?e = (m, None, e')"
      by (subst (asm) enc_interior.simps, simp add: Let_def split: option.splits)+
    moreover have "wraps (EncodeToString (x @ take (piece_size p) p)) w None (enc_line ?e)"
      using enc_piece_wraps [OF 1(3), of "EncodeToString (take (piece_size p) p)"] 1(4) calculation(1)
      by (simp add: EncodeToString_append)
    ultimately show ?thesis
      using 1(1) [OF True refl refl _ _ _, of "x @ take (piece_size p) p"] b 1(4) by simp
  qed
qed

lemma encoder_tracks: "tracks encoder_Write (encoded w)"
proof -
  have "encoded w (x @ d) e'"
    if e: "encoded w x e" and d: "d \<noteq> []" and r: "encoder_Write d e = (length d, None, e')" for x d e e'
  proof -
    from e obtain y where y: "x = y @ enc_buf e" "3 dvd length y" "wraps (EncodeToString y) w None (enc_line e)"
      and none: "enc_err e = None" and len: "length (enc_buf e) < 3" by (auto simp: encoded_def)
    let ?i = "min (length d) (3 - length (enc_buf e))"
    let ?b = "enc_buf e @ take ?i d"
    let ?e = "enc_piece (EncodeToString ?b) (e\<lparr>enc_buf := ?b\<rparr>)"
    consider (empty) "enc_buf e = []" | (short) "enc_buf e \<noteq> []" "length ?b < 3" | (full) "enc_buf e \<noteq> []" "\<not> length ?b < 3" by blast
    then show ?thesis
    proof cases
      case empty
      with r none have "enc_interior d 0 e = (length d, None, e')" by (simp add: encoder_Write_def)
      from enc_interior_encoded [OF this y(3,2) none] y empty show ?thesis by simp
    next
      case short
      then have t: "take ?i d = d" "length (enc_buf e) + length d < 3" by auto
      with short r none have "e' = e\<lparr>enc_buf := ?b\<rparr>" by (auto simp: encoder_Write_def Let_def)
      with t show ?thesis using y none by (auto simp: encoded_def)
    next
      case full
      then have b: "length ?b = 3" using len by auto
      from full r none have p: "enc_err ?e = None" "enc_interior (drop ?i d) ?i (?e\<lparr>enc_buf := []\<rparr>) = (length d, None, e')"
        using b by (simp_all add: encoder_Write_def Let_def split: option.splits)
      have "wraps (EncodeToString (y @ ?b)) w None (enc_line (?e\<lparr>enc_buf := []\<rparr>))"
        using enc_piece_wraps [of "EncodeToString y" w "e\<lparr>enc_buf := ?b\<rparr>" "EncodeToString ?b"] y p(1)
        by (simp add: EncodeToString_append)
      from enc_interior_encoded [OF p(2) this] y b p(1) show ?thesis by simp
    qed
  qed
  then show ?thesis unfolding tracks_def by blast
qed

lemma encoder_Close_encoded:
  assumes "encoded w d e" "encoder_Close e = (None, e')"
  shows "wraps (std_encode d) w None (enc_line e')"
proof -
  from assms(1) obtain x where x: "d = x @ enc_buf e" "3 dvd length x" "wraps (EncodeToString x) w None (enc_line e)"
    by (auto simp: encoded_def)
  show ?thesis
  proof (cases "enc_buf e = []")
    case True
    with assms x show ?thesis by (auto simp: encoder_Close_def encoded_def std_encode_full)
  next
    case False
    with assms enc_piece_wraps [OF x(3), of "std_encode (enc_buf e)"] x show ?thesis
      by (auto simp: encoder_Close_def encoded_def std_encode_append Let_def)
  qed
qed

lemma enc_interior_healthy:
  "\<lbrakk>healthy (writer (enc_line e)); enc_err e = None\<rbrakk> \<Longrightarrow>
   \<exists>m e'. enc_interior p n e = (m, None, e') \<and> healthy (writer (enc_line e')) \<and> enc_err e' = None \<and> length (enc_buf e') < 3
     \<and> m = n + length p"
proof (induction p n e rule: enc_interior.induct)
  case (1 p n e)
  show ?case
  proof (cases "3 \<le> length p")
    case False
    with 1(2,3) show ?thesis by (subst enc_interior.simps) simp
  next
    case True
    let ?e = "enc_piece (EncodeToString (take (piece_size p) p)) e"
    have h: "enc_err ?e = None" "healthy (writer (enc_line ?e))"
      using lineWriter_loop_healthy [OF 1(2), of "EncodeToString (take (piece_size p) p)" 0]
      by (auto simp: enc_piece_def lineWriter_Write_def)
    from 1(1) [OF True refl refl h(1) h(2,1)] True piece_size_bounds [OF True] h(1) show ?thesis
      by (subst enc_interior.simps) (auto simp: Let_def)
  qed
qed

definition encoder_ready :: "encoder \<Rightarrow> bool" where
  "encoder_ready e \<longleftrightarrow> healthy (writer (enc_line e)) \<and> enc_err e = None \<and> length (enc_buf e) < 3"

lemma enc_piece_healthy:
  "healthy (writer (enc_line e)) \<Longrightarrow>
   enc_err (enc_piece t e) = None \<and> healthy (writer (enc_line (enc_piece t e))) \<and> enc_buf (enc_piece t e) = enc_buf e"
  using lineWriter_loop_healthy [of "enc_line e" t 0] by (auto simp: enc_piece_def lineWriter_Write_def)

lemma encoder_accepts: "accepts_on encoder_ready encoder_Write"
proof -
  have "\<exists>e'. encoder_Write d e = (length d, None, e') \<and> encoder_ready e'" if r: "encoder_ready e" for d e
  proof -
    let ?i = "min (length d) (3 - length (enc_buf e))"
    let ?b = "enc_buf e @ take ?i d"
    let ?e = "enc_piece (EncodeToString ?b) (e\<lparr>enc_buf := ?b\<rparr>)"
    from r have h: "healthy (writer (enc_line e))" "enc_err e = None" "length (enc_buf e) < 3" by (simp_all add: encoder_ready_def)
    consider (empty) "enc_buf e = []" | (short) "enc_buf e \<noteq> []" "length ?b < 3" | (full) "enc_buf e \<noteq> []" "\<not> length ?b < 3" by blast
    then show ?thesis
    proof cases
      case empty
      with enc_interior_healthy [OF h(1,2), of d 0] h(2) show ?thesis by (auto simp: encoder_Write_def encoder_ready_def)
    next
      case short
      then have "?i = length d" "length (enc_buf e) + length d < 3" by auto
      with short h show ?thesis by (simp add: encoder_Write_def encoder_ready_def Let_def)
    next
      case full
      then have i: "?i = 3 - length (enc_buf e)" "3 - length (enc_buf e) \<le> length d" using h(3) by auto
      have p: "enc_err ?e = None" "healthy (writer (enc_line ?e))" using enc_piece_healthy [of "e\<lparr>enc_buf := ?b\<rparr>"] h(1) by simp_all
      have "encoder_Write d e = enc_interior (drop ?i d) ?i (?e\<lparr>enc_buf := []\<rparr>)"
        using full h(2,3) p(1) by (simp add: encoder_Write_def Let_def)
      with enc_interior_healthy [of "?e\<lparr>enc_buf := []\<rparr>" "drop ?i d" ?i] p i show ?thesis by (auto simp: encoder_ready_def)
    qed
  qed
  then show ?thesis unfolding accepts_on_def by blast
qed

lemma encoder_Close_healthy: "encoder_ready e \<Longrightarrow> \<exists>e'. encoder_Close e = (None, e') \<and> healthy (writer (enc_line e'))"
  using enc_piece_healthy [of e] by (auto simp: encoder_ready_def encoder_Close_def Let_def)

text \<open>Writes of the encoder, also failing ones, leave the rest of the state alone.\<close>

definition same_frame :: "sink \<Rightarrow> sink \<Rightarrow> bool" where
  "same_frame s s' \<longleftrightarrow> bodies s' = bodies s \<and> copy_count s' = copy_count s"

definition line_frame :: "sink \<Rightarrow> encoder \<Rightarrow> bool" where
  "line_frame s e \<longleftrightarrow> column (enc_line e) \<le> 76 \<and> same_frame s (writer (enc_line e))"

lemma enc_piece_frame: "line_frame s e \<Longrightarrow> line_frame s (enc_piece t e)"
proof -
  assume f: "line_frame s e"
  obtain m x w' where l: "lineWriter_loop t 0 (enc_line e) = (m, x, w')" by (metis prod_cases3)
  with f lineWriter_loop_wraps [OF l] show ?thesis
    by (simp add: enc_piece_def lineWriter_Write_def line_frame_def same_frame_def wraps_def)
qed

lemma line_frame_buf [simp]: "line_frame s (e\<lparr>enc_buf := b\<rparr>) = line_frame s e"
  by (simp add: line_frame_def)

lemma enc_interior_frame: "line_frame s e \<Longrightarrow> line_frame s (snd (snd (enc_interior p n e)))"
proof (induction p n e rule: enc_interior.induct)
  case (1 p n e)
  then show ?case by (subst enc_interior.simps) (auto simp: Let_def enc_piece_frame split: option.split)
qed

lemma encoder_Write_frame: "line_frame s e \<Longrightarrow> line_frame s (snd (snd (encoder_Write d e)))"
  by (auto simp: encoder_Write_def Let_def enc_piece_frame enc_interior_frame split: option.split)

lemma encoder_Close_frame: "line_frame s e \<Longrightarrow> line_frame s (snd (encoder_Close e))"
  by (simp add: encoder_Close_def Let_def enc_piece_frame)

section \<open>Lines and decoding\<close>

text \<open>The reference as lines: 76 characters each, the last one shorter.\<close>

abbreviation crlf :: string where "crlf \<equiv> [CHR 0x0D, CHR 0x0A]"

function chop76 :: "string \<Rightarrow> string list" where
  "chop76 d = (if d = [] then [] else take 76 d # chop76 (drop 76 d))"
  by auto
termination by (relation "measure length") auto

declare chop76.simps [simp del]

lemma wrap_lines: "wrap 0 d = Join (chop76 d) crlf"
proof (induction d rule: chop76.induct)
  case (1 d)
  show ?case
  proof (cases "d = [] \<or> drop 76 d = []")
    case True
    then show ?thesis using wrap_within [of 0 d] by (auto simp: chop76.simps [of d] chop76.simps [of "[]"])
  next
    case False
    then have "chop76 (drop 76 d) \<noteq> []" by (subst chop76.simps) simp
    then have "Join (chop76 d) crlf = take 76 d @ crlf @ Join (chop76 (drop 76 d)) crlf"
      using False by (subst chop76.simps) (simp add: Join_Cons)
    moreover have "wrap 0 d = take 76 d @ crlf @ wrap 0 (drop 76 d)"
      using wrap_append [of 0 "take 76 d" "drop 76 d"] wrap_within [of 0 "take 76 d"] wrap_full [of "drop 76 d"] False by simp
    ultimately show ?thesis using 1 False by simp
  qed
qed

lemma chop76_lines: "l \<in> set (chop76 d) \<Longrightarrow> l \<noteq> [] \<and> length l \<le> 76 \<and> set l \<subseteq> set d"
proof (induction d rule: chop76.induct)
  case (1 d)
  then show ?case by (subst (asm) (2) chop76.simps) (auto split: if_splits dest: in_set_takeD in_set_dropD)
qed

lemma filter_wrap: "filter (\<lambda>c. \<not> line_break c) (wrap c d) = filter (\<lambda>c. \<not> line_break c) d"
  by (induction c d rule: wrap.induct) (auto simp: line_break_def)

text \<open>A reader of the message: line breaks and padding are skipped.\<close>

definition mime_decode :: "string \<Rightarrow> bytes option" where
  "mime_decode t = DecodeString (filter (\<lambda>c. c \<noteq> CHR ''='') t)"

lemma b64_val_equals [simp]: "b64_val CHR ''='' = None"
  by (simp add: b64_val_def)

lemma filter_padding: "filter (\<lambda>c. c \<noteq> CHR ''='') (std_encode d) = EncodeToString d"
proof -
  have "\<forall>c\<in>set (EncodeToString d). c \<noteq> CHR ''=''" using EncodeToString_alphabet by fastforce
  then show ?thesis by (simp add: std_encode_def)
qed

lemma mime_decode_wrap: "mime_decode (wrap c (std_encode d)) = Some d"
proof -
  have "filter (\<lambda>c. \<not> line_break c) (filter (\<lambda>c. c \<noteq> CHR ''='') (wrap c (std_encode d)))
      = filter (\<lambda>c. c \<noteq> CHR ''='') (filter (\<lambda>c. \<not> line_break c) (wrap c (std_encode d)))"
    by (simp add: conj_commute)
  also have "\<dots> = filter (\<lambda>c. \<not> line_break c) (EncodeToString d)"
    by (simp add: filter_wrap flip: filter_padding) (simp add: conj_commute)
  finally show ?thesis
    by (metis DecodeString_EncodeToString DecodeString_line_breaks mime_decode_def)
qed

end
