(* ===== verification/Go_QuotedPrintable.thy ===== *)
theory Go_QuotedPrintable
  imports Go_Strings
begin

text \<open>
  The writer of \<^verbatim>\<open>mime/quotedprintable\<close> in text mode. It takes a text byte by byte and hands finished
  lines down. A decoder recovers the text up to its line ends, and no line has more than 76 characters.
\<close>

section \<open>The writer\<close>

text \<open>The line being assembled, and whether the last line end was a carriage return.\<close>

record qp =
  qline :: string
  qcr :: bool

definition qp_new :: qp where
  "qp_new = \<lparr>qline = [], qcr = False\<rparr>"

definition upper_hex :: "nat \<Rightarrow> char" where
  "upper_hex n = (if n < 10 then char_of (48 + n) else char_of (55 + n))"

definition qp_space :: "char \<Rightarrow> bool" where
  "qp_space c \<longleftrightarrow> c = CHR '' '' \<or> c = CHR 0x09"

definition qp_newline :: "char \<Rightarrow> bool" where
  "qp_newline c \<longleftrightarrow> c = CHR 0x0A \<or> c = CHR 0x0D"

definition qp_plain :: "char \<Rightarrow> bool" where
  "qp_plain c \<longleftrightarrow>
     (let n = (of_char c :: nat) in 33 \<le> n \<and> n \<le> 126 \<and> c \<noteq> CHR ''='') \<or> qp_space c \<or> qp_newline c"

text \<open>Each step returns the lines it writes out.\<close>

definition insertCRLF :: "qp \<Rightarrow> string list \<times> qp" where
  "insertCRLF q = ([qline q @ [CHR 0x0D, CHR 0x0A]], q\<lparr>qline := []\<rparr>)"

definition insertSoftLineBreak :: "qp \<Rightarrow> string list \<times> qp" where
  "insertSoftLineBreak q = insertCRLF (q\<lparr>qline := qline q @ ''=''\<rparr>)"

definition hex_pair :: "char \<Rightarrow> string" where
  "hex_pair c = (let n = (of_char c :: nat) in [CHR ''='', upper_hex (n div 16), upper_hex (n mod 16)])"

definition qp_encode :: "char \<Rightarrow> qp \<Rightarrow> string list \<times> qp" where
  "qp_encode c q =
     (let (ps, q) = (if 75 - length (qline q) < 3 then insertSoftLineBreak q else ([], q))
      in (ps, q\<lparr>qline := qline q @ hex_pair c\<rparr>))"

definition checkLastByte :: "qp \<Rightarrow> string list \<times> qp" where
  "checkLastByte q =
     (if qline q = [] then ([], q)
      else if qp_space (last (qline q)) then qp_encode (last (qline q)) (q\<lparr>qline := butlast (qline q)\<rparr>)
      else ([], q))"

definition qp_write :: "char \<Rightarrow> qp \<Rightarrow> string list \<times> qp" where
  "qp_write c q =
     (if qp_newline c then
        (if qcr q \<and> c = CHR 0x0A then ([], q\<lparr>qcr := False\<rparr>)
         else
           (let (ps, q) = checkLastByte q; (rs, q) = insertCRLF q
            in (ps @ rs, if c = CHR 0x0D then q\<lparr>qcr := True\<rparr> else q)))
      else
        (let (ps, q) = (if length (qline q) = 75 then insertSoftLineBreak q else ([], q))
         in (ps, q\<lparr>qline := qline q @ [c], qcr := False\<rparr>)))"

definition qp_step :: "char \<Rightarrow> qp \<Rightarrow> string list \<times> qp" where
  "qp_step c q = (if qp_plain c then qp_write c q else qp_encode c q)"

fun qp_run :: "string \<Rightarrow> qp \<Rightarrow> string list \<times> qp" where
  "qp_run [] q = ([], q)"
| "qp_run (c # s) q = (let (ps, q) = qp_step c q; (rs, q) = qp_run s q in (ps @ rs, q))"

definition qp_close :: "qp \<Rightarrow> string list" where
  "qp_close q = (let (ps, q) = checkLastByte q in ps @ [qline q])"

text \<open>The whole of a text.\<close>

definition qp_lines :: "string \<Rightarrow> string list" where
  "qp_lines s = (let (ps, q) = qp_run s qp_new in ps @ qp_close q)"

definition qp_text :: "string \<Rightarrow> string" where
  "qp_text s = concat (qp_lines s)"

lemma qp_run_append:
  "qp_run (s @ t) q = (let (ps, q) = qp_run s q; (rs, q) = qp_run t q in (ps @ rs, q))"
  by (induction s arbitrary: q) (simp_all add: case_prod_beta Let_def)

section \<open>Lines are short\<close>

definition short_line :: "string \<Rightarrow> bool" where
  "short_line l \<longleftrightarrow> (if drop (length l - 2) l = [CHR 0x0D, CHR 0x0A] then length l \<le> 78 else length l \<le> 75)"

lemma short_line_crlf: "length l \<le> 76 \<Longrightarrow> short_line (l @ [CHR 0x0D, CHR 0x0A])"
  by (simp add: short_line_def)

lemma short_line_plain: "length l \<le> 75 \<Longrightarrow> short_line l"
  by (simp add: short_line_def)

definition qp_short :: "string list \<times> qp \<Rightarrow> bool" where
  "qp_short r \<longleftrightarrow> list_all short_line (fst r) \<and> length (qline (snd r)) \<le> 75"

lemma length_hex_pair [simp]: "length (hex_pair c) = 3"
  by (simp add: hex_pair_def Let_def)

lemma qp_encode_short: "length (qline q) \<le> 75 \<Longrightarrow> qp_short (qp_encode c q)"
  by (auto simp: qp_encode_def qp_short_def insertSoftLineBreak_def insertCRLF_def
      intro!: short_line_crlf [of "_ @ ''=''", simplified])

lemma checkLastByte_short: "length (qline q) \<le> 75 \<Longrightarrow> qp_short (checkLastByte q)"
  by (auto simp: checkLastByte_def intro!: qp_encode_short) (simp_all add: qp_short_def)

lemma qp_step_short: "length (qline q) \<le> 75 \<Longrightarrow> qp_short (qp_step c q)"
proof -
  assume q: "length (qline q) \<le> 75"
  note l = checkLastByte_short [OF q]
  have "qp_short (qp_write c q)"
    using q l by (auto simp: qp_write_def qp_short_def insertSoftLineBreak_def insertCRLF_def case_prod_beta Let_def
        intro!: short_line_crlf [of "_ @ ''=''", simplified] short_line_crlf)
  with q show ?thesis by (simp add: qp_step_def qp_encode_short)
qed

lemma qp_run_short: "length (qline q) \<le> 75 \<Longrightarrow> qp_short (qp_run s q)"
proof (induction s arbitrary: q)
  case (Cons c s)
  from qp_step_short [OF Cons.prems, of c] Cons.IH [of "snd (qp_step c q)"] show ?case
    by (simp add: qp_short_def case_prod_beta Let_def)
qed (simp add: qp_short_def)

lemma qp_lines_short: "list_all short_line (qp_lines s)"
proof -
  have r: "qp_short (qp_run s qp_new)" by (rule qp_run_short) (simp add: qp_new_def)
  then have "qp_short (checkLastByte (snd (qp_run s qp_new)))" by (intro checkLastByte_short) (simp add: qp_short_def)
  with r show ?thesis
    by (simp add: qp_lines_def qp_close_def qp_short_def case_prod_beta Let_def short_line_plain)
qed

section \<open>Decoding\<close>

definition hex_val :: "char \<Rightarrow> nat" where
  "hex_val c = (let n = (of_char c :: nat) in if n \<le> 57 then n - 48 else n - 55)"

fun qp_decode :: "string \<Rightarrow> string" where
  "qp_decode [] = []"
| "qp_decode (c # s) =
     (if c = CHR ''='' then
        (case s of
           a # b # t \<Rightarrow>
             if a = CHR 0x0D \<and> b = CHR 0x0A then qp_decode t
             else char_of (hex_val a * 16 + hex_val b) # qp_decode t
         | _ \<Rightarrow> [])
      else c # qp_decode s)"

text \<open>The reference: the text with each line end (a carriage return and a line feed, or one of them alone)
  as carriage return and line feed.\<close>

fun uniform_lines :: "string \<Rightarrow> string" where
  "uniform_lines [] = []"
| "uniform_lines (c # s) =
     (if c = CHR 0x0D \<and> s \<noteq> [] \<and> hd s = CHR 0x0A then uniform_lines s
      else if qp_newline c then CHR 0x0D # CHR 0x0A # uniform_lines s
      else c # uniform_lines s)"

text \<open>The writer notes a carriage return until the next byte that it writes as it is. Line feeds that
  it drops although they end a line of their own: those separated from a carriage return by one or
  more bytes that all need encoding.\<close>

definition lf_after_encoded :: "string \<Rightarrow> bool" where
  "lf_after_encoded s \<longleftrightarrow>
     (case dropWhile (\<lambda>d. \<not> qp_plain d) s of [] \<Rightarrow> False | d # _ \<Rightarrow> d = CHR 0x0A)"

fun lost_ends :: "string \<Rightarrow> nat" where
  "lost_ends [] = 0"
| "lost_ends (c # s) =
     (if c = CHR 0x0D \<and> s \<noteq> [] \<and> \<not> qp_plain (hd s) \<and> lf_after_encoded s then 1 else 0) + lost_ends s"

text \<open>What the writer makes of a text, the flag being whether the last line end was a carriage return.\<close>

fun canon_lines :: "bool \<Rightarrow> string \<Rightarrow> string" where
  "canon_lines cr [] = []"
| "canon_lines cr (c # s) =
     (if c = CHR 0x0A then (if cr then canon_lines False s else CHR 0x0D # CHR 0x0A # canon_lines False s)
      else if c = CHR 0x0D then CHR 0x0D # CHR 0x0A # canon_lines True s
      else c # canon_lines (cr \<and> \<not> qp_plain c) s)"

lemma upper_hex_code: "n < 16 \<Longrightarrow> of_char (upper_hex n) = (if n < 10 then 48 + n else 55 + n)"
  by (simp add: upper_hex_def)

lemma hex_val_upper_hex: "n < 16 \<Longrightarrow> hex_val (upper_hex n) = n"
  by (simp add: hex_val_def upper_hex_code)

lemma upper_hex_other: "n < 16 \<Longrightarrow> upper_hex n \<noteq> CHR 0x0D \<and> \<not> qp_space (upper_hex n)"
  using upper_hex_code [of n] by (auto simp: qp_space_def split: if_splits)

lemma of_char_less: "(of_char c :: nat) < 256"
  by (cases c) simp

lemma decode_hex_pair [simp]: "qp_decode (hex_pair c @ t) = c # qp_decode t"
proof -
  have "(of_char c :: nat) div 16 < 16" using of_char_less [of c] by (simp add: less_mult_imp_div_less)
  then have "hex_val (upper_hex (of_char c div 16)) = of_char c div 16" "upper_hex (of_char c div 16) \<noteq> CHR 0x0D"
    "hex_val (upper_hex (of_char c mod 16)) = of_char c mod 16"
    using upper_hex_other by (simp_all add: hex_val_upper_hex)
  then show ?thesis by (simp add: hex_pair_def Let_def)
qed

text \<open>Texts that end between two units of the encoding.\<close>

inductive whole :: "string \<Rightarrow> bool" where
  nil: "whole []"
| lit: "\<lbrakk>whole l; c \<noteq> CHR ''=''\<rbrakk> \<Longrightarrow> whole (l @ [c])"
| enc: "whole l \<Longrightarrow> whole (l @ hex_pair c)"
| soft: "whole l \<Longrightarrow> whole (l @ [CHR ''='', CHR 0x0D, CHR 0x0A])"

lemma whole_decode: "whole l \<Longrightarrow> qp_decode (l @ t) = qp_decode l @ qp_decode t"
proof (induction arbitrary: t rule: whole.induct)
  case (lit l c)
  from lit.IH [of "c # t"] lit.IH [of "[c]"] lit.hyps show ?case by simp
next
  case (enc l c)
  from enc.IH [of "hex_pair c @ t"] enc.IH [of "hex_pair c"] decode_hex_pair [of c "[]"] show ?case by simp
next
  case (soft l)
  from soft.IH [of "CHR ''='' # CHR 0x0D # CHR 0x0A # t"] soft.IH [of "[CHR ''='', CHR 0x0D, CHR 0x0A]"]
  show ?case by simp
qed simp

lemma whole_append: "\<lbrakk>whole b; whole a\<rbrakk> \<Longrightarrow> whole (a @ b)"
proof (induction rule: whole.induct)
  case (lit l c)
  with whole.lit [of "a @ l" c] show ?case by simp
next
  case (enc l c)
  with whole.enc [of "a @ l" c] show ?case by simp
next
  case (soft l)
  with whole.soft [of "a @ l"] show ?case by simp
qed simp

lemma whole_crlf: "whole l \<Longrightarrow> whole (l @ [CHR 0x0D, CHR 0x0A])"
  using whole.lit [OF whole.lit [of l "CHR 0x0D"], of "CHR 0x0A"] by simp

lemma last_hex_pair: "\<not> qp_space (last (l @ hex_pair c))"
  using upper_hex_other [of "of_char c mod 16"] by (simp add: hex_pair_def Let_def)

lemma whole_space: "\<lbrakk>whole l; l \<noteq> []; qp_space (last l)\<rbrakk> \<Longrightarrow> whole (butlast l)"
proof (erule whole.cases, goal_cases)
  case (3 k c)
  with last_hex_pair [of k c] show ?case by simp
next
  case (4 k)
  then show ?case by (simp add: qp_space_def)
qed simp_all

text \<open>\<open>emits q r x\<close>: from state \<open>q\<close>, the step \<open>r\<close> added a text that decodes to \<open>x\<close>.\<close>

definition emits :: "qp \<Rightarrow> string list \<times> qp \<Rightarrow> string \<Rightarrow> bool" where
  "emits q r x \<longleftrightarrow>
     whole (concat (fst r)) \<and> whole (qline (snd r))
     \<and> qp_decode (concat (fst r) @ qline (snd r)) = qp_decode (qline q) @ x"

lemma emitsD:
  "emits q (ps, q') x \<Longrightarrow>
   whole (concat ps) \<and> whole (qline q') \<and> qp_decode (concat ps) @ qp_decode (qline q') = qp_decode (qline q) @ x"
  by (auto simp: emits_def whole_decode)

lemma emitsI:
  "\<lbrakk>whole (concat ps); whole (qline q'); qp_decode (concat ps) @ qp_decode (qline q') = qp_decode (qline q) @ x\<rbrakk>
   \<Longrightarrow> emits q (ps, q') x"
  by (simp add: emits_def whole_decode)

lemma emits_comp: "\<lbrakk>emits q (ps, q1) x; emits q1 (rs, q2) y\<rbrakk> \<Longrightarrow> emits q (ps @ rs, q2) (x @ y)"
proof -
  assume "emits q (ps, q1) x" "emits q1 (rs, q2) y"
  note d = emitsD [OF this(1)] emitsD [OF this(2)]
  from d have "qp_decode (concat (ps @ rs)) = qp_decode (concat ps) @ qp_decode (concat rs)" by (simp add: whole_decode)
  moreover from d have "(qp_decode (concat ps) @ qp_decode (concat rs)) @ qp_decode (qline q2) = qp_decode (qline q) @ x @ y"
    by (metis append.assoc)
  ultimately show ?thesis using d by (intro emitsI) (simp_all add: whole_append)
qed

lemma emits_nothing: "whole (qline q) \<Longrightarrow> emits q ([], q) []"
  by (simp add: emits_def whole.nil)

lemma softbreak_emits: "whole (qline q) \<Longrightarrow> emits q (insertSoftLineBreak q) []"
  by (simp add: emits_def insertSoftLineBreak_def insertCRLF_def whole.nil whole.soft whole_decode)

lemma crlf_emits: "whole (qline q) \<Longrightarrow> emits q (insertCRLF q) [CHR 0x0D, CHR 0x0A]"
  by (simp add: emits_def insertCRLF_def whole.nil whole_crlf whole_decode)

lemma emits_snoc:
  assumes "emits q (ps, q1) []" "whole u" "qp_decode u = x" "qline q2 = qline q1 @ u"
  shows "emits q (ps, q2) x"
proof -
  note d = emitsD [OF assms(1)]
  then have "qp_decode (qline q2) = qp_decode (qline q1) @ x" using assms by (simp add: whole_decode)
  with d assms show ?thesis by (intro emitsI) (simp_all add: whole_append flip: append.assoc)
qed

lemma maybe_break_emits: "whole (qline q) \<Longrightarrow> emits q (if b then insertSoftLineBreak q else ([], q)) []"
  by (simp add: softbreak_emits emits_nothing)

lemma encode_emits: "whole (qline q) \<Longrightarrow> emits q (qp_encode c q) [c]"
proof -
  assume q: "whole (qline q)"
  obtain ps q1 where r: "(if 75 - length (qline q) < 3 then insertSoftLineBreak q else ([], q)) = (ps, q1)" by fastforce
  from maybe_break_emits [OF q, of "75 - length (qline q) < 3"] r have "emits q (ps, q1) []" by simp
  moreover have "whole (hex_pair c)" "qp_decode (hex_pair c) = [c]"
    using whole.enc [OF whole.nil, of c] decode_hex_pair [of c "[]"] by simp_all
  ultimately show ?thesis unfolding qp_encode_def r Let_def by (simp add: emits_snoc)
qed

lemma last_byte_emits: "whole (qline q) \<Longrightarrow> emits q (checkLastByte q) []"
proof (cases "qline q \<noteq> [] \<and> qp_space (last (qline q))")
  case True
  assume q: "whole (qline q)"
  let ?q = "q\<lparr>qline := butlast (qline q)\<rparr>"
  have b: "whole (butlast (qline q))" using whole_space [OF q] True by simp
  have "qp_decode (qline q) = qp_decode (butlast (qline q)) @ [last (qline q)]"
    using whole_decode [OF b, of "[last (qline q)]"] True by (auto simp: qp_space_def)
  with encode_emits [of ?q "last (qline q)"] b True show ?thesis by (simp add: checkLastByte_def emits_def)
next
  case False
  assume "whole (qline q)"
  with False show ?thesis by (auto simp: checkLastByte_def emits_nothing)
qed

text \<open>One byte adds what the canonical text has for it.\<close>

lemma step_emits:
  assumes "whole (qline q)"
  shows "\<exists>x. emits q (qp_step c q) x \<and> (\<forall>s. canon_lines (qcr q) (c # s) = x @ canon_lines (qcr (snd (qp_step c q))) s)"
proof -
  have plain_nl: "qp_plain c" if "qp_newline c" using that by (simp add: qp_plain_def)
  consider (skip) "c = CHR 0x0A" "qcr q" | (line) "qp_newline c" "\<not> (qcr q \<and> c = CHR 0x0A)"
    | (lit) "qp_plain c" "\<not> qp_newline c" | (enc) "\<not> qp_plain c" by (auto simp: qp_newline_def)
  then show ?thesis
  proof cases
    case skip
    with assms emits_nothing [of "q\<lparr>qcr := False\<rparr>"] show ?thesis
      by (intro exI [of _ "[]"]) (auto simp: qp_step_def qp_plain_def qp_newline_def qp_write_def emits_def)
  next
    case line
    obtain ps q1 where l: "checkLastByte q = (ps, q1)" by fastforce
    obtain rs q2 where r: "insertCRLF q1 = (rs, q2)" by fastforce
    have e1: "emits q (ps, q1) []" using last_byte_emits [OF assms] l by simp
    then have "emits q1 (rs, q2) [CHR 0x0D, CHR 0x0A]" using crlf_emits [of q1] r by (simp add: emits_def)
    from emits_comp [OF e1 this] have "emits q (ps @ rs, q2) [CHR 0x0D, CHR 0x0A]"
      "emits q (ps @ rs, q2\<lparr>qcr := True\<rparr>) [CHR 0x0D, CHR 0x0A]" by (simp_all add: emits_def)
    moreover have "qcr q2 = qcr q"
      using l r by (auto simp: insertCRLF_def checkLastByte_def qp_encode_def insertSoftLineBreak_def split: if_splits)
    ultimately show ?thesis
      using line plain_nl l r by (intro exI [of _ "[CHR 0x0D, CHR 0x0A]"]) (auto simp: qp_step_def qp_write_def qp_newline_def)
  next
    case lit
    obtain ps q1 where r: "(if length (qline q) = 75 then insertSoftLineBreak q else ([], q)) = (ps, q1)" by fastforce
    from maybe_break_emits [OF assms, of "length (qline q) = 75"] r have e: "emits q (ps, q1) []" by simp
    have c: "c \<noteq> CHR ''=''" using lit by (auto simp: qp_plain_def qp_space_def qp_newline_def)
    from emits_snoc [OF e, of "[c]" "[c]" "q1\<lparr>qline := qline q1 @ [c], qcr := False\<rparr>"] whole.lit [OF whole.nil c] c lit r
    show ?thesis by (intro exI [of _ "[c]"]) (auto simp: qp_step_def qp_write_def qp_newline_def)
  next
    case enc
    have "qcr (snd (qp_encode c q)) = qcr q" by (simp add: qp_encode_def insertSoftLineBreak_def insertCRLF_def)
    with encode_emits [OF assms, of c] enc show ?thesis
      by (intro exI [of _ "[c]"]) (auto simp: qp_step_def qp_plain_def qp_newline_def)
  qed
qed

lemma run_emits: "whole (qline q) \<Longrightarrow> emits q (qp_run s q) (canon_lines (qcr q) s)"
proof (induction s arbitrary: q)
  case (Cons c s)
  obtain ps q1 where st: "qp_step c q = (ps, q1)" by fastforce
  obtain rs q2 where ru: "qp_run s q1 = (rs, q2)" by fastforce
  from step_emits [OF Cons.prems, of c] st obtain x where
    x: "emits q (ps, q1) x" "canon_lines (qcr q) (c # s) = x @ canon_lines (qcr q1) s" by auto
  from x(1) have "whole (qline q1)" by (simp add: emits_def)
  from emits_comp [OF x(1) Cons.IH [OF this, unfolded ru]] st ru x(2) show ?case by simp
qed (simp add: emits_nothing)

lemma qp_text_decodes: "qp_decode (qp_text s) = canon_lines False s"
proof -
  obtain ps q where r: "qp_run s qp_new = (ps, q)" by fastforce
  obtain rs q' where l: "checkLastByte q = (rs, q')" by fastforce
  have e: "emits qp_new (ps, q) (canon_lines False s)" using run_emits [of qp_new s] r by (simp add: qp_new_def whole.nil)
  then have "emits q (rs, q') []" using last_byte_emits [of q] l by (simp add: emits_def)
  from emits_comp [OF e this] r l show ?thesis
    by (simp add: qp_text_def qp_lines_def qp_close_def emits_def qp_new_def)
qed

section \<open>The text recovered and the reference\<close>

lemma qp_plain_newline [simp]: "qp_newline c \<Longrightarrow> qp_plain c"
  by (simp add: qp_plain_def)

lemma lf_after_encoded_simps [simp]:
  "\<not> lf_after_encoded []"
  "lf_after_encoded (c # s) \<longleftrightarrow> (if qp_plain c then c = CHR 0x0A else lf_after_encoded s)"
  by (simp_all add: lf_after_encoded_def)

lemma lf_after_encoded_hd: "\<lbrakk>s \<noteq> []; qp_plain (hd s)\<rbrakk> \<Longrightarrow> lf_after_encoded s \<longleftrightarrow> hd s = CHR 0x0A"
  by (cases s) simp_all

lemma newline_cases:
  "qp_newline CHR 0x0A" "qp_newline CHR 0x0D" "qp_plain CHR 0x0A" "qp_plain CHR 0x0D"
  by (simp_all add: qp_newline_def qp_plain_def)

lemma canon_lines_length:
  "length (canon_lines False s) + 2 * lost_ends s = length (uniform_lines s)
   \<and> length (canon_lines True s) + (if lf_after_encoded s then 2 else 0) + 2 * lost_ends s = length (uniform_lines s)"
proof (induction s)
  case (Cons c s)
  consider "c = CHR 0x0A" | "c = CHR 0x0D" | "\<not> qp_newline c" by (auto simp: qp_newline_def)
  then show ?case
  proof cases
    case 2
    with Cons.IH show ?thesis
      by (cases "s = []"; cases "qp_plain (hd s)"; cases "lf_after_encoded s") (auto simp: newline_cases lf_after_encoded_hd)
  qed (use Cons.IH in \<open>auto simp: newline_cases qp_newline_def\<close>)
qed simp

lemma canon_lines_uniform:
  "lost_ends s = 0 \<Longrightarrow>
   canon_lines False s = uniform_lines s \<and> (\<not> lf_after_encoded s \<longrightarrow> canon_lines True s = uniform_lines s)"
proof (induction s)
  case (Cons c s)
  then have IH: "canon_lines False s = uniform_lines s" "\<not> lf_after_encoded s \<longrightarrow> canon_lines True s = uniform_lines s"
    by (simp_all split: if_splits)
  consider "c = CHR 0x0A" | "c = CHR 0x0D" | "\<not> qp_newline c" by (auto simp: qp_newline_def)
  then show ?case
  proof cases
    case 2
    have "canon_lines True s = canon_lines False (tl s)" if "s \<noteq> []" "hd s = CHR 0x0A" using that by (cases s) simp_all
    moreover have "canon_lines False s = CHR 0x0D # CHR 0x0A # canon_lines False (tl s)" if "s \<noteq> []" "hd s = CHR 0x0A"
      using that by (cases s) simp_all
    ultimately show ?thesis using 2 IH Cons.prems
      by (cases "s = []"; cases "qp_plain (hd s)"; cases "lf_after_encoded s") (auto simp: newline_cases lf_after_encoded_hd)
  qed (use IH in \<open>auto simp: newline_cases qp_newline_def\<close>)
qed simp

lemma canon_lines_iff: "canon_lines False s = uniform_lines s \<longleftrightarrow> lost_ends s = 0"
  using canon_lines_length [of s] canon_lines_uniform [of s] by auto

lemma canon_lines_others: "filter (\<lambda>c. \<not> qp_newline c) (canon_lines b s) = filter (\<lambda>c. \<not> qp_newline c) s"
  by (induction s arbitrary: b) (auto simp: newline_cases qp_newline_def)

lemma lost_ends_no_cr: "CHR 0x0D \<notin> set s \<Longrightarrow> lost_ends s = 0"
  by (induction s) auto

lemma lost_ends_ascii: "list_all qp_plain s \<Longrightarrow> lost_ends s = 0"
proof (induction s)
  case (Cons c s)
  then show ?case by (cases s) auto
qed simp

end
