(* ===== verification/Go_Strconv.thy ===== *)
theory Go_Strconv
  imports Go_Strings
begin

text \<open>
  Decimal conversion as in Go's \<^verbatim>\<open>strconv\<close> and the verb \<^verbatim>\<open>%d\<close>: \<open>dec\<close> prints, \<open>ParseUint\<close> is
  \<^verbatim>\<open>strconv.ParseUint(s, 10, 64)\<close>, \<open>Atoi\<close> is \<^verbatim>\<open>strconv.Atoi\<close> on a 64-bit platform,
  \<open>ParseBool\<close> is \<^verbatim>\<open>strconv.ParseBool\<close>. Printing then parsing gives the number back.
\<close>

datatype numerr = ErrSyntax | ErrRange

section \<open>Printing\<close>

definition digit_char :: "nat \<Rightarrow> char" where
  "digit_char d = char_of (48 + d)"

fun dec :: "nat \<Rightarrow> string" where
  "dec n = (if n < 10 then [digit_char n] else dec (n div 10) @ [digit_char (n mod 10)])"

declare dec.simps [simp del]

definition dec_int :: "int \<Rightarrow> string" where
  "dec_int i = (if i < 0 then CHR ''-'' # dec (nat (- i)) else dec (nat i))"

section \<open>Parsing\<close>

definition is_digit :: "char \<Rightarrow> bool" where
  "is_digit c \<longleftrightarrow> 48 \<le> (of_char c :: nat) \<and> (of_char c :: nat) \<le> 57"

definition digit_val :: "char \<Rightarrow> nat" where
  "digit_val c = of_char c - 48"

definition max_uint64 :: nat where
  "max_uint64 = 18446744073709551615"

definition max_int64 :: int where
  "max_int64 = 9223372036854775807"

definition min_int64 :: int where
  "min_int64 = -9223372036854775808"

text \<open>The digit loop, with the range tests before and after the multiplication.\<close>

fun uint_loop :: "nat \<Rightarrow> string \<Rightarrow> numerr + nat" where
  "uint_loop n [] = Inr n"
| "uint_loop n (c # s) =
     (if \<not> is_digit c then Inl ErrSyntax
      else if max_uint64 div 10 + 1 \<le> n then Inl ErrRange
      else if max_uint64 < n * 10 + digit_val c then Inl ErrRange
      else uint_loop (n * 10 + digit_val c) s)"

definition ParseUint :: "string \<Rightarrow> numerr + nat" where
  "ParseUint s = (if s = [] then Inl ErrSyntax else uint_loop 0 s)"

text \<open>\<^verbatim>\<open>Atoi\<close> also returns a value with its error: 0 for a syntax error, the bound it ran into
  for a range error.\<close>

definition Atoi :: "string \<Rightarrow> int \<times> numerr option" where
  "Atoi s =
     (let neg = (s \<noteq> [] \<and> hd s = CHR ''-'');
          t = (if s \<noteq> [] \<and> (hd s = CHR ''-'' \<or> hd s = CHR ''+'') then tl s else s)
      in case ParseUint t of
           Inl ErrSyntax \<Rightarrow> (0, Some ErrSyntax)
         | Inl ErrRange \<Rightarrow> (if neg then min_int64 else max_int64, Some ErrRange)
         | Inr n \<Rightarrow>
             if \<not> neg \<and> max_int64 < int n then (max_int64, Some ErrRange)
             else if neg \<and> - min_int64 < int n then (min_int64, Some ErrRange)
             else (if neg then - int n else int n, None))"

definition ParseBool :: "string \<Rightarrow> bool option" where
  "ParseBool s =
     (if s \<in> {''1'', ''t'', ''T'', ''true'', ''TRUE'', ''True''} then Some True
      else if s \<in> {''0'', ''f'', ''F'', ''false'', ''FALSE'', ''False''} then Some False
      else None)"

section \<open>Laws\<close>

lemma digit_char_is_digit [simp]: "d < 10 \<Longrightarrow> is_digit (digit_char d)"
  by (simp add: is_digit_def digit_char_def)

lemma digit_val_digit_char [simp]: "d < 10 \<Longrightarrow> digit_val (digit_char d) = d"
  by (simp add: digit_val_def digit_char_def)

lemma dec_nonempty [simp]: "dec n \<noteq> []"
  by (subst dec.simps) simp

lemma dec_digits: "c \<in> set (dec n) \<Longrightarrow> is_digit c"
proof (induction n rule: dec.induct)
  case (1 n)
  then show ?case by (subst (asm) (2) dec.simps) (auto split: if_splits)
qed

text \<open>The value of a run of digits, read after the number \<open>n\<close>.\<close>

fun digits_val :: "nat \<Rightarrow> string \<Rightarrow> nat" where
  "digits_val n [] = n"
| "digits_val n (c # s) = digits_val (n * 10 + digit_val c) s"

lemma digits_val_append: "digits_val n (s @ t) = digits_val (digits_val n s) t"
  by (induction s arbitrary: n) auto

lemma digits_val_ge: "n \<le> digits_val n s"
proof (induction s arbitrary: n)
  case (Cons c s)
  have "n \<le> n * 10 + digit_val c" by simp
  also have "\<dots> \<le> digits_val (n * 10 + digit_val c) s" by (rule Cons.IH)
  finally show ?case by simp
qed simp

lemma digits_val_dec: "digits_val 0 (dec n) = n"
proof (induction n rule: dec.induct)
  case (1 n)
  then show ?case by (subst dec.simps) (auto simp: digits_val_append)
qed

text \<open>The loop succeeds exactly on digits whose value fits 64 bits, with that value.\<close>

lemma uint_loop_Inr:
  "n \<le> max_uint64 \<Longrightarrow>
   uint_loop n s = Inr m \<longleftrightarrow> (\<forall>c\<in>set s. is_digit c) \<and> digits_val n s \<le> max_uint64 \<and> m = digits_val n s"
proof (induction s arbitrary: n)
  case (Cons c s)
  let ?n = "n * 10 + digit_val c"
  have ge: "?n \<le> digits_val ?n s" by (rule digits_val_ge)
  show ?case
  proof (cases "?n \<le> max_uint64")
    case True
    then have "n < max_uint64 div 10 + 1" by (simp add: max_uint64_def)
    with True Cons.IH [OF True] show ?thesis by auto
  next
    case False
    with ge have "\<not> digits_val ?n s \<le> max_uint64" by linarith
    with False show ?thesis by auto
  qed
qed auto

lemma ParseUint_Inr [result_iff]:
  "ParseUint s = Inr m \<longleftrightarrow>
   s \<noteq> [] \<and> (\<forall>c\<in>set s. is_digit c) \<and> digits_val 0 s \<le> max_uint64 \<and> m = digits_val 0 s"
  by (auto simp: ParseUint_def uint_loop_Inr)

lemma ParseUint_dec: "n \<le> max_uint64 \<Longrightarrow> ParseUint (dec n) = Inr n"
  by (auto simp: ParseUint_Inr digits_val_dec dest: dec_digits)

lemma ParseUint_bound: "ParseUint s = Inr n \<Longrightarrow> n \<le> max_uint64"
  by (auto simp: ParseUint_Inr)

lemma dec_hd_digit: "is_digit (hd (dec n))"
  by (rule dec_digits [of _ n]) simp

lemma Atoi_dec_int: "\<lbrakk>min_int64 \<le> i; i \<le> max_int64\<rbrakk> \<Longrightarrow> Atoi (dec_int i) = (i, None)"
proof -
  assume i: "min_int64 \<le> i" "i \<le> max_int64"
  have hd: "hd (dec n) \<noteq> CHR ''-''" "hd (dec n) \<noteq> CHR ''+''" for n
    using dec_hd_digit [of n] by (auto simp: is_digit_def)
  have "nat \<bar>i\<bar> \<le> max_uint64"
    using i by (simp add: min_int64_def max_int64_def max_uint64_def)
  then have "ParseUint (dec (nat \<bar>i\<bar>)) = Inr (nat \<bar>i\<bar>)" by (rule ParseUint_dec)
  with i hd show ?thesis
    by (cases "i < 0") (auto simp: Atoi_def dec_int_def Let_def)
qed

lemma Atoi_range: "min_int64 \<le> fst (Atoi s) \<and> fst (Atoi s) \<le> max_int64"
  by (auto simp: Atoi_def Let_def min_int64_def max_int64_def split: sum.splits numerr.splits)

end
