(* ===== verification/Go_Http.thy ===== *)
theory Go_Http
  imports Go_Strconv
begin

text \<open>
  What the repository uses of \<^verbatim>\<open>net/http\<close>: headers with canonical names, requests, and the
  response writer as a state machine. A handler is a function from the request and the writer's
  state to an outcome: it returns, or it panics, leaving the writer as it is at that moment.
\<close>

section \<open>Headers\<close>

text \<open>\<^verbatim>\<open>textproto.CanonicalMIMEHeaderKey\<close>: if every byte may occur in a header name, letters after
  the start or a hyphen are capital and the others small; otherwise the name is unchanged.\<close>

definition upper_char :: "char \<Rightarrow> char" where
  "upper_char c = (let n = (of_char c :: nat) in if 97 \<le> n \<and> n \<le> 122 then char_of (n - 32) else c)"

definition token_char :: "char \<Rightarrow> bool" where
  "token_char c \<longleftrightarrow>
     (let n = (of_char c :: nat)
      in 48 \<le> n \<and> n \<le> 57 \<or> 65 \<le> n \<and> n \<le> 90 \<or> 97 \<le> n \<and> n \<le> 122
         \<or> n \<in> {33, 35, 36, 37, 38, 39, 42, 43, 45, 46, 94, 95, 96, 124, 126})"

fun canon_chars :: "bool \<Rightarrow> string \<Rightarrow> string" where
  "canon_chars up [] = []"
| "canon_chars up (c # s) =
     (if up then upper_char c else lower_char c) # canon_chars (c = CHR ''-'') s"

definition canonical :: "string \<Rightarrow> string" where
  "canonical k = (if list_all token_char k then canon_chars True k else k)"

type_synonym header = "string \<Rightarrow> string list"

definition Header_Get :: "header \<Rightarrow> string \<Rightarrow> string" where
  "Header_Get h k = (case h (canonical k) of [] \<Rightarrow> [] | v # _ \<Rightarrow> v)"

definition Header_Set :: "string \<Rightarrow> string \<Rightarrow> header \<Rightarrow> header" where
  "Header_Set k v h = h(canonical k := [v])"

definition Header_Add :: "string \<Rightarrow> string \<Rightarrow> header \<Rightarrow> header" where
  "Header_Add k v h = h(canonical k := h (canonical k) @ [v])"

lemma Header_Get_Set: "Header_Get (Header_Set k v h) j = (if canonical j = canonical k then v else Header_Get h j)"
  by (simp add: Header_Get_def Header_Set_def)

lemma Header_Get_Add_other: "canonical j \<noteq> canonical k \<Longrightarrow> Header_Get (Header_Add k v h) j = Header_Get h j"
  by (simp add: Header_Get_def Header_Add_def)

section \<open>Requests\<close>

text \<open>The values the repository's packages keep in a request's context, each under a key type of
  its own.\<close>

record ctxvals =
  cv_user :: "string option"
  cv_roles :: "string list option"
  cv_request_id :: "string option"

record request =
  r_method :: string
  r_path :: string
  r_query :: "string \<Rightarrow> string list"
  r_header :: header
  r_ctx :: ctxvals

definition Query_Get :: "request \<Rightarrow> string \<Rightarrow> string" where
  "Query_Get r k = (case r_query r k of [] \<Rightarrow> [] | v # _ \<Rightarrow> v)"

section \<open>The response writer\<close>

record rw =
  w_header :: header
  w_status :: "int option"
  w_sent :: header
  w_body :: string

definition new_rw :: rw where
  "new_rw = \<lparr>w_header = (\<lambda>_. []), w_status = None, w_sent = (\<lambda>_. []), w_body = []\<rparr>"

datatype outcome = Returned rw | Panicked string rw

type_synonym handler = "request \<Rightarrow> rw \<Rightarrow> outcome"

primrec final_rw :: "outcome \<Rightarrow> rw" where
  "final_rw (Returned w) = w"
| "final_rw (Panicked v w) = w"

primrec and_then :: "outcome \<Rightarrow> (rw \<Rightarrow> outcome) \<Rightarrow> outcome" where
  "and_then (Returned w) f = f w"
| "and_then (Panicked v w) f = Panicked v w"

text \<open>
  \<^verbatim>\<open>WriteHeader\<close>: a second final status is ignored; a status outside 100 to 999 panics; an
  informational status (1xx other than 101) is sent at once and does not end the header; any other
  status is final and sends the header as it is now.
\<close>

definition informational :: "int \<Rightarrow> bool" where
  "informational code \<longleftrightarrow> 100 \<le> code \<and> code \<le> 199 \<and> code \<noteq> 101"

definition WriteHeader :: "int \<Rightarrow> rw \<Rightarrow> outcome" where
  "WriteHeader code w =
     (if w_status w \<noteq> None then Returned w
      else if code < 100 \<or> 999 < code then Panicked ''invalid WriteHeader code'' w
      else if informational code then Returned w
      else Returned (w\<lparr>w_status := Some code, w_sent := w_header w\<rparr>))"

text \<open>\<^verbatim>\<open>Write\<close> sends status 200 first if none was sent; responses 1xx, 204 and 304 have no body.\<close>

definition body_allowed :: "int \<Rightarrow> bool" where
  "body_allowed code \<longleftrightarrow> \<not> (100 \<le> code \<and> code \<le> 199 \<or> code = 204 \<or> code = 304)"

definition Write :: "string \<Rightarrow> rw \<Rightarrow> rw" where
  "Write data w =
     (let w' = (if w_status w = None then w\<lparr>w_status := Some 200, w_sent := w_header w\<rparr> else w)
      in if body_allowed (the (w_status w')) then w'\<lparr>w_body := w_body w' @ data\<rparr> else w')"

definition set_header :: "string \<Rightarrow> string \<Rightarrow> rw \<Rightarrow> rw" where
  "set_header k v w = w\<lparr>w_header := Header_Set k v (w_header w)\<rparr>"

definition add_header :: "string \<Rightarrow> string \<Rightarrow> rw \<Rightarrow> rw" where
  "add_header k v w = w\<lparr>w_header := Header_Add k v (w_header w)\<rparr>"

text \<open>What the client receives: the server sends 200 if the handler sent no status.\<close>

definition client_status :: "rw \<Rightarrow> int" where
  "client_status w = (case w_status w of None \<Rightarrow> 200 | Some c \<Rightarrow> c)"

lemma set_header_simps [simp]:
  "w_status (set_header k v w) = w_status w" "w_body (set_header k v w) = w_body w"
  "w_sent (set_header k v w) = w_sent w" "w_header (set_header k v w) = Header_Set k v (w_header w)"
  by (simp_all add: set_header_def)

lemma add_header_simps [simp]:
  "w_status (add_header k v w) = w_status w" "w_body (add_header k v w) = w_body w"
  "w_sent (add_header k v w) = w_sent w" "w_header (add_header k v w) = Header_Add k v (w_header w)"
  by (simp_all add: add_header_def)

lemma WriteHeader_final:
  "\<lbrakk>w_status w = None; 200 \<le> code; code \<le> 999\<rbrakk> \<Longrightarrow>
   WriteHeader code w = Returned (w\<lparr>w_status := Some code, w_sent := w_header w\<rparr>)"
  by (simp add: WriteHeader_def informational_def)

lemma WriteHeader_again: "w_status w = Some c \<Longrightarrow> WriteHeader code w = Returned w"
  by (simp add: WriteHeader_def)

lemma Write_status: "w_status (Write d w) = Some (case w_status w of None \<Rightarrow> 200 | Some c \<Rightarrow> c)"
  by (auto simp: Write_def Let_def split: option.split)

end
