(* ===== verification/Emailx_Mime.thy ===== *)
theory Emailx_Mime
  imports Emailx_Lines Go_QuotedPrintable Go_Http Go_Hex "HOL-Library.Char_ord" "HOL-Library.List_Lexorder" "HOL-Library.AList"
begin

text \<open>
  \<^verbatim>\<open>emailx/smtp.go\<close>, the message format: headers, multipart bodies, text parts and attachments, written step
  by step to a connection that may fail. The main result is that a message reported as written is a
  pure function of the message, its attachments' contents and the random boundaries.

  Parameters: the encoders of header values (\<^verbatim>\<open>mime.QEncoding\<close>, \<^verbatim>\<open>mime.FormatMediaType\<close>), the date, the
  answers of the random source, and the order in which Go iterates over a header map.
\<close>

section \<open>Steps that may fail\<close>

text \<open>A step returns an error or nothing, and a new state; \<open>None\<close> means that it does not return (a reader
  that goes on for ever, or a panic).\<close>

type_synonym 's action = "'s \<Rightarrow> (email_error option \<times> 's) option"

definition andthen :: "'s action \<Rightarrow> 's action \<Rightarrow> 's action" where
  "andthen f g s =
     (case f s of None \<Rightarrow> None | Some (Some e, s) \<Rightarrow> Some (Some e, s) | Some (None, s) \<Rightarrow> g s)"

text \<open>\<^verbatim>\<open>fmt.Errorf("...: %w", err)\<close> around what a step returns.\<close>

definition wrapping :: "string \<Rightarrow> 's action \<Rightarrow> 's action" where
  "wrapping msg f s = map_option (\<lambda>(e, s). (map_option (Wrap msg) e, s)) (f s)"

definition put :: "string \<Rightarrow> sink action" where
  "put t s = (case sink_Write t s of (_, e, s) \<Rightarrow> Some (e, s))"

fun put_all :: "string list \<Rightarrow> sink \<Rightarrow> email_error option \<times> sink" where
  "put_all [] s = (None, s)"
| "put_all (t # ts) s = (case sink_Write t s of (_, Some e, s) \<Rightarrow> (Some e, s) | (_, None, s) \<Rightarrow> put_all ts s)"

fun each :: "('a \<Rightarrow> 's action) \<Rightarrow> 'a list \<Rightarrow> 's action" where
  "each f [] s = Some (None, s)"
| "each f (x # xs) s = andthen (f x) (each f xs) s"

section \<open>Parameters\<close>

record mime_env =
  env_mail :: mail
  QEncode :: "string \<Rightarrow> string"
  FormatMediaType :: "string \<Rightarrow> (string \<times> string) list \<Rightarrow> string"
  date_now :: string
  rand_Read :: "nat \<Rightarrow> bytes \<times> email_error option"
  map_order :: "(string \<times> string) list \<Rightarrow> (string \<times> string) list"

text \<open>What \<^verbatim>\<open>ctx.Err()\<close> answers, by copy and round.\<close>

type_synonym ctxs = "nat \<Rightarrow> ctx"

section \<open>Identifiers and addresses\<close>

definition LastIndexByte :: "string \<Rightarrow> char \<Rightarrow> nat option" where
  "LastIndexByte s c = map_option (\<lambda>i. length s - 1 - i) (IndexByte (rev s) c)"

definition newMessageID :: "mime_env \<Rightarrow> string \<Rightarrow> email_error + string" where
  "newMessageID env from =
     (case rand_Read env 0 of
        (_, Some e) \<Rightarrow> Inl (Wrap ''emailx: generate message ID'' e)
      | (data, None) \<Rightarrow>
          (let domain = (case ParseAddress (env_mail env) from of
                           Inl _ \<Rightarrow> ''localhost''
                         | Inr address \<Rightarrow>
                             (case LastIndexByte address CHR ''@'' of
                                None \<Rightarrow> ''localhost'' | Some index \<Rightarrow> drop (index + 1) address))
           in Inr (''<'' @ hex data @ ''@'' @ domain @ ''>'')))"

text \<open>An error of the random source is ignored here; the array is then what it left there.\<close>

definition randomBoundary :: "mime_env \<Rightarrow> nat \<Rightarrow> string" where
  "randomBoundary env k = hex (fst (rand_Read env k))"

definition joinAddresses :: "mime_env \<Rightarrow> Address list \<Rightarrow> string" where
  "joinAddresses env addresses = Join (map (Address_String (env_mail env)) addresses) '', ''"

definition recipients :: "Message \<Rightarrow> Address list" where
  "recipients m = (([] @ To m) @ CC m) @ BCC m"

section \<open>Headers\<close>

text \<open>\<^verbatim>\<open>textproto.MIMEHeader\<close> under \<^verbatim>\<open>Set\<close>: one value for each canonical name.\<close>

type_synonym mime_header = "(string \<times> string) list"

definition hset :: "string \<Rightarrow> string \<Rightarrow> mime_header \<Rightarrow> mime_header" where
  "hset name v h = AList.update (canonical name) v h"

definition header_line :: "string \<times> string \<Rightarrow> string" where
  "header_line h = fst h @ '': '' @ snd h @ crlf"

definition writeHeaders :: "mime_env \<Rightarrow> mime_header \<Rightarrow> sink action" where
  "writeHeaders env headers =
     andthen (each (\<lambda>h. wrapping ''emailx: write MIME header'' (put (header_line h))) (map_order env headers)) (put crlf)"

section \<open>Multipart bodies\<close>

text \<open>\<^verbatim>\<open>multipart.Writer\<close>: its boundary and whether it has a part already. The error that a part
  remembers is the connection's, which fails all later writes anyway.\<close>

record mpart =
  mp_boundary :: string
  mp_started :: bool

definition on_sink :: "sink action \<Rightarrow> (mpart \<times> sink) action" where
  "on_sink f ms = map_option (\<lambda>(e, s). (e, (fst ms, s))) (f (snd ms))"

definition boundary_char :: "char \<Rightarrow> bool" where
  "boundary_char c \<longleftrightarrow>
     (let n = (of_char c :: nat) in 48 \<le> n \<and> n \<le> 57 \<or> 65 \<le> n \<and> n \<le> 90 \<or> 97 \<le> n \<and> n \<le> 122)
     \<or> c \<in> set ''()+_,-./:=?'' \<or> c = CHR 0x27"

definition SetBoundary :: "string \<Rightarrow> (mpart \<times> sink) action" where
  "SetBoundary b ms =
     (if mp_started (fst ms) then Some (Some (New ''mime: SetBoundary called after write''), ms)
      else if length b < 1 \<or> 70 < length b then Some (Some (New ''mime: invalid boundary length''), ms)
      else if list_all (\<lambda>c. boundary_char c \<or> c = CHR '' '') b \<and> last b \<noteq> CHR '' '' then Some (None, ((fst ms)\<lparr>mp_boundary := b\<rparr>, snd ms))
      else Some (Some (New ''mime: invalid boundary character''), ms))"

definition part_head :: "string \<Rightarrow> bool \<Rightarrow> mime_header \<Rightarrow> string" where
  "part_head b started header =
     (if started then crlf else []) @ ''--'' @ b @ crlf @ concat (map header_line (sort_key fst header)) @ crlf"

definition CreatePart :: "mime_header \<Rightarrow> (mpart \<times> sink) action" where
  "CreatePart header ms =
     (case sink_Write (part_head (mp_boundary (fst ms)) (mp_started (fst ms)) header) (snd ms) of
        (_, Some e, s) \<Rightarrow> Some (Some e, (fst ms, s))
      | (_, None, s) \<Rightarrow> Some (None, ((fst ms)\<lparr>mp_started := True\<rparr>, s)))"

definition closing :: "string \<Rightarrow> string" where
  "closing b = crlf @ ''--'' @ b @ ''--'' @ crlf"

definition Close :: "(mpart \<times> sink) action" where
  "Close ms = on_sink (put (closing (mp_boundary (fst ms)))) ms"

text \<open>\<^verbatim>\<open>multipart.NewWriter\<close> over the connection, used by \<open>f\<close>.\<close>

definition with_multipart :: "(mpart \<times> sink) action \<Rightarrow> sink action" where
  "with_multipart f s = map_option (\<lambda>(e, ms). (e, snd ms)) (f (\<lparr>mp_boundary = [], mp_started = False\<rparr>, s))"

section \<open>Parts\<close>

definition copyWithContext :: "ctx \<Rightarrow> (email_cause, 'w) writer \<Rightarrow> email_cause reader \<Rightarrow> 'w \<Rightarrow> (nat \<times> email_error option \<times> 'w) option" where
  "copyWithContext ctx dst src w = copy_all ctx dst src w"

text \<open>\<^verbatim>\<open>strings.NewReader\<close>, read with the loop's buffer.\<close>

definition string_reader :: "string \<Rightarrow> email_cause reader" where
  "string_reader body i =
     (if i * 32768 < length body then (take 32768 (drop (i * 32768) (bytes_of body)), None) else ([], Some EOF))"

text \<open>The quoted-printable writer over the connection; how much a failed write took is not looked at.\<close>

definition qpw_Write :: "(email_cause, qp \<times> sink) writer" where
  "qpw_Write d w =
     (let (ps, q) = qp_run (string_of d) (fst w); (e, s) = put_all ps (snd w)
      in (if e = None then length d else 0, e, (q, s)))"

definition begin_copy :: "sink \<Rightarrow> sink" where
  "begin_copy s = s\<lparr>copy_count := copy_count s + 1\<rparr>"

text \<open>The results of the copy and of closing the encoder.\<close>

definition copy_result :: "string \<Rightarrow> string \<Rightarrow> email_error option \<Rightarrow> email_error option \<Rightarrow> email_error option" where
  "copy_result copy_msg close_msg copyErr closeErr =
     (case copyErr of
        Some e \<Rightarrow> Some (Wrap copy_msg e)
      | None \<Rightarrow> (case closeErr of Some e \<Rightarrow> Some (Wrap close_msg e) | None \<Rightarrow> None))"

definition writeQuotedPrintable :: "ctxs \<Rightarrow> string \<Rightarrow> sink action" where
  "writeQuotedPrintable ctxs body s =
     (case copyWithContext (ctxs (copy_count s)) qpw_Write (string_reader body) (qp_new, begin_copy s) of
        None \<Rightarrow> None
      | Some (_, copyErr, (q, s)) \<Rightarrow>
          (let (closeErr, s) = put_all (qp_close q) s
           in Some (copy_result ''emailx: write MIME body'' ''emailx: encode MIME body'' copyErr closeErr, s)))"

definition text_header :: "string \<Rightarrow> mime_header" where
  "text_header contentType =
     hset ''Content-Transfer-Encoding'' ''quoted-printable''
       (hset ''Content-Type'' (contentType @ ''; charset=\"utf-8\"'') [])"

definition writeTextPart :: "ctxs \<Rightarrow> string \<Rightarrow> string \<Rightarrow> (mpart \<times> sink) action" where
  "writeTextPart ctxs contentType body =
     andthen (wrapping ''emailx: create MIME text part'' (CreatePart (text_header contentType)))
       (on_sink (writeQuotedPrintable ctxs body))"

definition writeAlternative :: "ctxs \<Rightarrow> Message \<Rightarrow> (mpart \<times> sink) action" where
  "writeAlternative ctxs m =
     andthen (writeTextPart ctxs ''text/plain'' (Text m)) (writeTextPart ctxs ''text/html'' (HTML m))"

definition alternative_type :: "string \<Rightarrow> string" where
  "alternative_type b = ''multipart/alternative; boundary=\"'' @ b @ ''\"''"

definition writeBodyParts :: "ctxs \<Rightarrow> string \<Rightarrow> Message \<Rightarrow> (mpart \<times> sink) action" where
  "writeBodyParts ctxs alternativeBoundary m =
     (if Text m \<noteq> [] \<and> HTML m \<noteq> [] then
        andthen (CreatePart (hset ''Content-Type'' (alternative_type alternativeBoundary) []))
          (on_sink (with_multipart
             (andthen (SetBoundary alternativeBoundary) (andthen (writeAlternative ctxs m) Close))))
      else
        (let (contentType, body) = (if HTML m \<noteq> [] then (''text/html'', HTML m) else (''text/plain'', Text m))
         in writeTextPart ctxs contentType body))"

definition attachment_header :: "mime_env \<Rightarrow> Attachment \<Rightarrow> mime_header" where
  "attachment_header env a =
     (let contentType = (if ContentType a = [] then ''application/octet-stream'' else ContentType a)
      in hset ''Content-Transfer-Encoding'' ''base64''
          (hset ''Content-Disposition'' (FormatMediaType env ''attachment'' [(''filename'', Filename a)])
            (hset ''Content-Type'' contentType [])))"

text \<open>The body of an attachment that has been opened, from the part's header on.\<close>

definition encode_body :: "ctxs \<Rightarrow> string \<Rightarrow> email_cause reader \<Rightarrow> sink action" where
  "encode_body ctxs filename body s =
     (case copyWithContext (ctxs (copy_count s)) encoder_Write body
             (NewEncoder \<lparr>writer = begin_copy s, column = 0\<rparr>) of
        None \<Rightarrow> None
      | Some (_, copyErr, enc) \<Rightarrow>
          (let (closeErr, enc) = encoder_Close enc
           in Some (copy_result (''emailx: write attachment '' @ filename) (''emailx: encode attachment '' @ filename) copyErr closeErr,
                    writer (enc_line enc))))"

definition closing_body :: "(mpart \<times> sink) action \<Rightarrow> (mpart \<times> sink) action" where
  "closing_body f ms =
     map_option (\<lambda>(e, m, s). (e, (m, s\<lparr>bodies := bodies s - 1\<rparr>))) (f (fst ms, (snd ms)\<lparr>bodies := bodies (snd ms) + 1\<rparr>))"

definition writeAttachment :: "mime_env \<Rightarrow> ctxs \<Rightarrow> Attachment \<Rightarrow> (mpart \<times> sink) action" where
  "writeAttachment env ctxs a ms =
     (case Open a of
        None \<Rightarrow> None
      | Some (Inl e) \<Rightarrow> Some (Some (Wrap (''emailx: open attachment '' @ Filename a) e), ms)
      | Some (Inr body) \<Rightarrow>
          closing_body
            (andthen (wrapping (''emailx: create attachment '' @ Filename a) (CreatePart (attachment_header env a)))
              (on_sink (encode_body ctxs (Filename a) body))) ms)"

section \<open>The message\<close>

fun set_all :: "(string \<times> string) list \<Rightarrow> mime_header \<Rightarrow> mime_header" where
  "set_all [] h = h"
| "set_all ((name, v) # hs) h = set_all hs (hset name v h)"

definition own_headers :: "mime_env \<Rightarrow> Message \<Rightarrow> string \<Rightarrow> mime_header" where
  "own_headers env m messageID =
     (let h = hset ''From'' (Address_String (env_mail env) (From m)) [];
          h = hset ''To'' (joinAddresses env (To m)) h;
          h = (if 0 < length (CC m) then hset ''Cc'' (joinAddresses env (CC m)) h else h);
          h = (if 0 < length (ReplyTo m) then hset ''Reply-To'' (joinAddresses env (ReplyTo m)) h else h);
          h = hset ''Subject'' (QEncode env (Subject m)) h;
          h = hset ''Date'' (date_now env) h;
          h = hset ''Message-ID'' messageID h
      in hset ''MIME-Version'' ''1.0'' h)"

definition content_headers :: "Message \<Rightarrow> string \<Rightarrow> string \<Rightarrow> mime_header \<Rightarrow> mime_header" where
  "content_headers m mixedBoundary alternativeBoundary h =
     (if 0 < length (Attachments m) then
        hset ''Content-Type'' (''multipart/mixed; boundary=\"'' @ mixedBoundary @ ''\"'') h
      else if Text m \<noteq> [] \<and> HTML m \<noteq> [] then hset ''Content-Type'' (alternative_type alternativeBoundary) h
      else
        (let contentType = (if HTML m \<noteq> [] then ''text/html'' else ''text/plain'')
         in hset ''Content-Transfer-Encoding'' ''quoted-printable''
             (hset ''Content-Type'' (contentType @ ''; charset=\"utf-8\"'') h)))"

definition message_headers :: "mime_env \<Rightarrow> Message \<Rightarrow> string \<Rightarrow> mime_header" where
  "message_headers env m messageID =
     content_headers m (randomBoundary env 1) (randomBoundary env 2) (set_all (Headers m) (own_headers env m messageID))"

definition write_body :: "mime_env \<Rightarrow> ctxs \<Rightarrow> Message \<Rightarrow> sink action" where
  "write_body env ctxs m =
     (let mixedBoundary = randomBoundary env 1; alternativeBoundary = randomBoundary env 2 in
      if 0 < length (Attachments m) then
        with_multipart
          (andthen (SetBoundary mixedBoundary)
            (andthen (writeBodyParts ctxs alternativeBoundary m)
              (andthen (each (writeAttachment env ctxs) (Attachments m))
                (wrapping ''emailx: close MIME body'' Close))))
      else if Text m \<noteq> [] \<and> HTML m \<noteq> [] then
        with_multipart
          (andthen (SetBoundary alternativeBoundary)
            (andthen (writeAlternative ctxs m) (wrapping ''emailx: close alternative body'' Close)))
      else
        (let body = (if HTML m \<noteq> [] then HTML m else Text m) in writeQuotedPrintable ctxs body))"

definition writeMIME :: "mime_env \<Rightarrow> ctxs \<Rightarrow> Message \<Rightarrow> sink \<Rightarrow> ((email_error + string) \<times> sink) option" where
  "writeMIME env ctxs m s =
     (case newMessageID env (Email (From m)) of
        Inl e \<Rightarrow> Some (Inl e, s)
      | Inr messageID \<Rightarrow>
          map_option (\<lambda>(e, s). (case e of Some e \<Rightarrow> Inl e | None \<Rightarrow> Inr messageID, s))
            (andthen (writeHeaders env (message_headers env m messageID))
              (andthen (write_body env ctxs m)
                (wrapping ''emailx: flush MIME message'' (\<lambda>s. Some (sink_Flush s)))) s))"

section \<open>The text of a message\<close>

text \<open>The reference: a message as a function of its parts, with no connection and no failures. A part is
  its header and its body.\<close>

fun parts_text :: "string \<Rightarrow> bool \<Rightarrow> (mime_header \<times> string) list \<Rightarrow> string" where
  "parts_text b started [] = []"
| "parts_text b started ((h, body) # ps) = part_head b started h @ body @ parts_text b True ps"

definition multipart_text :: "string \<Rightarrow> (mime_header \<times> string) list \<Rightarrow> string" where
  "multipart_text b ps = parts_text b False ps @ closing b"

definition text_part :: "string \<Rightarrow> string \<Rightarrow> mime_header \<times> string" where
  "text_part contentType body = (text_header contentType, qp_text body)"

definition alternative_parts :: "Message \<Rightarrow> (mime_header \<times> string) list" where
  "alternative_parts m = [text_part ''text/plain'' (Text m), text_part ''text/html'' (HTML m)]"

definition body_part :: "string \<Rightarrow> Message \<Rightarrow> mime_header \<times> string" where
  "body_part b m =
     (if Text m \<noteq> [] \<and> HTML m \<noteq> []
      then (hset ''Content-Type'' (alternative_type b) [], multipart_text b (alternative_parts m))
      else if HTML m \<noteq> [] then text_part ''text/html'' (HTML m) else text_part ''text/plain'' (Text m))"

definition attachment_part :: "mime_env \<Rightarrow> Attachment \<Rightarrow> bytes \<Rightarrow> mime_header \<times> string" where
  "attachment_part env a d = (attachment_header env a, wrap 0 (std_encode d))"

definition body_text :: "mime_env \<Rightarrow> Message \<Rightarrow> bytes list \<Rightarrow> string" where
  "body_text env m ds =
     (if Attachments m \<noteq> [] then
        multipart_text (randomBoundary env 1)
          (body_part (randomBoundary env 2) m # map2 (attachment_part env) (Attachments m) ds)
      else if Text m \<noteq> [] \<and> HTML m \<noteq> [] then multipart_text (randomBoundary env 2) (alternative_parts m)
      else qp_text (if HTML m \<noteq> [] then HTML m else Text m))"

definition mime_text :: "mime_env \<Rightarrow> Message \<Rightarrow> string \<Rightarrow> bytes list \<Rightarrow> string" where
  "mime_text env m messageID ds =
     concat (map header_line (map_order env (message_headers env m messageID))) @ crlf @ body_text env m ds"

section \<open>What a successful step writes\<close>

definition writes :: "('s \<Rightarrow> sink) \<Rightarrow> ('s \<Rightarrow> bool) \<Rightarrow> 's action \<Rightarrow> string \<Rightarrow> ('s \<Rightarrow> bool) \<Rightarrow> bool" where
  "writes sk P f t Q \<longleftrightarrow> (\<forall>s s'. P s \<and> f s = Some (None, s') \<longrightarrow> out (sk s') = out (sk s) @ t \<and> Q s')"

lemma writesI:
  "(\<And>s s'. \<lbrakk>P s; f s = Some (None, s')\<rbrakk> \<Longrightarrow> out (sk s') = out (sk s) @ t \<and> Q s') \<Longrightarrow> writes sk P f t Q"
  unfolding writes_def by blast

lemma writesD: "\<lbrakk>writes sk P f t Q; P s; f s = Some (None, s')\<rbrakk> \<Longrightarrow> out (sk s') = out (sk s) @ t \<and> Q s'"
  by (simp add: writes_def)

abbreviation wr_sink :: "sink action \<Rightarrow> string \<Rightarrow> bool" where
  "wr_sink f t \<equiv> writes (\<lambda>s. s) (\<lambda>_. True) f t (\<lambda>_. True)"

text \<open>A multipart writer with boundary \<open>b\<close> that has parts or none.\<close>

definition at :: "string \<Rightarrow> bool \<Rightarrow> mpart \<times> sink \<Rightarrow> bool" where
  "at b started ms \<longleftrightarrow> fst ms = \<lparr>mp_boundary = b, mp_started = started\<rparr>"

lemma andthen_None: "andthen f g s = Some (None, s') \<longleftrightarrow> (\<exists>s1. f s = Some (None, s1) \<and> g s1 = Some (None, s'))"
  by (auto simp: andthen_def split: option.splits)

lemma wrapping_None [simp]: "wrapping msg f s = Some (None, s') \<longleftrightarrow> f s = Some (None, s')"
  by (auto simp: wrapping_def)

lemma writes_andthen: "\<lbrakk>writes sk P f t Q; writes sk Q g u R\<rbrakk> \<Longrightarrow> writes sk P (andthen f g) (t @ u) R"
  by (fastforce simp: writes_def andthen_None)

lemma writes_wrapping: "writes sk P f t Q \<Longrightarrow> writes sk P (wrapping msg f) t Q"
  by (simp add: writes_def)

lemma writes_put: "wr_sink (put t) t"
proof -
  have "out s' = out s @ t" if "put t s = Some (None, s')" for s s'
  proof -
    obtain n e u where w: "sink_Write t s = (n, e, u)" by (metis prod_cases3)
    with that sink_Write_contract [OF w] show ?thesis by (simp add: put_def)
  qed
  then show ?thesis by (simp add: writes_def)
qed

lemma writes_each:
  "list_all2 (\<lambda>x t. writes sk P (f x) t P) xs ts \<Longrightarrow> writes sk P (each f xs) (concat ts) P"
proof (induction rule: list_all2_induct)
  case (Cons x xs t ts)
  from writes_andthen [OF Cons(1) Cons(3)] show ?case by (simp add: writes_def)
qed (simp add: writes_def)

lemma writes_on_sink: "wr_sink f t \<Longrightarrow> writes snd (at b st) (on_sink f) t (at b st)"
  by (auto simp: writes_def on_sink_def at_def)

lemma writes_CreatePart: "writes snd (at b st) (CreatePart h) (part_head b st h) (at b True)"
proof (rule writesI, goal_cases)
  case (1 ms ms')
  obtain n e u where w: "sink_Write (part_head b st h) (snd ms) = (n, e, u)" by (metis prod_cases3)
  with 1 sink_Write_contract [OF w] show ?case by (auto simp: CreatePart_def at_def split: option.splits)
qed

lemma writes_Close: "writes snd (at b st) Close (closing b) (at b st)"
proof (rule writesI, goal_cases)
  case (1 ms ms')
  then have "on_sink (put (closing b)) ms = Some (None, ms')" by (simp add: Close_def at_def)
  from writesD [OF writes_on_sink [OF writes_put] 1(1) this] show ?case .
qed

lemma writes_SetBoundary: "writes snd (at [] False) (SetBoundary b) [] (at b False)"
  by (auto simp: writes_def SetBoundary_def at_def split: if_splits)

lemma writes_with_multipart: "writes snd (at [] False) f t Q \<Longrightarrow> wr_sink (with_multipart f) t"
  by (fastforce simp: writes_def with_multipart_def at_def)

lemma put_all_out: "put_all ps s = (None, s') \<Longrightarrow> out s' = out s @ concat ps"
proof (induction ps arbitrary: s)
  case (Cons t ps)
  obtain n e u where w: "sink_Write t s = (n, e, u)" by (metis prod_cases3)
  with Cons sink_Write_contract [OF w] show ?case by (auto split: option.splits)
qed simp

subsection \<open>Text bodies\<close>

lemma string_reader_delivered: "delivered (string_reader body) n = take (n * 32768) (bytes_of body)"
proof (induction n)
  case (Suc n)
  have "fst (string_reader body n) = take 32768 (drop (n * 32768) (bytes_of body))" by (simp add: string_reader_def)
  with Suc show ?case by (simp add: delivered_Suc take_add [symmetric] add.commute)
qed simp

lemma string_reader_content: "content (string_reader body) (bytes_of body)"
proof -
  let ?k = "LEAST k. length body \<le> k * 32768"
  have k: "length body \<le> ?k * 32768" by (rule LeastI [of _ "length body"]) simp
  have "\<forall>j<?k. snd (string_reader body j) = None"
    using not_less_Least [of _ "\<lambda>k. length body \<le> k * 32768"] by (auto simp: string_reader_def not_le)
  moreover have "snd (string_reader body ?k) = Some EOF" using k by (simp add: string_reader_def not_less)
  moreover have "delivered (string_reader body) (Suc ?k) = bytes_of body"
    using k by (simp add: string_reader_delivered)
  ultimately show ?thesis unfolding content_def by (metis errors_Is_EOF)
qed

lemma string_of_append [simp]: "string_of (a @ b) = string_of a @ string_of b"
  by (simp add: string_of_def)

lemma qpw_tracks:
  "tracks qpw_Write (\<lambda>d w. \<exists>ps. qp_run (string_of d) qp_new = (ps, fst w) \<and> out (snd w) = out s @ concat ps)"
  unfolding tracks_def
proof (intro allI impI, elim conjE exE, goal_cases)
  case (1 x d w w' ps)
  obtain rs q where r: "qp_run (string_of d) (fst w) = (rs, q)" by fastforce
  from 1(1,2) r have p: "put_all rs (snd w) = (None, snd w')" "fst w' = q"
    by (auto simp: qpw_Write_def Let_def split: prod.splits if_splits)
  show ?case using put_all_out [OF p(1)] p(2) r 1(3,4) by (simp add: qp_run_append Let_def)
qed

lemma writes_quoted: "wr_sink (writeQuotedPrintable ctxs body) (qp_text body)"
proof -
  have "out s' = out s @ qp_text body" if w: "writeQuotedPrintable ctxs body s = Some (None, s')" for s s'
  proof -
    let ?R = "\<lambda>d w. \<exists>ps. qp_run (string_of d) qp_new = (ps, fst w) \<and> out (snd w) = out s @ concat ps"
    from w obtain n q s1 where c: "copy_all (ctxs (copy_count s)) qpw_Write (string_reader body) (qp_new, begin_copy s) = Some (n, None, (q, s1))"
      and p: "put_all (qp_close q) s1 = (None, s')"
      by (auto simp: writeQuotedPrintable_def copyWithContext_def copy_result_def split: option.splits prod.splits)
    have "?R [] (qp_new, begin_copy s)" by (simp add: string_of_def begin_copy_def)
    from copy_all_tracks [OF c qpw_tracks this] obtain d where "content (string_reader body) d" "?R d (q, s1)" by blast
    with content_unique [OF string_reader_content] obtain ps where
      "qp_run body qp_new = (ps, q)" "out s1 = out s @ concat ps" by fastforce
    with put_all_out [OF p] show ?thesis by (simp add: qp_text_def qp_lines_def)
  qed
  then show ?thesis by (simp add: writes_def)
qed

lemma writes_TextPart:
  "writes snd (at b st) (writeTextPart ctxs ct body) (part_head b st (text_header ct) @ qp_text body) (at b True)"
  unfolding writeTextPart_def
  by (rule writes_andthen [OF writes_wrapping [OF writes_CreatePart] writes_on_sink [OF writes_quoted]])

lemma writes_Alternative:
  "writes snd (at b False) (writeAlternative ctxs m) (parts_text b False (alternative_parts m)) (at b True)"
  using writes_andthen [OF writes_TextPart writes_TextPart, of b False ctxs "''text/plain''" "Text m" ctxs "''text/html''" "HTML m"]
  by (simp add: writeAlternative_def alternative_parts_def text_part_def)

lemma writes_multipart:
  assumes "writes snd (at b False) f t (at b True)" "writes snd (at b True) g (closing b) (at b True)"
  shows "wr_sink (with_multipart (andthen (SetBoundary b) (andthen f g))) (t @ closing b)"
  using writes_with_multipart [OF writes_andthen [OF writes_SetBoundary writes_andthen [OF assms]]] by simp

lemma writes_BodyParts:
  "writes snd (at b st) (writeBodyParts ctxs ab m) (parts_text b st [body_part ab m]) (at b True)"
proof (cases "Text m \<noteq> [] \<and> HTML m \<noteq> []")
  case True
  have "wr_sink (with_multipart (andthen (SetBoundary ab) (andthen (writeAlternative ctxs m) Close)))
      (multipart_text ab (alternative_parts m))"
    unfolding multipart_text_def by (intro writes_multipart writes_Alternative writes_Close)
  from writes_andthen [OF writes_CreatePart writes_on_sink [OF this]] True show ?thesis
    by (simp add: writeBodyParts_def body_part_def)
next
  case False
  then show ?thesis using writes_TextPart [of b st ctxs] by (auto simp: writeBodyParts_def body_part_def text_part_def)
qed

subsection \<open>Attachments\<close>

text \<open>The content of an attachment: it opens, and its reader comes to an end.\<close>

definition attachment_data :: "Attachment \<Rightarrow> bytes \<Rightarrow> bool" where
  "attachment_data a d \<longleftrightarrow> (\<exists>src. Open a = Some (Inr src) \<and> content src d)"

lemma encode_body_out:
  assumes "encode_body ctxs fn src s = Some (None, s')"
  shows "\<exists>d. content src d \<and> out s' = out s @ wrap 0 (std_encode d)"
proof -
  let ?w = "\<lparr>writer = begin_copy s, column = 0\<rparr>"
  from assms obtain n e e' where c: "copy_all (ctxs (copy_count s)) encoder_Write src (NewEncoder ?w) = Some (n, None, e)"
    and cl: "encoder_Close e = (None, e')" "s' = writer (enc_line e')"
    by (auto simp: encode_body_def copyWithContext_def copy_result_def split: option.splits prod.splits)
  from copy_all_tracks [OF c encoder_tracks, of ?w] obtain d where d: "content src d" "encoded ?w d e"
    using encoded_new [of ?w] by auto
  from encoder_Close_encoded [OF d(2) cl(1)] cl(2) d(1) show ?thesis by (auto simp: wraps_def begin_copy_def)
qed

lemma writeAttachment_data: "writeAttachment env ctxs a ms = Some (None, ms') \<Longrightarrow> \<exists>d. attachment_data a d"
  using encode_body_out
  by (fastforce simp: writeAttachment_def closing_body_def andthen_None on_sink_def attachment_data_def split: option.splits sum.splits)

lemma writes_Attachment:
  assumes "attachment_data a d"
  shows "writes snd (at b st) (writeAttachment env ctxs a) (parts_text b st [attachment_part env a d]) (at b True)"
proof -
  from assms obtain src where o: "Open a = Some (Inr src)" "content src d" by (auto simp: attachment_data_def)
  have "wr_sink (encode_body ctxs (Filename a) src) (wrap 0 (std_encode d))"
    using encode_body_out content_unique [OF o(2)] by (fastforce intro!: writesI)
  from writes_andthen [OF writes_wrapping [OF writes_CreatePart] writes_on_sink [OF this]]
  have "writes snd (at b st) (andthen (wrapping msg (CreatePart (attachment_header env a))) (on_sink (encode_body ctxs (Filename a) src)))
     (part_head b st (attachment_header env a) @ wrap 0 (std_encode d)) (at b True)" for msg .
  with o(1) show ?thesis
    by (fastforce simp: writes_def writeAttachment_def closing_body_def attachment_part_def at_def)
qed

lemma each_data: "each (writeAttachment env ctxs) as ms = Some (None, ms') \<Longrightarrow> \<exists>ds. list_all2 attachment_data as ds"
proof (induction as arbitrary: ms)
  case (Cons a as)
  then obtain ms1 where "writeAttachment env ctxs a ms = Some (None, ms1)" "each (writeAttachment env ctxs) as ms1 = Some (None, ms')"
    by (auto simp: andthen_None)
  with Cons.IH writeAttachment_data show ?case by (meson list.rel_intros(2))
qed (auto intro: exI [of _ "[]"])

lemma parts_text_append: "parts_text b st (ps @ qs) = parts_text b st ps @ parts_text b (st \<or> ps \<noteq> []) qs"
  by (induction ps arbitrary: st) auto

lemma writes_Attachments:
  "list_all2 attachment_data as ds \<Longrightarrow>
   writes snd (at b True) (each (writeAttachment env ctxs) as) (parts_text b True (map2 (attachment_part env) as ds)) (at b True)"
proof (induction rule: list_all2_induct)
  case (Cons a as d ds)
  from writes_andthen [OF writes_Attachment [OF Cons(1)] Cons(3)] show ?case
    by (simp add: writes_def flip: parts_text_append [of b True "[attachment_part env a d]", simplified])
qed (simp add: writes_def)

subsection \<open>Whole messages\<close>

lemma writes_body:
  assumes "list_all2 attachment_data (Attachments m) ds"
  shows "wr_sink (write_body env ctxs m) (body_text env m ds)"
proof -
  let ?mb = "randomBoundary env 1" and ?ab = "randomBoundary env 2"
  consider (mixed) "Attachments m \<noteq> []" | (alt) "Attachments m = []" "Text m \<noteq> [] \<and> HTML m \<noteq> []"
    | (single) "Attachments m = []" "\<not> (Text m \<noteq> [] \<and> HTML m \<noteq> [])" by blast
  then show ?thesis
  proof cases
    case mixed
    have eq: "write_body env ctxs m = with_multipart (andthen (SetBoundary ?mb) (andthen (writeBodyParts ctxs ?ab m)
        (andthen (each (writeAttachment env ctxs) (Attachments m)) (wrapping ''emailx: close MIME body'' Close))))"
      using mixed unfolding write_body_def Let_def by (simp only: length_greater_0_conv if_True simp_thms)
    have "wr_sink (write_body env ctxs m)
        ([] @ parts_text ?mb False [body_part ?ab m] @ parts_text ?mb True (map2 (attachment_part env) (Attachments m) ds) @ closing ?mb)"
      unfolding eq
      by (rule writes_with_multipart [OF writes_andthen [OF writes_SetBoundary writes_andthen [OF writes_BodyParts
            writes_andthen [OF writes_Attachments [OF assms] writes_wrapping [OF writes_Close]]]]])
    moreover have "body_text env m ds = parts_text ?mb False [body_part ?ab m]
        @ parts_text ?mb True (map2 (attachment_part env) (Attachments m) ds) @ closing ?mb"
      using mixed by (cases "body_part ?ab m") (simp add: body_text_def multipart_text_def)
    ultimately show ?thesis by (simp only: append_Nil)
  next
    case alt
    have "wr_sink (with_multipart (andthen (SetBoundary ?ab) (andthen (writeAlternative ctxs m) (wrapping msg Close))))
        (multipart_text ?ab (alternative_parts m))" for msg
      unfolding multipart_text_def by (intro writes_multipart writes_Alternative writes_wrapping writes_Close)
    with alt show ?thesis by (simp add: write_body_def body_text_def)
  next
    case single
    with writes_quoted [of ctxs "if HTML m \<noteq> [] then HTML m else Text m"] show ?thesis
      by (auto simp: write_body_def body_text_def)
  qed
qed

lemma write_body_data:
  assumes "write_body env ctxs m s = Some (None, s')"
  shows "\<exists>ds. list_all2 attachment_data (Attachments m) ds"
proof (cases "Attachments m = []")
  case False
  with assms show ?thesis
    by (auto simp: write_body_def with_multipart_def Let_def andthen_None dest!: each_data)
qed (auto intro: exI [of _ "[]"])

lemma writes_Headers:
  "wr_sink (writeHeaders env h) (concat (map header_line (map_order env h)) @ crlf)"
proof -
  have "list_all2 (\<lambda>x t. wr_sink (wrapping msg (put (header_line x))) t) hs (map header_line hs)" for hs msg
    by (induction hs) (simp_all add: writes_wrapping writes_put)
  then show ?thesis unfolding writeHeaders_def by (intro writes_andthen [OF writes_each writes_put])
qed

lemma writeMIME_text:
  assumes "writeMIME env ctxs m s = Some (Inr messageID, s')"
  shows "newMessageID env (Email (From m)) = Inr messageID
    \<and> (\<exists>ds. list_all2 attachment_data (Attachments m) ds \<and> out s' = out s @ mime_text env m messageID ds)"
proof -
  from assms obtain s1 s2 where i: "newMessageID env (Email (From m)) = Inr messageID"
    and s1: "writeHeaders env (message_headers env m messageID) s = Some (None, s1)"
    and s2: "write_body env ctxs m s1 = Some (None, s2)" and f: "sink_Flush s2 = (None, s')"
    by (auto simp: writeMIME_def andthen_None split: sum.splits option.splits)
  from write_body_data [OF s2] obtain ds where ds: "list_all2 attachment_data (Attachments m) ds" by blast
  have "out s' = out s2" using f by (auto simp: sink_Flush_def split: if_splits)
  with writesD [OF writes_Headers _ s1] writesD [OF writes_body [OF ds] _ s2] i ds show ?thesis
    by (auto simp: mime_text_def)
qed

section \<open>Success over a working connection\<close>

lemma list_all2_imp_ex: "list_all2 P xs ys \<Longrightarrow> \<forall>x\<in>set xs. \<exists>y. P x y"
  by (induction rule: list_all2_induct) auto

definition succeeds :: "('s \<Rightarrow> bool) \<Rightarrow> 's action \<Rightarrow> bool" where
  "succeeds I f \<longleftrightarrow> (\<forall>s. I s \<longrightarrow> (\<exists>s'. f s = Some (None, s') \<and> I s'))"

definition healthy2 :: "mpart \<times> sink \<Rightarrow> bool" where
  "healthy2 ms \<longleftrightarrow> healthy (snd ms)"

lemma succeeds_andthen: "\<lbrakk>succeeds I f; succeeds I g\<rbrakk> \<Longrightarrow> succeeds I (andthen f g)"
  unfolding succeeds_def andthen_None by blast

lemma succeeds_wrapping: "succeeds I f \<Longrightarrow> succeeds I (wrapping msg f)"
  by (simp add: succeeds_def)

lemma succeeds_put: "succeeds healthy (put t)"
  by (simp add: succeeds_def put_def sink_Write_healthy)

lemma succeeds_each: "\<forall>x\<in>set xs. succeeds I (f x) \<Longrightarrow> succeeds I (each f xs)"
proof (induction xs)
  case (Cons x xs)
  then have "succeeds I (andthen (f x) (each f xs))" by (intro succeeds_andthen) simp_all
  then show ?case by (simp add: succeeds_def)
qed (simp add: succeeds_def)

lemma succeeds_on_sink: "succeeds healthy f \<Longrightarrow> succeeds healthy2 (on_sink f)"
  by (fastforce simp: succeeds_def healthy2_def on_sink_def)

lemma succeeds_CreatePart: "succeeds healthy2 (CreatePart h)"
  by (simp add: succeeds_def healthy2_def CreatePart_def sink_Write_healthy)

lemma succeeds_Close: "succeeds healthy2 Close"
  using succeeds_on_sink [OF succeeds_put] by (simp add: succeeds_def Close_def)

lemma boundary_char_space: "\<not> boundary_char CHR '' ''"
  by (simp add: boundary_char_def)

definition good_boundary :: "string \<Rightarrow> bool" where
  "good_boundary b \<longleftrightarrow> 1 \<le> length b \<and> length b \<le> 70 \<and> list_all boundary_char b"

lemma SetBoundary_good:
  assumes "good_boundary b"
  shows "SetBoundary b (\<lparr>mp_boundary = [], mp_started = False\<rparr>, s) = Some (None, (\<lparr>mp_boundary = b, mp_started = False\<rparr>, s))"
proof -
  have "last b \<noteq> CHR '' ''" "list_all (\<lambda>c. boundary_char c \<or> c = CHR '' '') b"
    using assms last_in_set [of b] boundary_char_space unfolding good_boundary_def list_all_iff
    by (metis list.size(3) not_one_le_zero, blast)
  then show ?thesis using assms by (auto simp: SetBoundary_def good_boundary_def)
qed

lemma succeeds_with_multipart:
  assumes "good_boundary b" "succeeds healthy2 f"
  shows "succeeds healthy (with_multipart (andthen (SetBoundary b) f))"
proof -
  have m: "with_multipart (andthen (SetBoundary b) f) s = map_option (\<lambda>(e, ms). (e, snd ms)) (f (\<lparr>mp_boundary = b, mp_started = False\<rparr>, s))" for s
    by (simp add: with_multipart_def andthen_def SetBoundary_good [OF assms(1)])
  show ?thesis unfolding succeeds_def
  proof (intro allI impI)
    fix s assume "healthy s"
    with assms(2) obtain ms where "f (\<lparr>mp_boundary = b, mp_started = False\<rparr>, s) = Some (None, ms)" "healthy2 ms"
      unfolding succeeds_def healthy2_def by (metis snd_conv)
    then show "\<exists>s'. with_multipart (andthen (SetBoundary b) f) s = Some (None, s') \<and> healthy s'" by (simp add: m healthy2_def)
  qed
qed

lemma put_all_healthy: "healthy s \<Longrightarrow> \<exists>s'. put_all ps s = (None, s') \<and> healthy s'"
  by (induction ps arbitrary: s) (simp_all add: sink_Write_healthy)

lemma begin_copy_healthy [simp]: "healthy (begin_copy s) = healthy s"
  by (simp add: begin_copy_def healthy_def)

lemma qpw_accepts: "accepts_on (\<lambda>w. healthy (snd w)) qpw_Write"
proof -
  have "\<exists>w'. qpw_Write d w = (length d, None, w') \<and> healthy (snd w')" if "healthy (snd w)" for d w
    using put_all_healthy [OF that, of "fst (qp_run (string_of d) (fst w))"] by (auto simp: qpw_Write_def Let_def case_prod_beta)
  then show ?thesis by (simp add: accepts_on_def)
qed

lemma succeeds_quoted: "\<forall>k i. ctxs k i = None \<Longrightarrow> succeeds healthy (writeQuotedPrintable ctxs body)"
proof -
  assume c: "\<forall>k i. ctxs k i = None"
  have "\<exists>s'. writeQuotedPrintable ctxs body s = Some (None, s') \<and> healthy s'" if "healthy s" for s
  proof -
    from copy_all_accepts [OF string_reader_content _ qpw_accepts, of "ctxs (copy_count s)" "(qp_new, begin_copy s)" body] c that
    obtain n q s1 where r: "copy_all (ctxs (copy_count s)) qpw_Write (string_reader body) (qp_new, begin_copy s) = Some (n, None, (q, s1))"
      "healthy s1" by auto
    with put_all_healthy [OF r(2), of "qp_close q"] show ?thesis
      by (auto simp: writeQuotedPrintable_def copyWithContext_def copy_result_def)
  qed
  then show ?thesis by (simp add: succeeds_def)
qed

lemma succeeds_encode_body: "\<lbrakk>\<forall>k i. ctxs k i = None; content src d\<rbrakk> \<Longrightarrow> succeeds healthy (encode_body ctxs fn src)"
proof -
  assume c: "\<forall>k i. ctxs k i = None" and d: "content src d"
  have "\<exists>s'. encode_body ctxs fn src s = Some (None, s') \<and> healthy s'" if h: "healthy s" for s
  proof -
    let ?e = "NewEncoder \<lparr>writer = begin_copy s, column = 0\<rparr>"
    have "encoder_ready ?e" using h by (simp add: encoder_ready_def NewEncoder_def)
    with copy_all_accepts [OF d _ encoder_accepts] c obtain n e where
      "copy_all (ctxs (copy_count s)) encoder_Write src ?e = Some (n, None, e)" "encoder_ready e" by blast
    with encoder_Close_healthy [of e] show ?thesis by (auto simp: encode_body_def copyWithContext_def copy_result_def)
  qed
  then show ?thesis by (simp add: succeeds_def)
qed

lemma succeeds_closing_body: "succeeds healthy2 f \<Longrightarrow> succeeds healthy2 (closing_body f)"
  unfolding succeeds_def
proof (intro allI impI)
  fix ms assume f: "\<forall>s. healthy2 s \<longrightarrow> (\<exists>s'. f s = Some (None, s') \<and> healthy2 s')" and "healthy2 ms"
  then have "healthy2 (fst ms, (snd ms)\<lparr>bodies := bodies (snd ms) + 1\<rparr>)" by (simp add: healthy2_def healthy_def)
  with f obtain m s where "f (fst ms, (snd ms)\<lparr>bodies := bodies (snd ms) + 1\<rparr>) = Some (None, m, s)" "healthy2 (m, s)"
    by (metis prod.collapse)
  then show "\<exists>s'. closing_body f ms = Some (None, s') \<and> healthy2 s'" by (simp add: closing_body_def healthy2_def healthy_def)
qed

lemma succeeds_Attachment:
  assumes "\<forall>k i. ctxs k i = None" "attachment_data a d"
  shows "succeeds healthy2 (writeAttachment env ctxs a)"
proof -
  obtain src where o: "Open a = Some (Inr src)" "content src d" using assms(2) by (auto simp: attachment_data_def)
  have "succeeds healthy2 (andthen (wrapping msg (CreatePart (attachment_header env a))) (on_sink (encode_body ctxs (Filename a) src)))" for msg
    by (intro succeeds_andthen succeeds_wrapping succeeds_CreatePart succeeds_on_sink succeeds_encode_body [OF assms(1) o(2)])
  then have "succeeds healthy2 (closing_body (andthen (wrapping msg (CreatePart (attachment_header env a)))
      (on_sink (encode_body ctxs (Filename a) src))))" for msg
    by (rule succeeds_closing_body)
  with o(1) show ?thesis by (simp add: succeeds_def writeAttachment_def)
qed

lemma succeeds_TextPart: "\<forall>k i. ctxs k i = None \<Longrightarrow> succeeds healthy2 (writeTextPart ctxs ct body)"
  unfolding writeTextPart_def
  by (intro succeeds_andthen succeeds_wrapping succeeds_CreatePart succeeds_on_sink succeeds_quoted)

lemma hex_digit_boundary: "n < 16 \<Longrightarrow> boundary_char (hex_digit n)"
  using hex_digit_code [of n] by (auto simp: boundary_char_def Let_def)

lemma good_hex: "\<lbrakk>length bs = 16\<rbrakk> \<Longrightarrow> good_boundary (hex bs)"
proof -
  have "list_all boundary_char (hex bs)"
    using unat_less_8 by (induction bs) (auto simp: hex_digit_boundary less_mult_imp_div_less)
  then show "length bs = 16 \<Longrightarrow> ?thesis" by (simp add: good_boundary_def)
qed

lemma succeeds_writeHeaders: "succeeds healthy (writeHeaders env h)"
  unfolding writeHeaders_def by (intro succeeds_andthen succeeds_each ballI succeeds_wrapping succeeds_put)

text \<open>The random source filled its arrays.\<close>

definition random_ok :: "mime_env \<Rightarrow> bool" where
  "random_ok env \<longleftrightarrow> snd (rand_Read env 0) = None \<and> length (fst (rand_Read env 1)) = 16 \<and> length (fst (rand_Read env 2)) = 16"

lemma newMessageID_ok: "snd (rand_Read env 0) = None \<Longrightarrow> \<exists>messageID. newMessageID env from = Inr messageID"
  by (cases "rand_Read env 0") (simp add: newMessageID_def Let_def)

lemma writeMIME_succeeds:
  assumes "healthy s" "\<forall>k i. ctxs k i = None" "random_ok env" "list_all2 attachment_data (Attachments m) ds"
  shows "\<exists>messageID s'. writeMIME env ctxs m s = Some (Inr messageID, s') \<and> healthy s'"
proof -
  have b: "good_boundary (randomBoundary env 1)" "good_boundary (randomBoundary env 2)"
    using assms(3) by (simp_all add: random_ok_def randomBoundary_def good_hex)
  note steps = succeeds_andthen succeeds_wrapping succeeds_Close succeeds_CreatePart succeeds_on_sink
    succeeds_TextPart [OF assms(2)] succeeds_quoted [OF assms(2)]
  have alt: "succeeds healthy2 (writeAlternative ctxs m)" unfolding writeAlternative_def by (intro steps)
  have parts: "succeeds healthy2 (writeBodyParts ctxs (randomBoundary env 2) m)"
    unfolding writeBodyParts_def by (auto intro!: steps succeeds_with_multipart b alt)
  have "\<forall>a\<in>set (Attachments m). \<exists>d. attachment_data a d" using list_all2_imp_ex [OF assms(4)] by blast
  then have att: "succeeds healthy2 (each (writeAttachment env ctxs) (Attachments m))"
    using succeeds_Attachment [OF assms(2)] by (intro succeeds_each) blast
  have "succeeds healthy (write_body env ctxs m)"
    unfolding write_body_def Let_def by (auto intro!: steps succeeds_with_multipart b [simplified] alt parts att)
  moreover have "succeeds healthy (writeHeaders env h)" for h by (rule succeeds_writeHeaders)
  moreover have "succeeds healthy (\<lambda>s. Some (sink_Flush s))" by (simp add: succeeds_def sink_Flush_def healthy_def)
  ultimately have "succeeds healthy (andthen (writeHeaders env h) (andthen (write_body env ctxs m)
      (wrapping msg (\<lambda>s. Some (sink_Flush s)))))" for h msg
    by (intro succeeds_andthen succeeds_wrapping)
  moreover obtain messageID where "newMessageID env (Email (From m)) = Inr messageID"
    using newMessageID_ok [of env "Email (From m)"] assms(3) by (auto simp: random_ok_def)
  ultimately show ?thesis using assms(1) by (fastforce simp: writeMIME_def succeeds_def)
qed

end
