(* ===== verification/Emailx_Message.thy ===== *)
theory Emailx_Message
  imports Emailx_Mime
begin

text \<open>
  Properties of the messages that \<^verbatim>\<open>emailx\<close> writes: their text, their headers, their parts, and the
  attachment readers opened on the way.
\<close>

section \<open>Readers are closed\<close>

definition keeps :: "('s \<Rightarrow> sink) \<Rightarrow> 's action \<Rightarrow> bool" where
  "keeps sk f \<longleftrightarrow> (\<forall>s e s'. f s = Some (e, s') \<longrightarrow> bodies (sk s') = bodies (sk s))"

lemma keepsI: "(\<And>s e s'. f s = Some (e, s') \<Longrightarrow> bodies (sk s') = bodies (sk s)) \<Longrightarrow> keeps sk f"
  unfolding keeps_def by blast

lemma keepsD: "\<lbrakk>keeps sk f; f s = Some (e, s')\<rbrakk> \<Longrightarrow> bodies (sk s') = bodies (sk s)"
  unfolding keeps_def by blast

lemma keeps_andthen: "\<lbrakk>keeps sk f; keeps sk g\<rbrakk> \<Longrightarrow> keeps sk (andthen f g)"
proof (rule keepsI, goal_cases)
  case (1 s e s')
  then show ?case by (auto simp: andthen_def dest!: keepsD split: option.splits)
qed

lemma keeps_wrapping: "keeps sk f \<Longrightarrow> keeps sk (wrapping msg f)"
  unfolding keeps_def wrapping_def by fastforce

abbreviation keeps_sink :: "sink action \<Rightarrow> bool" where
  "keeps_sink f \<equiv> keeps (\<lambda>s. s) f"

lemma sink_Write_bodies: "bodies (snd (snd (sink_Write t s))) = bodies s"
  using sink_Write_contract [of t s] by (cases "sink_Write t s") auto

lemma keeps_put: "keeps_sink (put t)"
proof (rule keepsI, goal_cases)
  case (1 s e s')
  with sink_Write_bodies [of t s] show ?case by (auto simp: put_def split: prod.splits)
qed

lemma keeps_each: "(\<And>x. keeps sk (f x)) \<Longrightarrow> keeps sk (each f xs)"
proof (induction xs)
  case (Cons x xs)
  then have "keeps sk (andthen (f x) (each f xs))" by (intro keeps_andthen) simp_all
  then show ?case by (simp add: keeps_def)
qed (simp add: keeps_def)

lemma keeps_on_sink: "keeps_sink f \<Longrightarrow> keeps snd (on_sink f)"
proof (rule keepsI, goal_cases)
  case (1 s e s')
  then show ?case by (auto simp: on_sink_def dest: keepsD)
qed

lemma keeps_CreatePart: "keeps snd (CreatePart h)"
proof (rule keepsI, goal_cases)
  case (1 ms e ms')
  with sink_Write_bodies [of "part_head (mp_boundary (fst ms)) (mp_started (fst ms)) h" "snd ms"] show ?case
    by (auto simp: CreatePart_def split: prod.splits option.splits)
qed

lemma keeps_Close: "keeps snd Close"
  using keeps_on_sink [OF keeps_put] by (simp add: keeps_def Close_def)

lemma keeps_SetBoundary: "keeps snd (SetBoundary b)"
  by (rule keepsI) (auto simp: SetBoundary_def split: if_splits)

lemma keeps_with_multipart: "keeps snd f \<Longrightarrow> keeps_sink (with_multipart f)"
proof (rule keepsI, goal_cases)
  case (1 s e s')
  then show ?case by (auto simp: with_multipart_def dest: keepsD)
qed

lemma put_all_bodies: "bodies (snd (put_all ps s)) = bodies s"
proof (induction ps arbitrary: s)
  case (Cons t ps)
  from Cons [of "snd (snd (sink_Write t s))"] sink_Write_bodies [of t s] show ?case
    by (auto split: prod.splits option.splits)
qed simp

lemma keeps_quoted: "keeps_sink (writeQuotedPrintable ctxs body)"
proof (rule keepsI, goal_cases)
  case (1 s e s')
  then obtain n x q s1 where c: "copy_all (ctxs (copy_count s)) qpw_Write (string_reader body) (qp_new, begin_copy s) = Some (n, x, (q, s1))"
    and p: "s' = snd (put_all (qp_close q) s1)"
    by (auto simp: writeQuotedPrintable_def copyWithContext_def split: option.splits prod.splits)
  have "bodies (snd (snd (snd (qpw_Write d w)))) = bodies (snd w)" for d w
    using put_all_bodies [of "fst (qp_run (string_of d) (fst w))" "snd w"] by (simp add: qpw_Write_def case_prod_beta Let_def)
  with copy_all_inv [OF c, of "\<lambda>w. bodies (snd w) = bodies s"] have "bodies s1 = bodies s" by (simp add: begin_copy_def)
  with p put_all_bodies show ?case by simp
qed

lemma keeps_encode_body: "keeps_sink (encode_body ctxs fn src)"
proof (rule keepsI, goal_cases)
  case (1 s e s')
  let ?e = "NewEncoder \<lparr>writer = begin_copy s, column = 0\<rparr>"
  from 1 obtain n x enc where c: "copy_all (ctxs (copy_count s)) encoder_Write src ?e = Some (n, x, enc)"
    and p: "s' = writer (enc_line (snd (encoder_Close enc)))"
    by (auto simp: encode_body_def copyWithContext_def split: option.splits prod.splits)
  have "line_frame (begin_copy s) ?e" by (simp add: line_frame_def same_frame_def NewEncoder_def)
  from copy_all_inv [OF c, of "line_frame (begin_copy s)", OF this encoder_Write_frame]
  have "line_frame (begin_copy s) (snd (encoder_Close enc))" by (rule encoder_Close_frame)
  with p show ?case by (simp add: line_frame_def same_frame_def begin_copy_def)
qed

lemma keeps_Attachment: "keeps snd (writeAttachment env ctxs a)"
proof (rule keepsI, goal_cases)
  case (1 ms e ms')
  have k: "keeps snd (andthen (wrapping msg (CreatePart h)) (on_sink (encode_body ctxs fn src)))" for msg h fn src
    by (intro keeps_andthen keeps_wrapping keeps_CreatePart keeps_on_sink keeps_encode_body)
  from 1 show ?case
    by (auto simp: writeAttachment_def closing_body_def dest!: keepsD [OF k] split: option.splits sum.splits)
qed

lemma keeps_TextPart: "keeps snd (writeTextPart ctxs ct body)"
  unfolding writeTextPart_def by (intro keeps_andthen keeps_wrapping keeps_CreatePart keeps_on_sink keeps_quoted)

lemma keeps_Alternative: "keeps snd (writeAlternative ctxs m)"
  unfolding writeAlternative_def by (intro keeps_andthen keeps_TextPart)

lemmas keeps_multipart = keeps_with_multipart [OF keeps_andthen [OF keeps_SetBoundary]]

lemma keeps_BodyParts: "keeps snd (writeBodyParts ctxs b m)"
proof -
  have "keeps snd (andthen (CreatePart h) (on_sink (with_multipart (andthen (SetBoundary b) (andthen (writeAlternative ctxs m) Close)))))" for h
    by (intro keeps_andthen keeps_CreatePart keeps_on_sink keeps_multipart keeps_Alternative keeps_Close)
  then show ?thesis unfolding writeBodyParts_def by (simp add: keeps_TextPart)
qed

lemma keeps_write_body: "keeps_sink (write_body env ctxs m)"
proof -
  have "keeps_sink (with_multipart (andthen (SetBoundary b) (andthen (writeBodyParts ctxs b' m)
      (andthen (each (writeAttachment env ctxs) as) (wrapping msg Close)))))" for b b' as msg
    by (intro keeps_multipart keeps_andthen keeps_BodyParts keeps_each keeps_Attachment keeps_wrapping keeps_Close)
  moreover have "keeps_sink (with_multipart (andthen (SetBoundary b) (andthen (writeAlternative ctxs m) (wrapping msg Close))))" for b msg
    by (intro keeps_multipart keeps_andthen keeps_Alternative keeps_wrapping keeps_Close)
  ultimately show ?thesis unfolding write_body_def Let_def by (simp add: keeps_quoted)
qed

lemma writeMIME_bodies: "writeMIME env ctxs m s = Some (r, s') \<Longrightarrow> bodies s' = bodies s"
proof -
  have "keeps_sink (\<lambda>s. Some (sink_Flush s))" by (rule keepsI) (auto simp: sink_Flush_def split: if_splits)
  then have "keeps_sink (andthen (writeHeaders env h) (andthen (write_body env ctxs m) (wrapping msg (\<lambda>s. Some (sink_Flush s)))))" for h msg
    unfolding writeHeaders_def by (intro keeps_andthen keeps_each keeps_wrapping keeps_put keeps_write_body)
  note k = keepsD [OF this]
  assume "writeMIME env ctxs m s = Some (r, s')"
  then show ?thesis by (auto simp: writeMIME_def dest!: k split: sum.splits)
qed

section \<open>Headers\<close>

lemma lower_upper: "lower_char (upper_char c) = lower_char c" "lower_char (lower_char c) = lower_char c"
  by (auto simp: lower_char_def upper_char_def Let_def)

lemma lower_canon: "map lower_char (canon_chars up s) = map lower_char s"
  by (induction s arbitrary: up) (simp_all add: lower_upper)

lemma token_char_ascii: "token_char c \<Longrightarrow> c \<noteq> CHR 0xC4 \<and> c \<noteq> CHR 0xE2"
  by (auto simp: token_char_def)

lemma ToLower_token: "list_all token_char s \<Longrightarrow> ToLower s = map lower_char s"
  by (induction s rule: ToLower.induct) (auto dest: token_char_ascii)

text \<open>A name that the header map confuses with a reserved one is refused as reserved.\<close>

lemma canonical_eqD: "\<lbrakk>canonical n = k; list_all token_char k\<rbrakk> \<Longrightarrow> ToLower n = map lower_char k"
  by (auto simp: canonical_def ToLower_token lower_canon split: if_splits)

definition own_names :: "string list" where
  "own_names = [''From'', ''To'', ''Cc'', ''Bcc'', ''Reply-To'', ''Subject'', ''Date'', ''Message-Id'', ''Mime-Version'',
     ''Content-Type'', ''Content-Transfer-Encoding'']"

lemma own_names_reserved: "k \<in> set own_names \<Longrightarrow> list_all token_char k \<and> reservedHeaders (map lower_char k)"
proof -
  have "list_all (\<lambda>k. list_all token_char k \<and> reservedHeaders (map lower_char k)) own_names"
    unfolding own_names_def by code_simp
  then show "k \<in> set own_names \<Longrightarrow> ?thesis" by (simp add: list_all_iff)
qed

lemma custom_name: "\<lbrakk>k \<in> set own_names; \<not> reservedHeaders (ToLower n)\<rbrakk> \<Longrightarrow> canonical n \<noteq> k"
  using canonical_eqD own_names_reserved by metis

lemma canonical_own:
  "canonical ''From'' = ''From''" "canonical ''To'' = ''To''" "canonical ''Cc'' = ''Cc''" "canonical ''Reply-To'' = ''Reply-To''"
  "canonical ''Subject'' = ''Subject''" "canonical ''Date'' = ''Date''" "canonical ''Message-ID'' = ''Message-Id''"
  "canonical ''MIME-Version'' = ''Mime-Version''" "canonical ''Content-Type'' = ''Content-Type''"
  "canonical ''Content-Transfer-Encoding'' = ''Content-Transfer-Encoding''" "canonical ''Content-Disposition'' = ''Content-Disposition''"
  by code_simp+

lemma map_of_hset: "map_of (hset n v h) = (map_of h)(canonical n \<mapsto> v)"
  by (simp add: hset_def update_conv')

lemma distinct_hset: "distinct (map fst h) \<Longrightarrow> distinct (map fst (hset n v h))"
  by (simp add: hset_def distinct_update)

lemma set_all_other: "\<forall>(n, v)\<in>set hs. canonical n \<noteq> k \<Longrightarrow> map_of (set_all hs h) k = map_of h k"
  by (induction hs arbitrary: h) (auto simp: map_of_hset)

lemma set_all_distinct: "distinct (map fst h) \<Longrightarrow> distinct (map fst (set_all hs h))"
  by (induction hs arbitrary: h) (auto simp: distinct_hset)

lemma set_all_last:
  "\<lbrakk>(n, v) \<in> set hs; distinct (map (\<lambda>h. canonical (fst h)) hs)\<rbrakk> \<Longrightarrow> map_of (set_all hs h) (canonical n) = Some v"
proof (induction hs arbitrary: h)
  case (Cons x hs)
  obtain k u where x: "x = (k, u)" by fastforce
  show ?case
  proof (cases "(n, v) = x")
    case True
    then have "\<forall>(n', v')\<in>set hs. canonical n' \<noteq> canonical n" using Cons.prems(2) x by (force simp: image_iff)
    with True x show ?thesis by (simp add: set_all_other map_of_hset)
  next
    case False
    with Cons.prems x have "(n, v) \<in> set hs" "distinct (map (\<lambda>h. canonical (fst h)) hs)" by auto
    from Cons.IH [OF this] x show ?thesis by simp
  qed
qed simp

lemma custom_other:
  "\<lbrakk>validateMessage ml m = None; k \<in> set own_names\<rbrakk> \<Longrightarrow> map_of (set_all (Headers m) h) k = map_of h k"
proof -
  assume v: "validateMessage ml m = None" and k: "k \<in> set own_names"
  have "header_loop (Headers m) = None" using v by (auto simp: validateMessage_def split: option.splits if_splits)
  then have "\<forall>(n, v)\<in>set (Headers m). \<not> reservedHeaders (ToLower n)" by (auto simp: header_loop_None list_all_iff)
  with custom_name [OF k] show ?thesis by (intro set_all_other) blast
qed

lemma content_headers_other:
  "\<lbrakk>k \<noteq> ''Content-Type''; k \<noteq> ''Content-Transfer-Encoding''\<rbrakk> \<Longrightarrow> map_of (content_headers m b1 b2 h) k = map_of h k"
  by (simp add: content_headers_def map_of_hset canonical_own)

lemma own_headers_get:
  "map_of (own_headers env m i) =
     [''From'' \<mapsto> Address_String (env_mail env) (From m), ''To'' \<mapsto> joinAddresses env (To m), ''Subject'' \<mapsto> QEncode env (Subject m),
      ''Date'' \<mapsto> date_now env, ''Message-Id'' \<mapsto> i, ''Mime-Version'' \<mapsto> ''1.0'']
     (''Cc'' := (if CC m = [] then None else Some (joinAddresses env (CC m))),
      ''Reply-To'' := (if ReplyTo m = [] then None else Some (joinAddresses env (ReplyTo m))))"
  by (rule ext) (simp add: own_headers_def map_of_hset canonical_own Let_def)

subsection \<open>No line breaks\<close>

definition clean :: "mime_header \<Rightarrow> bool" where
  "clean h \<longleftrightarrow> (\<forall>(k, v)\<in>set h. \<not> has_newline k \<and> \<not> has_newline v)"

lemma has_newline_append [simp]: "has_newline (a @ b) \<longleftrightarrow> has_newline a \<or> has_newline b"
  by (auto simp: has_newline_def)

lemma has_newline_Cons [simp]: "\<not> has_newline []" "has_newline (c # s) \<longleftrightarrow> c = CHR 0x0D \<or> c = CHR 0x0A \<or> has_newline s"
  by (auto simp: has_newline_def)

definition newline :: "char \<Rightarrow> bool" where
  "newline c \<longleftrightarrow> (of_char c :: nat) = 13 \<or> (of_char c :: nat) = 10"

lemma has_newline_iff: "has_newline s \<longleftrightarrow> (\<exists>c\<in>set s. newline c)"
proof -
  have "newline c \<longleftrightarrow> c = CHR 0x0D \<or> c = CHR 0x0A" for c
    using inj_of_char [where 'a = nat] by (auto simp: newline_def inj_eq [symmetric])
  then show ?thesis by (auto simp: has_newline_def)
qed

lemma newline_case: "newline (upper_char c) \<longleftrightarrow> newline c" "newline (lower_char c) \<longleftrightarrow> newline c"
  by (auto simp: newline_def upper_char_def lower_char_def Let_def)

lemma canon_newline: "has_newline (canon_chars up n) \<Longrightarrow> has_newline n"
  unfolding has_newline_iff by (induction n arbitrary: up) (auto simp: newline_case split: if_splits)

lemma canonical_newline: "has_newline (canonical n) \<Longrightarrow> has_newline n"
  by (auto simp: canonical_def dest: canon_newline split: if_splits)

lemma clean_hset: "\<lbrakk>clean h; \<not> has_newline n; \<not> has_newline v\<rbrakk> \<Longrightarrow> clean (hset n v h)"
proof -
  have "set (AList.update k v h) \<subseteq> insert (k, v) (set h)" for k by (induction h) auto
  then show "\<lbrakk>clean h; \<not> has_newline n; \<not> has_newline v\<rbrakk> \<Longrightarrow> ?thesis"
    using canonical_newline [of n] by (fastforce simp: clean_def hset_def)
qed

lemma clean_set_all: "\<lbrakk>clean h; header_loop hs = None\<rbrakk> \<Longrightarrow> clean (set_all hs h)"
  by (induction hs arbitrary: h) (auto simp: clean_hset validHeader_no_newline split: if_splits)

lemma newline_Join: "\<lbrakk>\<forall>w\<in>set ws. \<not> has_newline w; \<not> has_newline sep\<rbrakk> \<Longrightarrow> \<not> has_newline (Join ws sep)"
proof (induction ws)
  case (Cons w ws)
  then show ?case by (cases "ws = []") (simp_all add: Join_Cons)
qed simp

lemma newline_hex [simp]: "\<not> has_newline (hex bs)"
  using hex_chars [of _ bs] by (fastforce simp: has_newline_def)

lemma newline_drop: "has_newline (drop n s) \<Longrightarrow> has_newline s"
  by (auto simp: has_newline_def dest: in_set_dropD)

text \<open>What the standard library promises of the values it makes. An address that \<^verbatim>\<open>mail.ParseAddress\<close>
  returns is on one line, since no line break is part of an RFC 5322 address. \<^verbatim>\<open>Address.String\<close> quotes
  or encodes the name and the local part but prints the domain as it is, so its result is only
  promised to be on one line for an address on one line. An encoded word and a date in the format
  RFC 1123 are on one line.\<close>

definition one_line_values :: "mime_env \<Rightarrow> bool" where
  "one_line_values env \<longleftrightarrow>
     (\<forall>x a. ParseAddress (env_mail env) x = Inr a \<longrightarrow> \<not> has_newline a)
     \<and> (\<forall>n e. \<not> has_newline e \<longrightarrow> \<not> has_newline (address_string (env_mail env) n e))
     \<and> (\<forall>s. \<not> has_newline (QEncode env s)) \<and> \<not> has_newline (date_now env)"

lemma message_id_newline:
  "\<lbrakk>one_line_values env; newMessageID env from = Inr i\<rbrakk> \<Longrightarrow> \<not> has_newline i"
  by (auto simp: newMessageID_def Let_def one_line_values_def dest!: newline_drop split: prod.splits option.splits sum.splits)

text \<open>An address that validation lets through is one that was parsed, so it prints on one line.\<close>

lemma valid_address_line:
  "\<lbrakk>one_line_values env; validateAddress (env_mail env) f a = None\<rbrakk> \<Longrightarrow> \<not> has_newline (Address_String (env_mail env) a)"
  unfolding validateAddress_None one_line_values_def Address_String_def by blast

lemma valid_addresses:
  assumes "validateMessage ml m = None" "a \<in> set (From m # To m @ CC m @ BCC m @ ReplyTo m)"
  shows "\<exists>f. validateAddress ml f a = None"
  using assms unfolding validateMessage_None group_loop_None list_all_iff by auto

lemma clean_own:
  assumes "validateMessage (env_mail env) m = None" "one_line_values env" "\<not> has_newline i"
  shows "clean (own_headers env m i)"
proof -
  have a: "\<not> has_newline (Address_String (env_mail env) x)" if "x \<in> set (From m # To m @ CC m @ BCC m @ ReplyTo m)" for x
    using valid_address_line [OF assms(2)] valid_addresses [OF assms(1) that] by blast
  have j: "\<not> has_newline (joinAddresses env as)" if "set as \<subseteq> set (From m # To m @ CC m @ BCC m @ ReplyTo m)" for as
    unfolding joinAddresses_def using that a by (intro newline_Join) auto
  have "\<not> has_newline (QEncode env s)" "\<not> has_newline (date_now env)" for s
    using assms(2) by (simp_all add: one_line_values_def)
  moreover have "clean []" by (simp add: clean_def)
  ultimately show ?thesis
    using a [of "From m"] j [of "To m"] j [of "CC m"] j [of "ReplyTo m"] assms(3)
    by (simp add: own_headers_def Let_def clean_hset subset_iff)
qed

lemma clean_content: "clean h \<Longrightarrow> clean (content_headers m (hex b1) (hex b2) h)"
  by (simp add: content_headers_def alternative_type_def clean_hset)

lemma validateMessage_headers: "validateMessage ml m = None \<Longrightarrow> header_loop (Headers m) = None"
  by (auto simp: validateMessage_def split: option.splits if_splits)

lemma message_headers_clean:
  "\<lbrakk>validateMessage (env_mail env) m = None; one_line_values env; newMessageID env from = Inr i\<rbrakk> \<Longrightarrow> clean (message_headers env m i)"
  unfolding message_headers_def randomBoundary_def
  by (intro clean_content clean_set_all clean_own message_id_newline validateMessage_headers)

section \<open>Properties\<close>

lemma attachment_data_eq: "\<lbrakk>attachment_data a d; attachment_data a d'\<rbrakk> \<Longrightarrow> d = d'"
  unfolding attachment_data_def by (metis content_unique option.inject sum.inject(2))

lemma attachment_data_unique: "\<lbrakk>list_all2 attachment_data as ds; list_all2 attachment_data as ds'\<rbrakk> \<Longrightarrow> ds = ds'"
proof (induction arbitrary: ds' rule: list_all2_induct)
  case (Cons a as d ds)
  from Cons.prems obtain d2 ds2 where "ds' = d2 # ds2" "attachment_data a d2" "list_all2 attachment_data as ds2"
    by (auto simp: list_all2_Cons1)
  with Cons attachment_data_eq show ?case by blast
qed simp

text \<open>C15. A written message is the reference text: if \<^verbatim>\<open>writeMIME\<close> reports success, every attachment was read
  to its end and what was sent is the headers, the boundaries and the encoded parts, in order, and
  nothing else. And it does succeed if the connection works, the context is not cancelled, the
  random source answers and the attachments can be read.\<close>

theorem mime_message_text:
  "(writeMIME env ctxs m s = Some (Inr i, s') \<longrightarrow>
      (\<exists>ds. list_all2 attachment_data (Attachments m) ds \<and> out s' = out s @ mime_text env m i ds))
   \<and> (healthy s \<and> (\<forall>k j. ctxs k j = None) \<and> random_ok env \<and> list_all2 attachment_data (Attachments m) ds \<longrightarrow>
      (\<exists>i s'. writeMIME env ctxs m s = Some (Inr i, s') \<and> out s' = out s @ mime_text env m i ds))"
proof (intro conjI impI)
  show "writeMIME env ctxs m s = Some (Inr i, s') \<Longrightarrow>
      \<exists>ds. list_all2 attachment_data (Attachments m) ds \<and> out s' = out s @ mime_text env m i ds"
    using writeMIME_text by blast
  assume a: "healthy s \<and> (\<forall>k j. ctxs k j = None) \<and> random_ok env \<and> list_all2 attachment_data (Attachments m) ds"
  then obtain j u where w: "writeMIME env ctxs m s = Some (Inr j, u)" using writeMIME_succeeds by blast
  with writeMIME_text [OF w] attachment_data_unique a
  show "\<exists>i s'. writeMIME env ctxs m s = Some (Inr i, s') \<and> out s' = out s @ mime_text env m i ds" by blast
qed

definition demo_env :: mime_env where
  "demo_env = \<lparr>env_mail = demo_mail, QEncode = (\<lambda>s. s), FormatMediaType = (\<lambda>t ps. t), date_now = ''now'',
     rand_Read = (\<lambda>k. (replicate 16 (of_nat k), None)), map_order = (\<lambda>h. h)\<rparr>"

definition demo_sink :: sink where
  "demo_sink = \<lparr>out = [], room = None, broken = False, flush_ok = True, bodies = 0, copy_count = 0\<rparr>"

definition demo_attachment :: Attachment where
  "demo_attachment = \<lparr>Filename = ''f'', ContentType = [], Open = Some (Inr (chunks [[1, 2], [3, 4]]))\<rparr>"

lemma demo_attachment_data: "attachment_data demo_attachment [1, 2, 3, 4]"
proof -
  let ?src = "chunks [[1, 2], [3, 4]] :: email_cause reader"
  have "content ?src (delivered ?src 3)"
    using content_ends_at [OF chunks_ends, of "[[1, 2], [3, 4]]"] by (simp add: numeral_3_eq_3)
  moreover have "delivered ?src 3 = [1, 2, 3, 4]"
    by (simp add: delivered_def chunks_def numeral_3_eq_3)
  ultimately show ?thesis by (simp add: attachment_data_def demo_attachment_def)
qed

lemma demo_ready: "healthy demo_sink" "random_ok demo_env"
  by (simp_all add: healthy_def demo_sink_def random_ok_def demo_env_def)

theorem mime_message_text_witness:
  "\<exists>i s'. writeMIME demo_env (\<lambda>_. Background) (demo_message\<lparr>Attachments := [demo_attachment]\<rparr>) demo_sink = Some (Inr i, s')
     \<and> out s' = mime_text demo_env (demo_message\<lparr>Attachments := [demo_attachment]\<rparr>) i [[1, 2, 3, 4]]"
  using mime_message_text [of demo_env "\<lambda>_. Background" "demo_message\<lparr>Attachments := [demo_attachment]\<rparr>" demo_sink]
    demo_ready demo_attachment_data by (auto simp: demo_sink_def)

text \<open>C18. An attachment survives: if \<^verbatim>\<open>writeAttachment\<close> reports success, its reader came to an end, and what
  follows the part's header is a text of lines of at most 76 characters that decodes to exactly the
  bytes the reader delivered, however they were cut into reads.\<close>

theorem attachment_roundtrip:
  assumes "writeAttachment env ctxs a (\<lparr>mp_boundary = b, mp_started = st\<rparr>, s) = Some (None, ms)"
  shows "\<exists>src d ls. Open a = Some (Inr src) \<and> content src d
     \<and> out (snd ms) = out s @ part_head b st (attachment_header env a) @ Join ls crlf
     \<and> mime_decode (Join ls crlf) = Some d \<and> list_all (\<lambda>l. l \<noteq> [] \<and> length l \<le> 76 \<and> \<not> has_newline l) ls"
proof -
  from writeAttachment_data [OF assms] obtain d where d: "attachment_data a d" by blast
  then obtain src where src: "Open a = Some (Inr src)" "content src d" by (auto simp: attachment_data_def)
  let ?ls = "chop76 (std_encode d)"
  have o: "out (snd ms) = out s @ part_head b st (attachment_header env a) @ Join ?ls crlf"
    using writesD [OF writes_Attachment [OF d] _ assms, of b st] by (simp add: at_def attachment_part_def wrap_lines)
  have "\<not> has_newline (std_encode d)"
    using EncodeToString_alphabet [of "CHR 0x0D" d] EncodeToString_alphabet [of "CHR 0x0A" d] by (auto simp: std_encode_def has_newline_def)
  then have "list_all (\<lambda>l. l \<noteq> [] \<and> length l \<le> 76 \<and> \<not> has_newline l) ?ls"
    using chop76_lines [of _ "std_encode d"] by (auto simp: list_all_iff has_newline_def)
  with src o mime_decode_wrap [of 0 d] show ?thesis unfolding wrap_lines by blast
qed

theorem attachment_roundtrip_witness:
  "\<exists>ms src d ls. writeAttachment demo_env (\<lambda>_. Background) demo_attachment (\<lparr>mp_boundary = ''b'', mp_started = False\<rparr>, demo_sink) = Some (None, ms)
     \<and> Open demo_attachment = Some (Inr src) \<and> content src d \<and> mime_decode (Join ls crlf) = Some d
     \<and> out (snd ms) = part_head ''b'' False (attachment_header demo_env demo_attachment) @ Join ls crlf"
proof -
  have "healthy2 (\<lparr>mp_boundary = ''b'', mp_started = False\<rparr>, demo_sink)" by (simp add: healthy2_def demo_ready)
  with succeeds_Attachment [OF _ demo_attachment_data, of "\<lambda>_. Background" demo_env] obtain ms where
    w: "writeAttachment demo_env (\<lambda>_. Background) demo_attachment (\<lparr>mp_boundary = ''b'', mp_started = False\<rparr>, demo_sink) = Some (None, ms)"
    unfolding succeeds_def by (metis Background_apply)
  from attachment_roundtrip [OF w] w show ?thesis by (auto simp: demo_sink_def)
qed



text \<open>C31. Every attachment reader that was opened is closed, on success and on every failure on the way.\<close>

theorem attachments_closed:
  assumes "writeMIME env ctxs m s = Some (r, s')"
  shows "bodies s' = bodies s"
  using assms by (rule writeMIME_bodies)

theorem attachments_closed_witness:
  "\<exists>r s'. writeMIME demo_env (\<lambda>_. Background) (demo_message\<lparr>Attachments := [demo_attachment]\<rparr>) demo_sink = Some (r, s') \<and> bodies s' = 0"
proof -
  obtain i s' where w: "writeMIME demo_env (\<lambda>_. Background) (demo_message\<lparr>Attachments := [demo_attachment]\<rparr>) demo_sink = Some (Inr i, s')"
    using writeMIME_succeeds [OF demo_ready(1) _ demo_ready(2), of "\<lambda>_. Background" "demo_message\<lparr>Attachments := [demo_attachment]\<rparr>" "[[1, 2, 3, 4]]"]
      demo_attachment_data by auto
  from attachments_closed [OF w] w show ?thesis by (auto simp: demo_sink_def)
qed

lemma message_headers_own:
  assumes "validateMessage ml m = None" "k \<in> set own_names" "k \<noteq> ''Content-Type''" "k \<noteq> ''Content-Transfer-Encoding''"
  shows "map_of (message_headers env m i) k = map_of (own_headers env m i) k"
  using custom_other [OF assms(1,2)] content_headers_other [OF assms(3,4)] by (simp add: message_headers_def)

lemma distinct_message_headers: "distinct (map fst (message_headers env m i))"
proof -
  have "distinct (map fst (own_headers env m i))" by (simp add: own_headers_def Let_def distinct_hset)
  then show ?thesis
    by (simp add: message_headers_def content_headers_def Let_def distinct_hset set_all_distinct)
qed

text \<open>The names the message sets itself; the type of the content follows its parts.\<close>

lemma content_headers_get:
  "map_of (content_headers m b1 b2 h) ''Content-Type'' =
     Some (if Attachments m \<noteq> [] then ''multipart/mixed; boundary=\"'' @ b1 @ ''\"''
           else if Text m \<noteq> [] \<and> HTML m \<noteq> [] then alternative_type b2
           else if HTML m \<noteq> [] then ''text/html; charset=\"utf-8\"'' else ''text/plain; charset=\"utf-8\"'')"
  "map_of (content_headers m b1 b2 h) ''Content-Transfer-Encoding'' =
     (if Attachments m = [] \<and> (Text m = [] \<or> HTML m = []) then Some ''quoted-printable''
      else map_of h ''Content-Transfer-Encoding'')"
  by (simp_all add: content_headers_def map_of_hset canonical_own Let_def)

text \<open>C19. Headers cannot be forged. For a valid message each header name occurs once, every header the
  message sets itself (sender, recipients, reply addresses, subject, date, identifier, MIME version,
  type and encoding of the content) is the message's own whatever custom headers it has, blind-copy
  recipients are named nowhere, and every header, custom ones included, is one line. That the
  addresses print on one line is the work of the validation.\<close>

theorem mime_headers_safe:
  assumes "validateMessage (env_mail env) m = None" "one_line_values env" "newMessageID env (Email (From m)) = Inr i"
  shows "distinct (map fst (message_headers env m i))
     \<and> map_of (message_headers env m i) ''From'' = Some (Address_String (env_mail env) (From m))
     \<and> map_of (message_headers env m i) ''To'' = Some (joinAddresses env (To m))
     \<and> map_of (message_headers env m i) ''Cc'' = (if CC m = [] then None else Some (joinAddresses env (CC m)))
     \<and> map_of (message_headers env m i) ''Bcc'' = None
     \<and> map_of (message_headers env m i) ''Reply-To'' = (if ReplyTo m = [] then None else Some (joinAddresses env (ReplyTo m)))
     \<and> map_of (message_headers env m i) ''Subject'' = Some (QEncode env (Subject m))
     \<and> map_of (message_headers env m i) ''Date'' = Some (date_now env)
     \<and> map_of (message_headers env m i) ''Message-Id'' = Some i
     \<and> map_of (message_headers env m i) ''Mime-Version'' = Some ''1.0''
     \<and> map_of (message_headers env m i) ''Content-Type'' =
         Some (if Attachments m \<noteq> [] then ''multipart/mixed; boundary=\"'' @ randomBoundary env 1 @ ''\"''
               else if Text m \<noteq> [] \<and> HTML m \<noteq> [] then alternative_type (randomBoundary env 2)
               else if HTML m \<noteq> [] then ''text/html; charset=\"utf-8\"'' else ''text/plain; charset=\"utf-8\"'')
     \<and> map_of (message_headers env m i) ''Content-Transfer-Encoding'' =
         (if Attachments m = [] \<and> (Text m = [] \<or> HTML m = []) then Some ''quoted-printable'' else None)
     \<and> list_all (\<lambda>(k, v). \<not> has_newline k \<and> \<not> has_newline v) (message_headers env m i)"
proof -
  have "map_of (message_headers env m i) k = map_of (own_headers env m i) k"
    if "k \<in> {''From'', ''To'', ''Cc'', ''Bcc'', ''Reply-To'', ''Subject'', ''Date'', ''Message-Id'', ''Mime-Version''}" for k
    using that by (intro message_headers_own [OF assms(1)]) (auto simp: own_names_def)
  moreover have "map_of (set_all (Headers m) (own_headers env m i)) ''Content-Transfer-Encoding'' = None"
    using custom_other [OF assms(1), of "''Content-Transfer-Encoding''"] by (simp add: own_names_def own_headers_get)
  ultimately show ?thesis
    using distinct_message_headers message_headers_clean [OF assms]
    by (simp add: own_headers_get clean_def list_all_iff content_headers_get message_headers_def)
qed

text \<open>An environment that keeps this promise.\<close>

definition one_line :: "string \<Rightarrow> string" where
  "one_line s = (if has_newline s then [] else s)"

definition demo_line_env :: mime_env where
  "demo_line_env = demo_env\<lparr>QEncode := one_line,
     env_mail := \<lparr>address_string = (\<lambda>n e. e), ParseAddress = (\<lambda>x. if has_newline x then Inl (New ''mail'') else Inr x)\<rparr>\<rparr>"

theorem mime_headers_safe_witness:
  "\<exists>i. newMessageID demo_line_env ''a@x'' = Inr i
     \<and> map_of (message_headers demo_line_env (demo_message\<lparr>Headers := [(''X-Tag'', ''v'')]\<rparr>) i) ''From'' = Some ''a@x''
     \<and> map_of (message_headers demo_line_env (demo_message\<lparr>Headers := [(''X-Tag'', ''v'')]\<rparr>) i) ''Bcc'' = None"
proof -
  let ?m = "demo_message\<lparr>Headers := [(''X-Tag'', ''v'')]\<rparr>"
  have v: "validateMessage (env_mail demo_line_env) ?m = None"
    by (simp add: validateMessage_def validateAddress_def Address_String_def demo_line_env_def demo_message_def one_line_def
        reservedHeaders_def lower_char_def validHeader_def)
  have l: "one_line_values demo_line_env"
    by (simp add: one_line_values_def demo_line_env_def one_line_def demo_env_def)
  have "snd (rand_Read demo_line_env 0) = None" by (simp add: demo_line_env_def demo_env_def)
  from newMessageID_ok [OF this] obtain i where i: "newMessageID demo_line_env (Email (From ?m)) = Inr i" by blast
  from mime_headers_safe [OF v l i] i show ?thesis
    by (simp add: demo_message_def Address_String_def demo_line_env_def one_line_def)
qed

text \<open>The media type of an attachment is not checked: any valid message stays valid when the type of its
  first attachment is replaced by an arbitrary text, line breaks included, and that text stands
  unchanged in the header of the part.\<close>

theorem attachment_type_unchecked:
  assumes "validateMessage ml m = None" "Attachments m = a # as" "t \<noteq> []"
  shows "validateMessage ml (m\<lparr>Attachments := a\<lparr>ContentType := t\<rparr> # as\<rparr>) = None
     \<and> (\<exists>p q. body_text env (m\<lparr>Attachments := a\<lparr>ContentType := t\<rparr> # as\<rparr>) (d # ds) = p @ ''Content-Type: '' @ t @ crlf @ q)"
proof
  show "validateMessage ml (m\<lparr>Attachments := a\<lparr>ContentType := t\<rparr> # as\<rparr>) = None"
    using assms(1,2) unfolding validateMessage_None attachment_loop_None by simp
  let ?h = "attachment_header env (a\<lparr>ContentType := t\<rparr>)"
  have "map_of ?h ''Content-Type'' = Some t" using assms(3) by (simp add: attachment_header_def map_of_hset canonical_own)
  then have "(''Content-Type'', t) \<in> set (sort_key fst ?h)" by (simp add: map_of_SomeD)
  then obtain us vs where "sort_key fst ?h = us @ (''Content-Type'', t) # vs" by (meson split_list)
  then have "\<exists>p q. part_head b st ?h = p @ ''Content-Type: '' @ t @ crlf @ q" for b st
    by (intro exI [of _ "(if st then crlf else []) @ ''--'' @ b @ crlf @ concat (map header_line us)"]
        exI [of _ "concat (map header_line vs) @ crlf"]) (simp add: part_head_def header_line_def)
  then obtain p q where h: "part_head (randomBoundary env 1) True ?h = p @ ''Content-Type: '' @ t @ crlf @ q" by blast
  obtain bh bb where bp: "body_part (randomBoundary env 2) m = (bh, bb)" by fastforce
  have "body_part b (m\<lparr>Attachments := xs\<rparr>) = body_part b m" for b xs by (simp add: body_part_def alternative_parts_def)
  then have "body_text env (m\<lparr>Attachments := a\<lparr>ContentType := t\<rparr> # as\<rparr>) (d # ds)
      = part_head (randomBoundary env 1) False bh @ bb @ part_head (randomBoundary env 1) True ?h @ wrap 0 (std_encode d)
        @ parts_text (randomBoundary env 1) True (map2 (attachment_part env) as ds) @ closing (randomBoundary env 1)"
    using bp by (simp add: body_text_def multipart_text_def attachment_part_def [of env "a\<lparr>ContentType := t\<rparr>"])
  also have "\<dots> = (part_head (randomBoundary env 1) False bh @ bb @ p) @ ''Content-Type: '' @ t @ crlf @ (q @ wrap 0 (std_encode d)
        @ parts_text (randomBoundary env 1) True (map2 (attachment_part env) as ds) @ closing (randomBoundary env 1))"
    unfolding h by (simp only: append.assoc)
  finally show "\<exists>p q. body_text env (m\<lparr>Attachments := a\<lparr>ContentType := t\<rparr> # as\<rparr>) (d # ds) = p @ ''Content-Type: '' @ t @ crlf @ q"
    by blast
qed

text \<open>Here a header line of the sender's choice is put into the message.\<close>

theorem attachment_type_unchecked_witness:
  "let m = demo_message\<lparr>Attachments := [demo_attachment\<lparr>ContentType := ''text/plain'' @ crlf @ ''X-Forged: 1''\<rparr>]\<rparr> in
   validateMessage demo_mail m = None
   \<and> (\<exists>p q. body_text demo_env m [[1, 2, 3, 4]] = p @ ''Content-Type: text/plain'' @ crlf @ ''X-Forged: 1'' @ crlf @ q)"
proof -
  have v: "validateMessage demo_mail (demo_message\<lparr>Attachments := [demo_attachment]\<rparr>) = None"
    using demo_valid unfolding validateMessage_None by (simp add: demo_attachment_def)
  from attachment_type_unchecked [OF v, of demo_attachment "[]" "''text/plain'' @ crlf @ ''X-Forged: 1''" demo_env "[1, 2, 3, 4]" "[]"]
  show ?thesis by (simp add: Let_def)
qed

end
