(* ===== verification/Emailx_Smtp.thy ===== *)
theory Emailx_Smtp
  imports Emailx_Message Go_Strconv
begin

text \<open>
  \<^verbatim>\<open>emailx/smtp.go\<close>, delivery: the options of the sender and \<^verbatim>\<open>Send\<close> as the sequence of calls it makes on
  the connection and on the client of \<^verbatim>\<open>net/smtp\<close>. The other side is a parameter: what each call
  answers, given all the calls before it. The goroutine that closes the connection when the context
  is cancelled acts through these answers: any call may start to fail at any moment.
\<close>

section \<open>The sender\<close>

record SMTPOptions =
  Host :: string
  Port :: int
  Username :: string
  Password :: string
  ImplicitTLS :: bool
  AllowInsecure :: bool
  InsecureSkipVerify :: bool
  DialTimeout :: duration

record SMTPSender =
  options :: SMTPOptions
  address :: string

definition JoinHostPort :: "string \<Rightarrow> string \<Rightarrow> string" where
  "JoinHostPort host port =
     (if CHR '':'' \<in> set host then ''['' @ host @ '']:'' @ port else host @ '':'' @ port)"

definition NewSMTPSender :: "SMTPOptions \<Rightarrow> email_error + SMTPSender" where
  "NewSMTPSender opts =
     (if Host opts = [] then Inl (New ''emailx: SMTP host is required'')
      else if Port opts < 1 \<or> 65535 < Port opts then Inl (New ''emailx: SMTP port must be between 1 and 65535'')
      else if (Username opts = []) \<noteq> (Password opts = []) then
        Inl (New ''emailx: SMTP username and password must be configured together'')
      else
        (let opts = (if DialTimeout opts \<le> 0 then opts\<lparr>DialTimeout := 10 * 1000000000\<rparr> else opts)
         in Inr \<lparr>options = opts, address = JoinHostPort (Host opts) (dec_int (Port opts))\<rparr>))"

record tls_config =
  ServerName :: string
  MinVersion :: nat
  SkipVerify :: bool

text \<open>\<^verbatim>\<open>tls.VersionTLS12\<close> is 0x0303.\<close>

definition tlsConfig :: "SMTPSender \<Rightarrow> tls_config" where
  "tlsConfig s = \<lparr>ServerName = Host (options s), MinVersion = 771, SkipVerify = InsecureSkipVerify (options s)\<rparr>"

section \<open>Calls\<close>

datatype smtp_call =
    DialTLS string duration tls_config
  | DialPlain string duration
  | SetDeadline time
  | NewClient string
  | StartTLS tls_config
  | Auth string string string
  | Mail string
  | Rcpt string
  | Data
  | CloseData
  | Quit
  | CloseClient
  | StopWatch
  | CloseConn

text \<open>The other side: the answer to a call after a history of calls, whether it offers STARTTLS then, and
  how the stream it opens for the message behaves.\<close>

record server =
  answer :: "smtp_call list \<Rightarrow> smtp_call \<Rightarrow> email_error option"
  offers_starttls :: "smtp_call list \<Rightarrow> bool"
  data_stream :: "smtp_call list \<Rightarrow> sink"

text \<open>A delivery under way: the calls made, the text handed to the stream, and the message's identifier.\<close>

record delivery =
  hist :: "smtp_call list"
  data_out :: string
  mid :: string

definition call :: "server \<Rightarrow> smtp_call \<Rightarrow> delivery action" where
  "call srv c d = Some (answer srv (hist d) c, d\<lparr>hist := hist d @ [c]\<rparr>)"

section \<open>Sending\<close>

definition dial :: "server \<Rightarrow> SMTPSender \<Rightarrow> delivery action" where
  "dial srv s =
     (if ImplicitTLS (options s)
      then wrapping ''emailx: dial SMTP TLS'' (call srv (DialTLS (address s) (DialTimeout (options s)) (tlsConfig s)))
      else wrapping ''emailx: dial SMTP'' (call srv (DialPlain (address s) (DialTimeout (options s)))))"

text \<open>\<^verbatim>\<open>closeOnCancellation\<close>: a deadline of the context becomes the connection's; the error is ignored.\<close>

definition closeOnCancellation :: "time option \<Rightarrow> delivery \<Rightarrow> delivery" where
  "closeOnCancellation deadline d =
     (case deadline of None \<Rightarrow> d | Some t \<Rightarrow> d\<lparr>hist := hist d @ [SetDeadline t]\<rparr>)"

definition start_tls :: "server \<Rightarrow> SMTPSender \<Rightarrow> delivery action" where
  "start_tls srv s d =
     (if \<not> ImplicitTLS (options s) then
        (if offers_starttls srv (hist d) then wrapping ''emailx: start SMTP TLS'' (call srv (StartTLS (tlsConfig s))) d
         else if \<not> AllowInsecure (options s) then Some (Some (New ''emailx: SMTP server does not support STARTTLS''), d)
         else Some (None, d))
      else Some (None, d))"

definition authenticate :: "server \<Rightarrow> SMTPSender \<Rightarrow> delivery action" where
  "authenticate srv s d =
     (if Username (options s) \<noteq> []
      then wrapping ''emailx: authenticate SMTP'' (call srv (Auth (Username (options s)) (Password (options s)) (Host (options s)))) d
      else Some (None, d))"

text \<open>The message: the stream is closed, which ends the message, whether or not writing it succeeded; the
  error of writing goes first.\<close>

definition send_data :: "server \<Rightarrow> mime_env \<Rightarrow> ctxs \<Rightarrow> Message \<Rightarrow> delivery action" where
  "send_data srv env ctxs m d =
     (case writeMIME env ctxs m ((data_stream srv (hist d))\<lparr>out := []\<rparr>) of
        None \<Rightarrow> None
      | Some (r, k) \<Rightarrow>
          (let closeErr = answer srv (hist d) CloseData;
               d = d\<lparr>hist := hist d @ [CloseData], data_out := out k\<rparr>
           in case r of
                Inl e \<Rightarrow> Some (Some e, d)
              | Inr messageID \<Rightarrow>
                  (case closeErr of
                     Some e \<Rightarrow> Some (Some (Wrap ''emailx: close SMTP data'' e), d)
                   | None \<Rightarrow> Some (None, d\<lparr>mid := messageID\<rparr>))))"

definition session :: "server \<Rightarrow> mime_env \<Rightarrow> ctxs \<Rightarrow> SMTPSender \<Rightarrow> Message \<Rightarrow> delivery action" where
  "session srv env ctxs s m =
     andthen (start_tls srv s)
       (andthen (authenticate srv s)
         (andthen (wrapping ''emailx: set SMTP sender'' (call srv (Mail (Email (From m)))))
           (andthen (each (\<lambda>r. wrapping (''emailx: set SMTP recipient '' @ Email r) (call srv (Rcpt (Email r)))) (recipients m))
             (andthen (wrapping ''emailx: open SMTP data'' (call srv Data))
               (andthen (send_data srv env ctxs m)
                 (wrapping ''emailx: quit SMTP session'' (call srv Quit)))))))"

text \<open>Deferred calls, last first; their errors are ignored.\<close>

definition deferred :: "smtp_call list \<Rightarrow> delivery action \<Rightarrow> delivery action" where
  "deferred cs f d = map_option (\<lambda>(e, d). (e, d\<lparr>hist := hist d @ cs\<rparr>)) (f d)"

definition SMTP_Send ::
  "server \<Rightarrow> mime_env \<Rightarrow> time option \<Rightarrow> ctxs \<Rightarrow> time \<Rightarrow> SMTPSender \<Rightarrow> Message \<Rightarrow> ((email_error + Result) \<times> delivery) option" where
  "SMTP_Send srv env deadline ctxs now s m =
     (let d0 = \<lparr>hist = [], data_out = [], mid = []\<rparr> in
      case validateMessage (env_mail env) m of
        Some e \<Rightarrow> Some (Inl e, d0)
      | None \<Rightarrow>
          map_option (\<lambda>(e, d). (case e of Some e \<Rightarrow> Inl e | None \<Rightarrow> Inr \<lparr>MessageID = mid d, SentAt = now\<rparr>, d))
            (andthen (dial srv s)
              (\<lambda>d. deferred [StopWatch, CloseConn]
                (andthen (wrapping ''emailx: create SMTP client'' (call srv (NewClient (Host (options s)))))
                  (deferred [CloseClient] (session srv env ctxs s m))) (closeOnCancellation deadline d)) d0))"

section \<open>The calls of a session\<close>

text \<open>The calls of a step that succeeds; one that fails has made a beginning of them, and all but the last
  of these were answered without an error.\<close>

fun no_errors :: "server \<Rightarrow> smtp_call list \<Rightarrow> smtp_call list \<Rightarrow> bool" where
  "no_errors srv h [] = True"
| "no_errors srv h (c # cs) = (answer srv h c = None \<and> no_errors srv (h @ [c]) cs)"

lemma no_errors_append: "no_errors srv h (a @ b) \<longleftrightarrow> no_errors srv h a \<and> no_errors srv (h @ a) b"
  by (induction a arbitrary: h) auto

lemma no_errors_butlast: "no_errors srv h a \<Longrightarrow> no_errors srv h (butlast a)"
  by (cases a rule: rev_cases) (simp_all add: no_errors_append)

definition follows :: "server \<Rightarrow> smtp_call list \<Rightarrow> delivery action \<Rightarrow> smtp_call list \<Rightarrow> bool" where
  "follows srv h f cs \<longleftrightarrow>
     (\<forall>d e d'. hist d = h \<and> f d = Some (e, d') \<longrightarrow>
        (\<exists>p. hist d' = h @ p \<and> prefix p cs \<and> no_errors srv h (butlast p) \<and> (e = None \<longrightarrow> p = cs \<and> no_errors srv h p)))"

lemma followsI:
  "(\<And>d e d'. \<lbrakk>hist d = h; f d = Some (e, d')\<rbrakk> \<Longrightarrow>
      \<exists>p. hist d' = h @ p \<and> prefix p cs \<and> no_errors srv h (butlast p) \<and> (e = None \<longrightarrow> p = cs \<and> no_errors srv h p))
   \<Longrightarrow> follows srv h f cs"
  unfolding follows_def by blast

lemma followsE:
  assumes "follows srv h f cs" "hist d = h" "f d = Some (e, d')"
  obtains p where "hist d' = h @ p" "prefix p cs" "no_errors srv h (butlast p)" "e = None \<longrightarrow> p = cs \<and> no_errors srv h p"
  using assms unfolding follows_def by blast

lemma follows_nothing: "follows srv h (\<lambda>d. Some (e, d)) []"
  by (simp add: follows_def)

lemma follows_call: "follows srv h (call srv c) [c]"
  by (auto simp: follows_def call_def)

lemma follows_wrapping: "follows srv h f cs \<Longrightarrow> follows srv h (wrapping msg f) cs"
  by (fastforce simp: follows_def wrapping_def)

lemma follows_andthen:
  assumes "follows srv h f a" "follows srv (h @ a) g b"
  shows "follows srv h (andthen f g) (a @ b)"
proof (rule followsI)
  fix d e d' assume h: "hist d = h" and r: "andthen f g d = Some (e, d')"
  then obtain e1 d1 where f: "f d = Some (e1, d1)" by (auto simp: andthen_def split: option.splits)
  from followsE [OF assms(1) h f] obtain p where p: "hist d1 = h @ p" "prefix p a" "no_errors srv h (butlast p)"
    "e1 = None \<longrightarrow> p = a \<and> no_errors srv h p" .
  show "\<exists>p. hist d' = h @ p \<and> prefix p (a @ b) \<and> no_errors srv h (butlast p) \<and> (e = None \<longrightarrow> p = a @ b \<and> no_errors srv h p)"
  proof (cases e1)
    case (Some x)
    with r f p show ?thesis by (auto simp: andthen_def)
  next
    case None
    with p r f have a: "hist d1 = h @ a" "no_errors srv h a" and g: "g d1 = Some (e, d')" by (auto simp: andthen_def)
    from followsE [OF assms(2) a(1) g] obtain q where q: "hist d' = (h @ a) @ q" "prefix q b" "no_errors srv (h @ a) (butlast q)"
      "e = None \<longrightarrow> q = b \<and> no_errors srv (h @ a) q" .
    have "no_errors srv h (butlast (a @ q))"
      using a(2) q(3) no_errors_butlast [OF a(2)] by (simp add: butlast_append no_errors_append)
    with q a(2) show ?thesis by (intro exI [of _ "a @ q"]) (auto simp: no_errors_append)
  qed
qed

lemma follows_each:
  "(\<And>x h. follows srv h (f x) [c x]) \<Longrightarrow> follows srv h (each f xs) (map c xs)"
proof (induction xs arbitrary: h)
  case (Cons x xs)
  have "follows srv h (andthen (f x) (each f xs)) ([c x] @ map c xs)" by (intro follows_andthen Cons)
  then show ?case by (simp add: follows_def)
qed (simp add: follows_def)

section \<open>The script\<close>

definition dial_call :: "SMTPSender \<Rightarrow> smtp_call" where
  "dial_call s =
     (if ImplicitTLS (options s) then DialTLS (address s) (DialTimeout (options s)) (tlsConfig s)
      else DialPlain (address s) (DialTimeout (options s)))"

definition setup_calls :: "time option \<Rightarrow> SMTPSender \<Rightarrow> smtp_call list" where
  "setup_calls deadline s =
     dial_call s # (case deadline of None \<Rightarrow> [] | Some t \<Rightarrow> [SetDeadline t]) @ [NewClient (Host (options s))]"

definition tls_calls :: "server \<Rightarrow> SMTPSender \<Rightarrow> smtp_call list \<Rightarrow> smtp_call list" where
  "tls_calls srv s h = (if \<not> ImplicitTLS (options s) \<and> offers_starttls srv h then [StartTLS (tlsConfig s)] else [])"

text \<open>No encryption to be had, and none dispensed with.\<close>

definition refuses :: "server \<Rightarrow> SMTPSender \<Rightarrow> smtp_call list \<Rightarrow> bool" where
  "refuses srv s h \<longleftrightarrow> \<not> ImplicitTLS (options s) \<and> \<not> offers_starttls srv h \<and> \<not> AllowInsecure (options s)"

definition auth_calls :: "SMTPSender \<Rightarrow> smtp_call list" where
  "auth_calls s = (if Username (options s) \<noteq> [] then [Auth (Username (options s)) (Password (options s)) (Host (options s))] else [])"

definition script :: "server \<Rightarrow> SMTPSender \<Rightarrow> Message \<Rightarrow> smtp_call list \<Rightarrow> smtp_call list" where
  "script srv s m h =
     (if refuses srv s h then []
      else tls_calls srv s h @ auth_calls s @ [Mail (Email (From m))] @ map (\<lambda>r. Rcpt (Email r)) (To m @ CC m @ BCC m)
             @ [Data] @ [CloseData] @ [Quit])"

lemma follows_start_tls: "follows srv h (start_tls srv s) (tls_calls srv s h)"
  using follows_wrapping [OF follows_call, of srv h _ "StartTLS (tlsConfig s)"]
  by (auto simp: follows_def start_tls_def tls_calls_def)

lemma follows_authenticate: "follows srv h (authenticate srv s) (auth_calls s)"
  using follows_wrapping [OF follows_call, of srv h]
  by (auto simp: follows_def authenticate_def auth_calls_def)

lemma follows_send_data: "follows srv h (send_data srv env ctxs m) [CloseData]"
  by (rule followsI) (auto simp: send_data_def Let_def split: option.splits sum.splits)

lemma session_refused:
  assumes "refuses srv s (hist d)"
  shows "session srv env ctxs s m d = Some (Some (New ''emailx: SMTP server does not support STARTTLS''), d)"
proof -
  have "andthen (start_tls srv s) g d = Some (Some (New ''emailx: SMTP server does not support STARTTLS''), d)" for g
    using assms by (simp add: start_tls_def refuses_def andthen_def)
  then show ?thesis unfolding session_def by blast
qed

lemma follows_session: "follows srv h (session srv env ctxs s m) (script srv s m h)"
proof (cases "refuses srv s h")
  case True
  from session_refused have "session srv env ctxs s m d = Some (Some (New ''emailx: SMTP server does not support STARTTLS''), d)" if "hist d = h" for d
    using that True by blast
  with True show ?thesis by (auto simp: follows_def script_def)
next
  case False
  have "recipients m = To m @ CC m @ BCC m" by (simp add: recipients_def)
  then have "follows srv h (session srv env ctxs s m)
      (tls_calls srv s h @ auth_calls s @ [Mail (Email (From m))] @ map (\<lambda>r. Rcpt (Email r)) (To m @ CC m @ BCC m) @ [Data] @ [CloseData] @ [Quit])"
    unfolding session_def
    by (simp only:) (intro follows_andthen follows_start_tls follows_authenticate follows_wrapping follows_each follows_send_data follows_call)
  with False show ?thesis by (simp add: script_def)
qed

lemma session_text:
  assumes "session srv env ctxs s m d = Some (None, d')"
  shows "\<exists>ds. list_all2 attachment_data (Attachments m) ds \<and> data_out d' = mime_text env m (mid d') ds"
proof -
  from assms obtain d1 d2 where d1: "send_data srv env ctxs m d1 = Some (None, d2)" and d': "call srv Quit d2 = Some (None, d')"
    unfolding session_def andthen_None wrapping_None by blast
  from d1 obtain k where "writeMIME env ctxs m ((data_stream srv (hist d1))\<lparr>out := []\<rparr>) = Some (Inr (mid d2), k)" "data_out d2 = out k"
    by (auto simp: send_data_def Let_def split: option.splits sum.splits)
  with writeMIME_text d' show ?thesis by (fastforce simp: call_def)
qed

text \<open>A delivery that has made the calls of a history and nothing else, and \<^verbatim>\<open>Send\<close> once it has a connection.\<close>

abbreviation fresh :: "smtp_call list \<Rightarrow> delivery" where
  "fresh h \<equiv> \<lparr>hist = h, data_out = [], mid = []\<rparr>"

definition connected :: "server \<Rightarrow> mime_env \<Rightarrow> time option \<Rightarrow> ctxs \<Rightarrow> SMTPSender \<Rightarrow> Message \<Rightarrow> (email_error option \<times> delivery) option" where
  "connected srv env deadline ctxs s m =
     andthen (wrapping ''emailx: create SMTP client'' (call srv (NewClient (Host (options s)))))
       (deferred [CloseClient] (session srv env ctxs s m)) (fresh (butlast (setup_calls deadline s)))"

lemma Send_connected:
  assumes "validateMessage (env_mail env) m = None"
  shows "answer srv [] (dial_call s) = Some x \<Longrightarrow> \<exists>e. SMTP_Send srv env deadline ctxs now s m = Some (Inl e, fresh [dial_call s])"
    and "answer srv [] (dial_call s) = None \<Longrightarrow> SMTP_Send srv env deadline ctxs now s m =
      map_option (\<lambda>(e, d). (case e of Some e \<Rightarrow> Inl e | None \<Rightarrow> Inr \<lparr>MessageID = mid d, SentAt = now\<rparr>, d\<lparr>hist := hist d @ [StopWatch, CloseConn]\<rparr>))
        (connected srv env deadline ctxs s m)"
proof -
  have dial: "dial srv s (fresh []) = Some (map_option (Wrap (if ImplicitTLS (options s) then ''emailx: dial SMTP TLS'' else ''emailx: dial SMTP'')) (answer srv [] (dial_call s)),
      fresh [dial_call s])"
    by (simp add: dial_def dial_call_def wrapping_def call_def)
  have watch: "closeOnCancellation deadline (fresh [dial_call s]) = fresh (butlast (setup_calls deadline s))"
    by (simp add: closeOnCancellation_def setup_calls_def butlast_append split: option.split)
  show "answer srv [] (dial_call s) = Some x \<Longrightarrow> \<exists>e. SMTP_Send srv env deadline ctxs now s m = Some (Inl e, fresh [dial_call s])"
    using assms dial by (simp add: SMTP_Send_def Let_def andthen_def)
  assume "answer srv [] (dial_call s) = None"
  with assms dial watch show "SMTP_Send srv env deadline ctxs now s m =
      map_option (\<lambda>(e, d). (case e of Some e \<Rightarrow> Inl e | None \<Rightarrow> Inr \<lparr>MessageID = mid d, SentAt = now\<rparr>, d\<lparr>hist := hist d @ [StopWatch, CloseConn]\<rparr>))
        (connected srv env deadline ctxs s m)"
    by (cases "connected srv env deadline ctxs s m")
       (auto simp: SMTP_Send_def Let_def andthen_def [of "dial srv s"] deferred_def [of "[StopWatch, CloseConn]"]
          connected_def [symmetric] split: option.split)
qed

lemma connected_client:
  "connected srv env deadline ctxs s m =
     (case answer srv (butlast (setup_calls deadline s)) (NewClient (Host (options s))) of
        Some e \<Rightarrow> Some (Some (Wrap ''emailx: create SMTP client'' e), fresh (setup_calls deadline s))
      | None \<Rightarrow> deferred [CloseClient] (session srv env ctxs s m) (fresh (setup_calls deadline s)))"
proof -
  have "butlast (setup_calls deadline s) @ [NewClient (Host (options s))] = setup_calls deadline s"
    by (simp add: setup_calls_def butlast_append split: option.split)
  then show ?thesis
    by (simp add: connected_def andthen_def wrapping_def call_def split: option.split)
qed

lemma connected_cases:
  assumes "connected srv env deadline ctxs s m = Some (e, d)"
  obtains (refused) "e \<noteq> None" "d = fresh (setup_calls deadline s)"
  | (session) d' where "session srv env ctxs s m (fresh (setup_calls deadline s)) = Some (e, d')"
      "d = d'\<lparr>hist := hist d' @ [CloseClient]\<rparr>"
  using assms by (auto simp: connected_client deferred_def split: option.splits)

text \<open>The calls of \<^verbatim>\<open>Send\<close>.\<close>

lemma Send_trace:
  assumes "SMTP_Send srv env deadline ctxs now s m = Some (r, d)" "validateMessage (env_mail env) m = None"
  shows "(hist d = [dial_call s] \<and> answer srv [] (dial_call s) \<noteq> None \<and> (\<exists>e. r = Inl e))
    \<or> (answer srv [] (dial_call s) = None
        \<and> ((hist d = setup_calls deadline s @ [StopWatch, CloseConn] \<and> (\<exists>e. r = Inl e))
           \<or> (\<exists>p. hist d = setup_calls deadline s @ p @ [CloseClient, StopWatch, CloseConn]
                \<and> prefix p (script srv s m (setup_calls deadline s)) \<and> no_errors srv (setup_calls deadline s) (butlast p)
                \<and> (\<forall>res. r = Inr res \<longrightarrow> p = script srv s m (setup_calls deadline s) \<and> no_errors srv (setup_calls deadline s) p
                    \<and> \<not> refuses srv s (setup_calls deadline s) \<and> SentAt res = now
                    \<and> (\<exists>ds. list_all2 attachment_data (Attachments m) ds \<and> data_out d = mime_text env m (MessageID res) ds)))))"
proof (cases "answer srv [] (dial_call s)")
  case (Some e)
  with assms(1) Send_connected(1) [where deadline = deadline and ctxs = ctxs and now = now, OF assms(2) Some] show ?thesis by auto
next
  case None
  let ?h = "setup_calls deadline s"
  from assms(1) Send_connected(2) [where deadline = deadline and ctxs = ctxs and now = now, OF assms(2) None] obtain e d2 where
    c: "connected srv env deadline ctxs s m = Some (e, d2)"
    and r: "d = d2\<lparr>hist := hist d2 @ [StopWatch, CloseConn]\<rparr>"
      "r = (case e of Some e \<Rightarrow> Inl e | None \<Rightarrow> Inr \<lparr>MessageID = mid d2, SentAt = now\<rparr>)" by auto
  from c show ?thesis
  proof (cases rule: connected_cases)
    case refused
    with r None show ?thesis by (auto split: option.splits)
  next
    case (session d3)
    from followsE [OF follows_session _ session(1)] obtain p where p: "hist d3 = ?h @ p"
      "prefix p (script srv s m ?h)" "no_errors srv ?h (butlast p)" "e = None \<longrightarrow> p = script srv s m ?h \<and> no_errors srv ?h p" by auto
    have "e = None \<Longrightarrow> \<exists>ds. list_all2 attachment_data (Attachments m) ds \<and> data_out d3 = mime_text env m (mid d3) ds"
      using session_text session(1) by blast
    moreover have "e = None \<Longrightarrow> \<not> refuses srv s ?h" using session_refused [of srv s "fresh ?h"] session(1) by auto
    ultimately show ?thesis using p r session(2) None by (intro disjI2 conjI) (auto split: option.splits)
  qed
qed

section \<open>Properties\<close>

lemma Send_invalid:
  "validateMessage (env_mail env) m = Some e \<Longrightarrow>
   SMTP_Send srv env deadline ctxs now s m = Some (Inl e, \<lparr>hist = [], data_out = [], mid = []\<rparr>)"
  by (simp add: SMTP_Send_def Let_def)

lemma Send_success:
  assumes "SMTP_Send srv env deadline ctxs now s m = Some (Inr res, d)"
  shows "\<exists>tls ds. hist d = setup_calls deadline s @ tls @ auth_calls s @ [Mail (Email (From m))]
           @ map (\<lambda>r. Rcpt (Email r)) (To m @ CC m @ BCC m) @ [Data, CloseData, Quit, CloseClient, StopWatch, CloseConn]
      \<and> no_errors srv (setup_calls deadline s) (tls @ auth_calls s @ [Mail (Email (From m))]
           @ map (\<lambda>r. Rcpt (Email r)) (To m @ CC m @ BCC m) @ [Data, CloseData, Quit])
      \<and> list_all2 attachment_data (Attachments m) ds \<and> data_out d = mime_text env m (MessageID res) ds"
proof -
  let ?h = "setup_calls deadline s"
  have "validateMessage (env_mail env) m = None"
    using assms Send_invalid [of env m _ srv deadline ctxs now s] by (cases "validateMessage (env_mail env) m") simp_all
  from Send_trace [OF assms this] obtain p ds where p: "hist d = ?h @ p @ [CloseClient, StopWatch, CloseConn]"
    "p = script srv s m ?h" "no_errors srv ?h p" "\<not> refuses srv s ?h"
    "list_all2 attachment_data (Attachments m) ds" "data_out d = mime_text env m (MessageID res) ds" by auto
  then show ?thesis by (intro exI [of _ "tls_calls srv s ?h"] exI [of _ ds]) (simp add: script_def)
qed

definition sensitive :: "smtp_call \<Rightarrow> bool" where
  "sensitive c = (case c of Auth _ _ _ \<Rightarrow> True | Mail _ \<Rightarrow> True | Rcpt _ \<Rightarrow> True | Data \<Rightarrow> True | _ \<Rightarrow> False)"

definition handshake :: "SMTPSender \<Rightarrow> smtp_call \<Rightarrow> bool" where
  "handshake s c \<longleftrightarrow> c = StartTLS (tlsConfig s) \<or> c = DialTLS (address s) (DialTimeout (options s)) (tlsConfig s)"

lemma sensitive_after:
  assumes "h1 @ c # h2 = a @ b" "sensitive c" "list_all (\<lambda>x. \<not> sensitive x) a"
  shows "\<exists>k. h1 = a @ k \<and> b = k @ c # h2"
proof -
  from assms(1) consider k where "h1 = a @ k" "k @ c # h2 = b" | k where "a = h1 @ k" "c # h2 = k @ b"
    by (auto simp: append_eq_append_conv2)
  then show ?thesis
  proof cases
    case (2 k)
    with assms(2,3) show ?thesis by (cases k) auto
  qed auto
qed

lemma setup_not_sensitive: "list_all (\<lambda>x. \<not> sensitive x) (setup_calls deadline s)"
  by (auto simp: setup_calls_def dial_call_def sensitive_def split: option.split)

lemma sensitive_in_script:
  assumes "prefix p (script srv s m h)" "p = k @ c # q" "sensitive c" "no_errors srv h (butlast p)"
    and "\<not> AllowInsecure (options s)" "\<not> ImplicitTLS (options s)"
  shows "\<exists>k'. k = StartTLS (tlsConfig s) # k' \<and> answer srv h (StartTLS (tlsConfig s)) = None"
proof -
  have "script srv s m h \<noteq> []" using assms(1,2) by auto
  then have "\<not> refuses srv s h" by (auto simp: script_def)
  then have "tls_calls srv s h = [StartTLS (tlsConfig s)]" using assms(5,6) by (simp add: refuses_def tls_calls_def)
  with \<open>\<not> refuses srv s h\<close> assms(1) have "\<exists>r. prefix p (StartTLS (tlsConfig s) # r)" by (auto simp: script_def)
  then obtain p' where p: "p = StartTLS (tlsConfig s) # p'" using assms(2) by (auto simp: prefix_Cons)
  with assms(2,3) obtain k' where k: "k = StartTLS (tlsConfig s) # k'" by (cases k) (auto simp: sensitive_def)
  with p assms(2) have "p' \<noteq> []" by auto
  with p assms(4) have "answer srv h (StartTLS (tlsConfig s)) = None" by simp
  with k show ?thesis by blast
qed

text \<open>C17. Encryption: unless cleartext is allowed, credentials, addresses and the message go out only after a
  TLS handshake that succeeded, with the configured host as the server name and TLS 1.2 at least,
  whatever the server answers.\<close>

theorem smtp_tls_policy:
  assumes "SMTP_Send srv env deadline ctxs now s m = Some (r, d)" "\<not> AllowInsecure (options s)"
    and "hist d = h1 @ c # h2" "sensitive c"
  shows "\<exists>g t. prefix (g @ [t]) h1 \<and> answer srv g t = None \<and> handshake s t"
proof -
  let ?h = "setup_calls deadline s"
  have "validateMessage (env_mail env) m = None"
    using assms(1,3) Send_invalid [of env m _ srv deadline ctxs now s] by (cases "validateMessage (env_mail env) m") auto
  note t = Send_trace [OF assms(1) this]
  have one: "hist d \<noteq> [dial_call s]"
    using sensitive_after [of h1 c h2 "[dial_call s]" "[]"] assms(3,4) by (auto simp: dial_call_def sensitive_def)
  have two: "hist d \<noteq> ?h @ [StopWatch, CloseConn]"
    using sensitive_after [of h1 c h2 ?h "[StopWatch, CloseConn]"] assms(3,4) setup_not_sensitive
    by (auto simp: Cons_eq_append_conv sensitive_def)
  from t one two obtain p where dial: "answer srv [] (dial_call s) = None" and p: "hist d = ?h @ p @ [CloseClient, StopWatch, CloseConn]"
    "prefix p (script srv s m ?h)" "no_errors srv ?h (butlast p)" by blast
  from sensitive_after [of h1 c h2 ?h, OF _ assms(4) setup_not_sensitive] p(1) assms(3) obtain k where
    k: "h1 = ?h @ k" "p @ [CloseClient, StopWatch, CloseConn] = k @ c # h2" by auto
  show ?thesis
  proof (cases "ImplicitTLS (options s)")
    case True
    with dial k(1) show ?thesis
      by (intro exI [of _ "[]"] exI [of _ "dial_call s"]) (simp add: handshake_def dial_call_def setup_calls_def)
  next
    case False
    from k(2) assms(4) obtain q where "p = k @ c # q" 
      by (auto simp: append_eq_append_conv2 append_eq_Cons_conv Cons_eq_append_conv sensitive_def)
    from sensitive_in_script [OF p(2) this assms(4) p(3) assms(2) False] k(1) show ?thesis
      by (auto simp: handshake_def intro!: exI [of _ ?h] exI [of _ "StartTLS (tlsConfig s)"])
  qed
qed

text \<open>C29. Connections: nothing is sent for an invalid message, and once a connection was made, the last call
  closes it, however the delivery ended.\<close>

theorem smtp_closes:
  assumes "SMTP_Send srv env deadline ctxs now s m = Some (r, d)"
  shows "(hist d = [] \<longleftrightarrow> validateMessage (env_mail env) m \<noteq> None)
    \<and> (hist d \<noteq> [] \<longrightarrow> hd (hist d) = dial_call s \<and> (last (hist d) = CloseConn \<longleftrightarrow> answer srv [] (dial_call s) = None))"
proof (cases "validateMessage (env_mail env) m")
  case (Some e)
  with assms Send_invalid [OF Some] show ?thesis by auto
next
  case None
  have "dial_call s \<noteq> CloseConn" "setup_calls deadline s \<noteq> []" "hd (setup_calls deadline s) = dial_call s"
    by (simp_all add: dial_call_def setup_calls_def)
  with Send_trace [OF assms None] None show ?thesis by auto
qed

subsection \<open>Messages that could not be written\<close>

lemma andthen_assoc: "andthen f (andthen g k) = andthen (andthen f g) k"
  by (rule ext) (auto simp: andthen_def split: option.split)

definition agreeable :: "server \<Rightarrow> bool" where
  "agreeable srv \<longleftrightarrow> (\<forall>h c. answer srv h c = None)"

lemma agreeable_steps:
  assumes "agreeable srv"
  shows "succeeds (\<lambda>_. True) (wrapping msg (call srv c))" "succeeds (\<lambda>_. True) (authenticate srv s)"
    "\<not> refuses srv s (hist d) \<Longrightarrow> \<exists>d'. start_tls srv s d = Some (None, d')"
  using assms by (auto simp: agreeable_def succeeds_def call_def authenticate_def start_tls_def refuses_def)

text \<open>The part of a session up to the stream.\<close>

definition envelope :: "server \<Rightarrow> SMTPSender \<Rightarrow> Message \<Rightarrow> delivery action" where
  "envelope srv s m =
     andthen (start_tls srv s)
       (andthen (authenticate srv s)
         (andthen (wrapping ''emailx: set SMTP sender'' (call srv (Mail (Email (From m)))))
           (andthen (each (\<lambda>r. wrapping (''emailx: set SMTP recipient '' @ Email r) (call srv (Rcpt (Email r)))) (recipients m))
             (wrapping ''emailx: open SMTP data'' (call srv Data)))))"

lemma session_envelope:
  "session srv env ctxs s m =
     andthen (envelope srv s m) (andthen (send_data srv env ctxs m) (wrapping ''emailx: quit SMTP session'' (call srv Quit)))"
  unfolding session_def envelope_def andthen_assoc ..

lemma follows_envelope:
  "follows srv h (envelope srv s m)
     (tls_calls srv s h @ auth_calls s @ [Mail (Email (From m))] @ map (\<lambda>r. Rcpt (Email r)) (recipients m) @ [Data])"
  unfolding envelope_def
  by (intro follows_andthen follows_start_tls follows_authenticate follows_wrapping follows_each follows_call)

lemma envelope_agreeable:
  assumes "agreeable srv" "\<not> refuses srv s (hist d)"
  obtains d' where "envelope srv s m d = Some (None, d')"
    "hist d' = hist d @ tls_calls srv s (hist d) @ auth_calls s @ [Mail (Email (From m))] @ map (\<lambda>r. Rcpt (Email r)) (recipients m) @ [Data]"
proof -
  note a = agreeable_steps [OF assms(1)]
  obtain d1 where d1: "start_tls srv s d = Some (None, d1)" using a(3) assms(2) by blast
  have "succeeds (\<lambda>_. True) (andthen (authenticate srv s)
         (andthen (wrapping ''emailx: set SMTP sender'' (call srv (Mail (Email (From m)))))
           (andthen (each (\<lambda>r. wrapping (''emailx: set SMTP recipient '' @ Email r) (call srv (Rcpt (Email r)))) (recipients m))
             (wrapping ''emailx: open SMTP data'' (call srv Data)))))"
    by (intro succeeds_andthen succeeds_each ballI a(1,2))
  then obtain d' where d': "envelope srv s m d = Some (None, d')"
    using d1 unfolding envelope_def succeeds_def andthen_None by blast
  from followsE [OF follows_envelope refl d'] that d' show thesis by blast
qed

lemma Send_agreeable:
  assumes "agreeable srv" "validateMessage (env_mail env) m = None"
  shows "SMTP_Send srv env deadline ctxs now s m =
     map_option (\<lambda>(e, d). (case e of Some e \<Rightarrow> Inl e | None \<Rightarrow> Inr \<lparr>MessageID = mid d, SentAt = now\<rparr>,
         d\<lparr>hist := hist d @ [CloseClient, StopWatch, CloseConn]\<rparr>))
       (session srv env ctxs s m \<lparr>hist = setup_calls deadline s, data_out = [], mid = []\<rparr>)"
proof -
  have "answer srv h c = None" for h c using assms(1) by (simp add: agreeable_def)
  then show ?thesis
    by (cases "session srv env ctxs s m (fresh (setup_calls deadline s))")
       (auto simp: Send_connected(2) [OF assms(2)] connected_client deferred_def split: option.split)
qed

text \<open>C40. A message that cannot be written is delivered all the same: over a server that accepts every call,
  an error of \<^verbatim>\<open>Send\<close> on a valid message (an attachment that does not open, or whose reader fails in
  the middle) is returned only after the message begun on the stream was ended, and so sent.\<close>

theorem smtp_failed_message_sent:
  assumes "SMTP_Send srv env deadline ctxs now s m = Some (Inl e, d)" "validateMessage (env_mail env) m = None"
    and "agreeable srv" "\<not> refuses srv s (setup_calls deadline s)"
  shows "\<exists>p. hist d = p @ [Data, CloseData, CloseClient, StopWatch, CloseConn]
     \<and> Mail (Email (From m)) \<in> set p \<and> list_all (\<lambda>r. Rcpt (Email r) \<in> set p) (To m @ CC m @ BCC m)"
proof -
  let ?d1 = "\<lparr>hist = setup_calls deadline s, data_out = [], mid = []\<rparr>"
  from assms(1) obtain d3 where d3: "session srv env ctxs s m ?d1 = Some (Some e, d3)"
    "hist d = hist d3 @ [CloseClient, StopWatch, CloseConn]"
    unfolding Send_agreeable [OF assms(3,2)] by (auto split: option.splits)
  obtain d2 where d2: "envelope srv s m ?d1 = Some (None, d2)"
    "hist d2 = hist ?d1 @ tls_calls srv s (hist ?d1) @ auth_calls s @ [Mail (Email (From m))] @ map (\<lambda>r. Rcpt (Email r)) (recipients m) @ [Data]"
    using envelope_agreeable [OF assms(3), of s ?d1] assms(4) by auto
  with d3(1) have "andthen (send_data srv env ctxs m) (wrapping ''emailx: quit SMTP session'' (call srv Quit)) d2 = Some (Some e, d3)"
    unfolding session_envelope by (simp add: andthen_def)
  then have "send_data srv env ctxs m d2 = Some (Some e, d3)"
    using assms(3) by (auto simp: andthen_def wrapping_def call_def agreeable_def split: option.splits)
  then have "hist d3 = hist d2 @ [CloseData]" by (auto simp: send_data_def Let_def split: option.splits sum.splits)
  with d2(2) d3(2) show ?thesis
    by (intro exI [of _ "hist ?d1 @ tls_calls srv s (hist ?d1) @ auth_calls s @ [Mail (Email (From m))] @ map (\<lambda>r. Rcpt (Email r)) (recipients m)"])
       (auto simp: recipients_def list_all_iff)
qed

text \<open>An attachment that does not open.\<close>

definition demo_server :: server where
  "demo_server = \<lparr>answer = (\<lambda>_ _. None), offers_starttls = (\<lambda>_. True), data_stream = (\<lambda>_. demo_sink)\<rparr>"

definition demo_options :: SMTPOptions where
  "demo_options = \<lparr>Host = ''mx'', Port = 25, Username = ''u'', Password = ''p'', ImplicitTLS = False, AllowInsecure = False,
     InsecureSkipVerify = False, DialTimeout = 1\<rparr>"

definition demo_sender :: SMTPSender where
  "demo_sender = \<lparr>options = demo_options, address = ''mx:25''\<rparr>"

lemma demo_server_ok: "agreeable demo_server" "\<not> refuses demo_server demo_sender h" "healthy ((data_stream demo_server h)\<lparr>out := []\<rparr>)"
  by (simp_all add: agreeable_def demo_server_def refuses_def demo_ready sink_Write_healthy)

lemma Send_possible:
  assumes "agreeable srv" "\<not> refuses srv s (setup_calls deadline s)" "\<And>h. healthy ((data_stream srv h)\<lparr>out := []\<rparr>)"
    and "\<forall>k j. ctxs k j = None" "random_ok env" "list_all2 attachment_data (Attachments m) ds"
    and "validateMessage (env_mail env) m = None"
  shows "\<exists>res d. SMTP_Send srv env deadline ctxs now s m = Some (Inr res, d)"
proof -
  let ?d1 = "\<lparr>hist = setup_calls deadline s, data_out = [], mid = []\<rparr>"
  obtain d2 where d2: "envelope srv s m ?d1 = Some (None, d2)"
    using envelope_agreeable [OF assms(1), of s ?d1] assms(2) by auto
  obtain i k where "writeMIME env ctxs m ((data_stream srv (hist d2))\<lparr>out := []\<rparr>) = Some (Inr i, k)"
    using writeMIME_succeeds [OF assms(3-6)] by blast
  then obtain d3 where d3: "send_data srv env ctxs m d2 = Some (None, d3)"
    using assms(1) by (simp add: send_data_def agreeable_def)
  obtain d4 where "call srv Quit d3 = Some (None, d4)" using assms(1) by (simp add: call_def agreeable_def)
  with d2 d3 have "session srv env ctxs s m ?d1 = Some (None, d4)" unfolding session_envelope andthen_None wrapping_None by blast
  then show ?thesis by (simp add: Send_agreeable [OF assms(1,7)])
qed

lemma demo_mail_valid: "validateMessage (env_mail demo_env) demo_message = None"
  using demo_valid by (simp add: demo_env_def)

lemma demo_Send: "\<exists>res d. SMTP_Send demo_server demo_env None (\<lambda>_. Background) 0 demo_sender demo_message = Some (Inr res, d)"
proof (rule Send_possible [OF demo_server_ok _ demo_ready(2) _ demo_mail_valid])
  show "list_all2 attachment_data (Attachments demo_message) []" by (simp add: demo_message_def)
qed simp

text \<open>C16. Delivery: a success means that the server accepted, in this order, the sender, every recipient of
  the To, CC and BCC lists and the end of the message, that the text of the message is the
  reference text, and that the session was ended and the connection closed. And a valid message is
  delivered if the server accepts all calls, the stream works, the context is not cancelled, and
  the attachments can be read.\<close>

theorem smtp_delivers:
  "(SMTP_Send srv env deadline ctxs now s m = Some (Inr res, d) \<longrightarrow>
      (\<exists>tls ds. hist d = setup_calls deadline s @ tls @ auth_calls s @ [Mail (Email (From m))]
           @ map (\<lambda>r. Rcpt (Email r)) (To m @ CC m @ BCC m) @ [Data, CloseData, Quit, CloseClient, StopWatch, CloseConn]
        \<and> no_errors srv (setup_calls deadline s) (tls @ auth_calls s @ [Mail (Email (From m))]
           @ map (\<lambda>r. Rcpt (Email r)) (To m @ CC m @ BCC m) @ [Data, CloseData, Quit])
        \<and> list_all2 attachment_data (Attachments m) ds \<and> data_out d = mime_text env m (MessageID res) ds))
   \<and> (agreeable srv \<and> \<not> refuses srv s (setup_calls deadline s) \<and> (\<forall>h. healthy ((data_stream srv h)\<lparr>out := []\<rparr>))
        \<and> (\<forall>k j. ctxs k j = None) \<and> random_ok env \<and> list_all2 attachment_data (Attachments m) ds'
        \<and> validateMessage (env_mail env) m = None \<longrightarrow>
      (\<exists>res d. SMTP_Send srv env deadline ctxs now s m = Some (Inr res, d)))"
  using Send_success Send_possible [of srv s deadline ctxs env m ds' now] by blast

theorem smtp_delivers_witness:
  "\<exists>res d. SMTP_Send demo_server demo_env None (\<lambda>_. Background) 0 demo_sender demo_message = Some (Inr res, d)
     \<and> Rcpt ''b@x'' \<in> set (hist d) \<and> Rcpt ''c@x'' \<in> set (hist d) \<and> CloseConn \<in> set (hist d)"
proof -
  have "list_all2 attachment_data (Attachments demo_message) []" by (simp add: demo_message_def)
  with demo_server_ok demo_ready(2) demo_mail_valid
  have "\<exists>res d. SMTP_Send demo_server demo_env None (\<lambda>_. Background) 0 demo_sender demo_message = Some (Inr res, d)"
    by (intro smtp_delivers [THEN conjunct2, THEN mp, of demo_server demo_sender None "\<lambda>_. Background" demo_env demo_message "[]"]) simp_all
  then obtain res d where r: "SMTP_Send demo_server demo_env None (\<lambda>_. Background) 0 demo_sender demo_message = Some (Inr res, d)" by blast
  from smtp_delivers [THEN conjunct1, THEN mp, OF r] r show ?thesis by (auto simp: demo_message_def)
qed

theorem smtp_tls_policy_witness:
  "\<exists>res d h1 h2 g t. SMTP_Send demo_server demo_env None (\<lambda>_. Background) 0 demo_sender demo_message = Some (Inr res, d)
     \<and> hist d = h1 @ Data # h2 \<and> prefix (g @ [t]) h1 \<and> handshake demo_sender t"
proof -
  obtain res d where r: "SMTP_Send demo_server demo_env None (\<lambda>_. Background) 0 demo_sender demo_message = Some (Inr res, d)"
    using demo_Send by blast
  have "Data \<in> set (hist d)" using Send_success [OF r] by auto
  then obtain h1 h2 where h: "hist d = h1 @ Data # h2" by (meson split_list)
  have "\<not> AllowInsecure (options demo_sender)" "sensitive Data" by (simp_all add: demo_sender_def demo_options_def sensitive_def)
  from smtp_tls_policy [OF r this(1) h this(2)] r h show ?thesis by blast
qed

theorem smtp_closes_witness:
  "\<exists>r d. SMTP_Send demo_server demo_env None (\<lambda>_. Background) 0 demo_sender demo_message = Some (r, d) \<and> last (hist d) = CloseConn"
proof -
  obtain res d where r: "SMTP_Send demo_server demo_env None (\<lambda>_. Background) 0 demo_sender demo_message = Some (Inr res, d)"
    using demo_Send by blast
  from smtp_closes [OF r] r demo_mail_valid show ?thesis by (auto simp: demo_server_def)
qed

definition fails :: "('s \<Rightarrow> bool) \<Rightarrow> 's action \<Rightarrow> bool" where
  "fails I f \<longleftrightarrow> (\<forall>s. I s \<longrightarrow> (\<exists>e s'. f s = Some (Some e, s')))"

lemma fails_andthen1: "fails I f \<Longrightarrow> fails I (andthen f g)"
  by (fastforce simp: fails_def andthen_def)

lemma fails_andthen2: "\<lbrakk>succeeds I f; fails I g\<rbrakk> \<Longrightarrow> fails I (andthen f g)"
  by (fastforce simp: fails_def succeeds_def andthen_def)

lemma fails_with_multipart:
  assumes "good_boundary b" "fails healthy2 f"
  shows "fails healthy (with_multipart (andthen (SetBoundary b) f))"
proof -
  have "\<exists>e ms'. f (\<lparr>mp_boundary = b, mp_started = False\<rparr>, s) = Some (Some e, ms')" if "healthy s" for s
    using assms(2) that by (simp add: fails_def healthy2_def)
  then show ?thesis using SetBoundary_good [OF assms(1)] by (fastforce simp: fails_def with_multipart_def andthen_def)
qed

text \<open>Here an attachment does not open.\<close>

definition demo_missing :: Message where
  "demo_missing = demo_message\<lparr>Attachments := [\<lparr>Filename = ''f'', ContentType = [], Open = Some (Inl (Ext (OpenError ''gone'')))\<rparr>]\<rparr>"

lemma demo_missing_fails:
  "\<exists>e k. writeMIME demo_env (\<lambda>_. Background) demo_missing demo_sink = Some (Inl e, k)"
proof -
  have m: "Text demo_missing = ''t''" "HTML demo_missing = []" "Attachments demo_missing = [\<lparr>Filename = ''f'', ContentType = [], Open = Some (Inl (Ext (OpenError ''gone'')))\<rparr>]"
    by (simp_all add: demo_missing_def demo_message_def)
  have a: "fails healthy2 (andthen (each (writeAttachment demo_env (\<lambda>_. Background)) (Attachments demo_missing)) g)" for g
    unfolding m by (simp add: fails_def andthen_def writeAttachment_def)
  have "succeeds healthy2 (writeBodyParts (\<lambda>_. Background) b demo_missing)" for b
    using succeeds_TextPart [of "\<lambda>_. Background" "''text/plain''" "''t''"] by (simp add: writeBodyParts_def m)
  from fails_andthen2 [OF this a]
  have "fails healthy (with_multipart (andthen (SetBoundary (randomBoundary demo_env 1)) (andthen (writeBodyParts (\<lambda>_. Background) b demo_missing)
      (andthen (each (writeAttachment demo_env (\<lambda>_. Background)) (Attachments demo_missing)) g))))" for b g
    by (intro fails_with_multipart) (simp add: randomBoundary_def good_hex demo_env_def)
  then have "fails healthy (write_body demo_env (\<lambda>_. Background) demo_missing)" by (simp add: write_body_def Let_def m)
  moreover have "succeeds healthy (writeHeaders demo_env h)" for h by (rule succeeds_writeHeaders)
  ultimately have "fails healthy (andthen (writeHeaders demo_env h) (andthen (write_body demo_env (\<lambda>_. Background) demo_missing) g))" for h g
    by (intro fails_andthen2 fails_andthen1)
  moreover obtain i where "newMessageID demo_env (Email (From demo_missing)) = Inr i"
    using newMessageID_ok [of demo_env "Email (From demo_missing)"] by (auto simp: demo_env_def)
  ultimately show ?thesis using demo_ready(1) by (fastforce simp: writeMIME_def fails_def)
qed

theorem smtp_failed_message_sent_witness:
  "\<exists>e d p. SMTP_Send demo_server demo_env None (\<lambda>_. Background) 0 demo_sender demo_missing = Some (Inl e, d)
     \<and> hist d = p @ [Data, CloseData, CloseClient, StopWatch, CloseConn] \<and> Rcpt ''b@x'' \<in> set p"
proof -
  have v: "validateMessage (env_mail demo_env) demo_missing = None"
    using demo_mail_valid unfolding validateMessage_None by (simp add: demo_missing_def)
  let ?d1 = "\<lparr>hist = setup_calls None demo_sender, data_out = [], mid = []\<rparr>"
  obtain d2 where d2: "envelope demo_server demo_sender demo_missing ?d1 = Some (None, d2)"
    using envelope_agreeable [OF demo_server_ok(1,2), of demo_missing ?d1] by auto
  obtain e k where "writeMIME demo_env (\<lambda>_. Background) demo_missing demo_sink = Some (Inl e, k)" using demo_missing_fails by blast
  moreover have "(data_stream demo_server h)\<lparr>out := []\<rparr> = demo_sink" for h by (simp add: demo_server_def demo_sink_def)
  ultimately obtain d3 where "send_data demo_server demo_env (\<lambda>_. Background) demo_missing d2 = Some (Some e, d3)"
    by (simp add: send_data_def Let_def)
  with d2 have "session demo_server demo_env (\<lambda>_. Background) demo_sender demo_missing ?d1 = Some (Some e, d3)"
    unfolding session_envelope by (simp add: andthen_def)
  then obtain d where r: "SMTP_Send demo_server demo_env None (\<lambda>_. Background) 0 demo_sender demo_missing = Some (Inl e, d)"
    by (simp add: Send_agreeable [OF demo_server_ok(1) v])
  from smtp_failed_message_sent [OF r v demo_server_ok(1,2)] r show ?thesis
    by (auto simp: demo_missing_def demo_message_def)
qed

end
