(* ===== verification/Emailx_Total.thy ===== *)
theory Emailx_Total
  imports Emailx_Smtp
begin

text \<open>
  Termination of \<^verbatim>\<open>Send\<close>. The only loops that need not end are the copies of attachment bodies: a reader
  may go on for ever. If none does, sending returns, whatever the server answers, whichever writes
  fail and however long the message is.
\<close>

section \<open>Steps that return\<close>

definition returns :: "'s action \<Rightarrow> bool" where
  "returns f \<longleftrightarrow> (\<forall>s. \<exists>e s'. f s = Some (e, s'))"

lemma returns_Some: "(\<And>s. \<exists>r. f s = Some r) \<Longrightarrow> returns f"
  unfolding returns_def by fast

lemma returns_andthen: "\<lbrakk>returns f; returns g\<rbrakk> \<Longrightarrow> returns (andthen f g)"
  unfolding returns_def andthen_def by (fastforce split: option.split)

lemma returns_wrapping: "returns f \<Longrightarrow> returns (wrapping msg f)"
  by (fastforce simp: returns_def wrapping_def)

lemma returns_each: "\<forall>x\<in>set xs. returns (f x) \<Longrightarrow> returns (each f xs)"
proof (induction xs)
  case (Cons x xs)
  then have "returns (andthen (f x) (each f xs))" by (intro returns_andthen) simp_all
  then show ?case by (simp add: returns_def)
qed (simp add: returns_def)

lemma returns_on_sink: "returns f \<Longrightarrow> returns (on_sink f)"
  by (fastforce simp: returns_def on_sink_def)

lemma returns_with_multipart: "returns f \<Longrightarrow> returns (with_multipart f)"
  by (fastforce simp: returns_def with_multipart_def)

lemma returns_closing_body: "returns f \<Longrightarrow> returns (closing_body f)"
  by (fastforce simp: returns_def closing_body_def)

lemma returns_deferred: "returns f \<Longrightarrow> returns (deferred cs f)"
  by (fastforce simp: returns_def deferred_def)

lemma returns_put: "returns (put t)"
  by (auto simp: returns_def put_def split: prod.split)

lemma returns_CreatePart: "returns (CreatePart h)"
  by (auto simp: returns_def CreatePart_def split: prod.split option.split)

lemma returns_SetBoundary: "returns (SetBoundary b)"
  by (simp add: returns_def SetBoundary_def)

lemma returns_Close: "returns Close"
  using returns_on_sink [OF returns_put] by (simp add: returns_def Close_def)

lemma returns_call: "returns (call srv c)"
  by (simp add: returns_def call_def)

lemmas returns_steps =
  returns_andthen returns_wrapping returns_on_sink returns_with_multipart returns_closing_body returns_deferred
  returns_put returns_CreatePart returns_SetBoundary returns_Close returns_call

section \<open>Writing a message\<close>

text \<open>A source of bytes that ends, in any copy the context allows.\<close>

definition stops :: "ctxs \<Rightarrow> email_cause reader \<Rightarrow> bool" where
  "stops ctxs src \<longleftrightarrow> (\<forall>k. \<exists>n. ctxs k n \<noteq> None \<or> snd (src n) \<noteq> None)"

lemma copy_stops: "stops ctxs src \<Longrightarrow> \<exists>n e w'. copyWithContext (ctxs k) wr src w = Some (n, e, w')"
  using copy_loop_ends [of 0 _ "ctxs k" src wr 0 w] unfolding stops_def copyWithContext_def copy_all_def
  by (metis le0 prod_cases3)

lemma string_stops: "stops ctxs (string_reader body)"
  using string_reader_content [of body] unfolding stops_def content_def by blast

lemma returns_quoted: "returns (writeQuotedPrintable ctxs body)"
proof (rule returns_Some)
  fix s :: sink
  obtain n e q s' where "copyWithContext (ctxs (copy_count s)) qpw_Write (string_reader body) (qp_new, begin_copy s) = Some (n, e, (q, s'))"
    using copy_stops [OF string_stops] by (metis surj_pair)
  then show "\<exists>r. writeQuotedPrintable ctxs body s = Some r"
    by (simp add: writeQuotedPrintable_def case_prod_beta Let_def)
qed

lemma returns_encode_body: "stops ctxs src \<Longrightarrow> returns (encode_body ctxs fn src)"
proof (rule returns_Some)
  fix s :: sink assume "stops ctxs src"
  then obtain n e w where "copyWithContext (ctxs (copy_count s)) encoder_Write src (NewEncoder \<lparr>writer = begin_copy s, column = 0\<rparr>) = Some (n, e, w)"
    using copy_stops [of ctxs src "copy_count s" encoder_Write "NewEncoder \<lparr>writer = begin_copy s, column = 0\<rparr>"] by blast
  then show "\<exists>r. encode_body ctxs fn src s = Some r"
    by (simp add: encode_body_def case_prod_beta Let_def)
qed

lemma returns_TextPart: "returns (writeTextPart ctxs ct body)"
  unfolding writeTextPart_def by (intro returns_steps returns_quoted)

lemma returns_Alternative: "returns (writeAlternative ctxs m)"
  unfolding writeAlternative_def by (intro returns_steps returns_TextPart)

lemma returns_BodyParts: "returns (writeBodyParts ctxs b m)"
proof -
  have "returns (andthen (CreatePart h) (on_sink (with_multipart
             (andthen (SetBoundary b) (andthen (writeAlternative ctxs m) Close)))))" for h
    by (intro returns_steps returns_Alternative)
  then show ?thesis using returns_TextPart by (simp add: writeBodyParts_def)
qed

text \<open>An attachment that returns: it has a source, and what the source gives comes to an end.\<close>

definition finite_source :: "ctxs \<Rightarrow> Attachment \<Rightarrow> bool" where
  "finite_source ctxs a \<longleftrightarrow> (case Open a of None \<Rightarrow> False | Some (Inl e) \<Rightarrow> True | Some (Inr src) \<Rightarrow> stops ctxs src)"

lemma returns_Attachment: "finite_source ctxs a \<Longrightarrow> returns (writeAttachment env ctxs a)"
proof -
  assume a: "finite_source ctxs a"
  have "returns (closing_body (andthen (wrapping msg (CreatePart h)) (on_sink (encode_body ctxs (Filename a) src))))"
    if "stops ctxs src" for msg h src
    using that by (intro returns_steps returns_encode_body)
  with a show ?thesis
    by (auto simp: returns_def writeAttachment_def finite_source_def split: option.splits sum.splits)
qed

lemma returns_body: "\<forall>a\<in>set (Attachments m). finite_source ctxs a \<Longrightarrow> returns (write_body env ctxs m)"
proof -
  assume a: "\<forall>a\<in>set (Attachments m). finite_source ctxs a"
  have "returns (with_multipart (andthen (SetBoundary b) (andthen (writeBodyParts ctxs b' m)
          (andthen (each (writeAttachment env ctxs) (Attachments m)) (wrapping msg Close)))))" for b b' msg
    by (intro returns_steps returns_each returns_BodyParts ballI returns_Attachment bspec [OF a])
  moreover have "returns (with_multipart (andthen (SetBoundary b) (andthen (writeAlternative ctxs m) (wrapping msg Close))))" for b msg
    by (intro returns_steps returns_Alternative)
  ultimately show ?thesis using returns_quoted by (simp add: write_body_def Let_def)
qed

lemma returns_MIME:
  assumes "\<forall>a\<in>set (Attachments m). finite_source ctxs a"
  shows "\<exists>r s'. writeMIME env ctxs m s = Some (r, s')"
proof -
  have f: "returns (\<lambda>s. Some (sink_Flush s))" by (auto simp: returns_def split: prod.split)
  have "returns (andthen (writeHeaders env h) (andthen (write_body env ctxs m) (wrapping msg (\<lambda>s. Some (sink_Flush s)))))" for h msg
    unfolding writeHeaders_def by (intro returns_steps returns_each ballI returns_body [OF assms] f)
  then show ?thesis by (fastforce simp: writeMIME_def returns_def split: sum.split)
qed

section \<open>Sending\<close>

lemma returns_send_data: "\<forall>a\<in>set (Attachments m). finite_source ctxs a \<Longrightarrow> returns (send_data srv env ctxs m)"
proof (rule returns_Some)
  fix d :: delivery assume "\<forall>a\<in>set (Attachments m). finite_source ctxs a"
  from returns_MIME [OF this] obtain r k where "writeMIME env ctxs m ((data_stream srv (hist d))\<lparr>out := []\<rparr>) = Some (r, k)" by blast
  then show "\<exists>r. send_data srv env ctxs m d = Some r"
    by (cases r) (simp_all add: send_data_def Let_def split: option.split)
qed

lemma returns_session: "\<forall>a\<in>set (Attachments m). finite_source ctxs a \<Longrightarrow> returns (session srv env ctxs s m)"
proof -
  assume a: "\<forall>a\<in>set (Attachments m). finite_source ctxs a"
  have "returns (start_tls srv s)"
    using returns_wrapping [OF returns_call] by (simp add: start_tls_def returns_def)
  moreover have "returns (authenticate srv s)"
    using returns_wrapping [OF returns_call] by (simp add: authenticate_def returns_def)
  ultimately show ?thesis
    unfolding session_def by (intro returns_steps returns_each ballI returns_send_data a)
qed

lemma valid_opens: "validateMessage ml m = None \<Longrightarrow> a \<in> set (Attachments m) \<Longrightarrow> Open a \<noteq> None"
  unfolding validateMessage_None attachment_loop_None by (simp add: list_all_iff)

text \<open>C26. Sending returns: if no attachment has a reader that goes on for ever (one that does is stopped by a
  context cancelled meanwhile), \<^verbatim>\<open>Send\<close> comes back with a result or an error, whatever the server
  answers to each call, whichever writes fail, and also for messages that are not valid.\<close>

theorem smtp_returns:
  assumes "\<forall>a\<in>set (Attachments m). \<forall>src. Open a = Some (Inr src) \<longrightarrow> (\<forall>k. \<exists>n. ctxs k n \<noteq> None \<or> snd (src n) \<noteq> None)"
  shows "\<exists>r d. SMTP_Send srv env deadline ctxs now s m = Some (r, d)"
proof (cases "validateMessage (env_mail env) m")
  case (Some e)
  then show ?thesis by (simp add: SMTP_Send_def Let_def)
next
  case None
  with assms have a: "\<forall>a\<in>set (Attachments m). finite_source ctxs a"
    using valid_opens [OF None] by (auto simp: finite_source_def stops_def split: option.split sum.split)
  from returns_deferred [OF returns_session [OF a]] obtain e d where
    "deferred [CloseClient] (session srv env ctxs s m) (fresh (setup_calls deadline s)) = Some (e, d)"
    unfolding returns_def by blast
  then obtain e d where c: "connected srv env deadline ctxs s m = Some (e, d)"
    unfolding connected_client by (cases "answer srv (butlast (setup_calls deadline s)) (NewClient (Host (options s)))") auto
  show ?thesis
  proof (cases "answer srv [] (dial_call s)")
    case None
    with c show ?thesis by (simp add: Send_connected(2) [OF \<open>validateMessage (env_mail env) m = None\<close>])
  next
    case (Some x)
    with Send_connected(1) [OF \<open>validateMessage (env_mail env) m = None\<close>] show ?thesis by blast
  qed
qed

text \<open>An endless attachment under a context that is cancelled while it is read.\<close>

theorem smtp_returns_witness:
  "\<exists>r d. SMTP_Send demo_server demo_env None (\<lambda>_ i. if i = 7 then Some Canceled else None) 0 demo_sender
     (demo_message\<lparr>Attachments := [\<lparr>Filename = ''f'', ContentType = [], Open = Some (Inr (\<lambda>_. ([0], None)))\<rparr>]\<rparr>) = Some (r, d)"
  by (rule smtp_returns) auto

end
