(* ===== verification/Go_Path.thy ===== *)
theory Go_Path
  imports Go_Strings
begin

text \<open>
  Slash-separated paths: \<^verbatim>\<open>path.Clean\<close>, and \<^verbatim>\<open>filepath.Join\<close> and \<^verbatim>\<open>filepath.Abs\<close> as they are on Unix.
  \<^verbatim>\<open>Clean\<close> is stated by its documented rules on the segments between slashes: drop empty and \<^verbatim>\<open>.\<close>
  segments, let \<^verbatim>\<open>..\<close> remove the segment before it, and keep a leading \<^verbatim>\<open>..\<close> only in a relative path.
\<close>

definition clean_step :: "bool \<Rightarrow> string list \<Rightarrow> string \<Rightarrow> string list" where
  "clean_step rooted st seg =
     (if seg = [] \<or> seg = ''.'' then st
      else if seg = ''..'' then
        (case st of
           [] \<Rightarrow> if rooted then [] else [''..'']
         | t # ts \<Rightarrow> if t = ''..'' then ''..'' # st else ts)
      else seg # st)"

definition rooted :: "string \<Rightarrow> bool" where
  "rooted p \<longleftrightarrow> p \<noteq> [] \<and> hd p = CHR ''/''"

definition Clean :: "string \<Rightarrow> string" where
  "Clean p =
     (if p = [] then ''.''
      else (let st = rev (foldl (clean_step (rooted p)) [] (Split p CHR ''/''))
            in if rooted p then CHR ''/'' # Join st ''/''
               else if st = [] then ''.'' else Join st ''/''))"

definition path_Join :: "string list \<Rightarrow> string" where
  "path_Join elems =
     (let es = dropWhile (\<lambda>e. e = []) elems in if es = [] then [] else Clean (Join es ''/''))"

definition Abs :: "string \<Rightarrow> string \<Rightarrow> string" where
  "Abs cwd p = (if rooted p then Clean p else path_Join [cwd, p])"

text \<open>\<^verbatim>\<open>filepath.Dir\<close>: the path up to its last slash, cleaned.\<close>

definition path_Dir :: "string \<Rightarrow> string" where
  "path_Dir p = Clean (rev (dropWhile (\<lambda>c. c \<noteq> CHR ''/'') (rev p)))"

text \<open>The directory entries a path names, one after the other.\<close>

definition path_segs :: "string \<Rightarrow> string list" where
  "path_segs p = filter (\<lambda>w. w \<noteq> []) (Split p CHR ''/'')"

definition plain_seg :: "string \<Rightarrow> bool" where
  "plain_seg w \<longleftrightarrow> w \<noteq> [] \<and> w \<noteq> ''.'' \<and> w \<noteq> ''..''"

section \<open>Lemmas\<close>

lemma foldl_clean_plain:
  "\<forall>w\<in>set ws. w \<noteq> ''.'' \<and> w \<noteq> ''..'' \<Longrightarrow>
   foldl (clean_step r) st ws = rev (filter (\<lambda>w. w \<noteq> []) ws) @ st"
  by (induction ws arbitrary: st) (auto simp: clean_step_def)

lemma clean_step_rooted: "\<forall>w\<in>set st. plain_seg w \<Longrightarrow> \<forall>w\<in>set (clean_step True st seg). plain_seg w"
  by (cases st) (simp_all add: clean_step_def plain_seg_def)

lemma foldl_clean_rooted:
  "\<forall>w\<in>set st. plain_seg w \<Longrightarrow> \<forall>w\<in>set (foldl (clean_step True) st ws). plain_seg w"
proof (induction ws arbitrary: st)
  case (Cons w ws)
  then show ?case using clean_step_rooted [OF Cons.prems, of w] by (simp del: ball_simps)
qed simp

lemma foldl_clean_no_slash:
  "\<lbrakk>\<forall>w\<in>set ws. c \<notin> set w; \<forall>w\<in>set st. c \<notin> set w; c \<noteq> CHR ''.''\<rbrakk> \<Longrightarrow>
   \<forall>w\<in>set (foldl (clean_step r) st ws). c \<notin> set w"
proof (induction ws arbitrary: st)
  case (Cons w ws)
  have "\<forall>v\<in>set (clean_step r st w). c \<notin> set v"
    using Cons.prems by (cases st) (simp_all add: clean_step_def)
  then show ?case using Cons.IH [of "clean_step r st w"] Cons.prems by simp
qed simp

lemma path_segs_slash [simp]: "path_segs (CHR ''/'' # p) = path_segs p"
  by (simp add: path_segs_def)

lemma Split_append_slash: "Split (p @ c # q) c = Split p c @ Split q c"
proof (induction p)
  case (Cons x xs)
  obtain w ws where "Split xs c = w # ws" by (cases "Split xs c") auto
  with Cons show ?case by auto
qed simp

lemma path_segs_append: "path_segs (p @ CHR ''/'' # q) = path_segs p @ path_segs q"
  by (simp add: path_segs_def Split_append_slash)

lemma path_segs_Join:
  "\<forall>w\<in>set ws. w \<noteq> [] \<and> CHR ''/'' \<notin> set w \<Longrightarrow> path_segs (Join ws ''/'') = ws"
proof (cases "ws = []")
  case False
  assume "\<forall>w\<in>set ws. w \<noteq> [] \<and> CHR ''/'' \<notin> set w"
  with False have "Split (Join ws ''/'') CHR ''/'' = ws" "filter (\<lambda>w. w \<noteq> []) ws = ws"
    by (auto intro: Split_Join simp: filter_id_conv)
  then show ?thesis by (simp add: path_segs_def)
qed (simp add: path_segs_def)

lemma Clean_rooted: "rooted p \<Longrightarrow> rooted (Clean p)"
  by (auto simp: Clean_def rooted_def Let_def)

lemma path_segs_Clean_rooted:
  "rooted p \<Longrightarrow> path_segs (Clean p) = rev (foldl (clean_step True) [] (Split p CHR ''/''))"
proof -
  assume r: "rooted p"
  let ?st = "foldl (clean_step True) [] (Split p CHR ''/'')"
  have "\<forall>w\<in>set ?st. plain_seg w" by (rule foldl_clean_rooted) simp
  moreover have "\<forall>w\<in>set ?st. CHR ''/'' \<notin> set w"
    by (rule foldl_clean_no_slash) (auto dest: Split_segment_no_sep)
  ultimately have "path_segs (Join (rev ?st) ''/'') = rev ?st"
    by (intro path_segs_Join) (auto simp: plain_seg_def)
  with r show ?thesis by (simp add: Clean_def Let_def rooted_def)
qed

text \<open>A cleaned absolute path has no dot segments, and cleaning a path without them changes no
  segment.\<close>

lemma path_segs_Clean_plain: "rooted p \<Longrightarrow> \<forall>w\<in>set (path_segs (Clean p)). plain_seg w"
  using foldl_clean_rooted [of "[]" "Split p CHR ''/''"] by (simp add: path_segs_Clean_rooted)

lemma path_segs_Clean_same:
  "\<lbrakk>rooted p; \<forall>w\<in>set (path_segs p). plain_seg w\<rbrakk> \<Longrightarrow> path_segs (Clean p) = path_segs p"
proof -
  assume r: "rooted p" and pl: "\<forall>w\<in>set (path_segs p). plain_seg w"
  then have "\<forall>w\<in>set (Split p CHR ''/''). w \<noteq> ''.'' \<and> w \<noteq> ''..''"
    by (auto simp: path_segs_def plain_seg_def)
  from foldl_clean_plain [OF this, of True "[]"] show ?thesis
    unfolding path_segs_Clean_rooted [OF r] by (simp add: path_segs_def)
qed

lemma Clean_id:
  assumes "p \<noteq> []" "\<forall>w\<in>set (Split p CHR ''/''). plain_seg w"
  shows "Clean p = p" "\<not> rooted p"
proof -
  show nr: "\<not> rooted p"
  proof
    assume "rooted p"
    then have "[] \<in> set (Split p CHR ''/'')" by (cases p) (simp_all add: rooted_def)
    with assms(2) show False by (auto simp: plain_seg_def)
  qed
  have "\<forall>w\<in>set (Split p CHR ''/''). w \<noteq> ''.'' \<and> w \<noteq> ''..''" "filter (\<lambda>w. w \<noteq> []) (Split p CHR ''/'') = Split p CHR ''/''"
    using assms(2) by (auto simp: plain_seg_def filter_id_conv)
  with foldl_clean_plain [OF this(1), of False "[]"] nr assms(1) show "Clean p = p"
    by (simp add: Clean_def Join_Split)
qed

lemma Abs_rooted: "rooted cwd \<Longrightarrow> rooted (Abs cwd p)"
proof -
  assume "rooted cwd"
  moreover from this have "rooted (Join [cwd, p] ''/'')" by (auto simp: rooted_def)
  ultimately show ?thesis
    using Clean_rooted [of p] Clean_rooted [of "Join [cwd, p] ''/''"]
    by (auto simp: Abs_def path_Join_def Let_def rooted_def)
qed

lemma Abs_plain: "rooted cwd \<Longrightarrow> \<forall>w\<in>set (path_segs (Abs cwd p)). plain_seg w"
proof -
  assume c: "rooted cwd"
  then have "rooted (Join [cwd, p] ''/'')" "dropWhile (\<lambda>e. e = []) [cwd, p] = [cwd, p]" by (auto simp: rooted_def)
  then show ?thesis
    using path_segs_Clean_plain [of p] path_segs_Clean_plain [of "Join [cwd, p] ''/''"]
    by (simp add: Abs_def path_Join_def)
qed

lemma Clean_shape:
  "\<lbrakk>rooted p; \<forall>w\<in>set (path_segs p). plain_seg w\<rbrakk> \<Longrightarrow> Clean p = CHR ''/'' # Join (path_segs p) ''/''"
proof -
  assume r: "rooted p" and pl: "\<forall>w\<in>set (path_segs p). plain_seg w"
  then have "\<forall>w\<in>set (Split p CHR ''/''). w \<noteq> ''.'' \<and> w \<noteq> ''..''"
    by (auto simp: path_segs_def plain_seg_def)
  from foldl_clean_plain [OF this, of True "[]"] r show ?thesis
    by (simp add: Clean_def Let_def rooted_def path_segs_def)
qed

lemma path_segs_no_slash: "w \<in> set (path_segs p) \<Longrightarrow> CHR ''/'' \<notin> set w"
  by (auto simp: path_segs_def dest: Split_segment_no_sep)

lemma Join_snoc: "ws \<noteq> [] \<Longrightarrow> Join (ws @ [w]) sep = Join ws sep @ sep @ w"
  by (induction ws sep rule: Join.induct) auto

lemma path_segs_Dir:
  assumes "rooted p" "\<forall>w\<in>set (path_segs p). plain_seg w" "path_segs p = ws @ [w]"
  shows "path_segs (path_Dir (Clean p)) = ws"
proof -
  have w: "CHR ''/'' \<notin> set w" using path_segs_no_slash [of w p] assms(3) by simp
  have ws: "\<forall>v\<in>set ws. v \<noteq> [] \<and> CHR ''/'' \<notin> set v"
    using path_segs_no_slash [of _ p] assms(2,3) by (auto simp: plain_seg_def)
  define q where "q = (if ws = [] then [] else CHR ''/'' # Join ws ''/'')"
  have "Clean p = q @ CHR ''/'' # w"
    using Clean_shape [OF assms(1,2)] assms(3) by (simp add: q_def Join_snoc)
  then have d: "rev (dropWhile (\<lambda>c. c \<noteq> CHR ''/'') (rev (Clean p))) = q @ [CHR ''/'']"
    using w by (subst \<open>Clean p = _\<close>, subst rev_append, simp, subst dropWhile_append_stop) auto
  have "path_segs (q @ [CHR ''/'']) = ws"
    using path_segs_append [of q "[]"] path_segs_Join [OF ws] by (simp add: q_def) (simp add: path_segs_def)
  moreover have "rooted (q @ [CHR ''/''])" by (simp add: q_def rooted_def)
  ultimately show ?thesis
    using path_segs_Clean_same [of "q @ [CHR ''/'']"] assms(2,3) by (simp add: path_Dir_def d)
qed

end
