(* ===== verification/Go_Os.thy ===== *)
theory Go_Os
  imports Gox_Prelude "HOL-Library.AList" "HOL-Library.Sublist"
begin

text \<open>
  What the repository uses of package \<^verbatim>\<open>os\<close>: a tree of directories and regular files, named by the
  lists of segments of their absolute paths, and the calls on it with the error numbers they
  return on Unix. Every call takes an optional fault: an error from outside the model (no space, a
  failing disk) that the call returns instead of doing its work.
\<close>

datatype errno = ENOENT | EEXIST | ENOTDIR | EISDIR | ENOTEMPTY | EIO string

datatype node = Dir | File bytes time

type_synonym fpath = "string list"
type_synonym fs = "(fpath \<times> node) list"

abbreviation look :: "fs \<Rightarrow> fpath \<Rightarrow> node option" where
  "look fs p \<equiv> map_of fs p"

abbreviation upd :: "fpath \<Rightarrow> node \<Rightarrow> fs \<Rightarrow> fs" where
  "upd p n fs \<equiv> AList.update p n fs"

abbreviation del :: "fpath \<Rightarrow> fs \<Rightarrow> fs" where
  "del p fs \<equiv> AList.delete p fs"

text \<open>The error of walking to the directory that holds a path.\<close>

fun walk :: "fs \<Rightarrow> fpath \<Rightarrow> fpath \<Rightarrow> errno option" where
  "walk fs pre [] = None"
| "walk fs pre (w # ws) =
     (case look fs pre of
        Some Dir \<Rightarrow> walk fs (pre @ [w]) ws
      | Some (File _ _) \<Rightarrow> Some ENOTDIR
      | None \<Rightarrow> Some ENOENT)"

definition os_Stat :: "errno option \<Rightarrow> fpath \<Rightarrow> fs \<Rightarrow> errno + node" where
  "os_Stat fault p fs =
     (case fault of
        Some e \<Rightarrow> Inl e
      | None \<Rightarrow>
          (case walk fs [] p of
             Some e \<Rightarrow> Inl e
           | None \<Rightarrow> (case look fs p of None \<Rightarrow> Inl ENOENT | Some n \<Rightarrow> Inr n)))"

fun mkdirs :: "fpath \<Rightarrow> fpath \<Rightarrow> fs \<Rightarrow> errno + fs" where
  "mkdirs pre ws fs =
     (case look fs pre of
        Some (File _ _) \<Rightarrow> Inl ENOTDIR
      | n \<Rightarrow>
          (let fs = (if n = None then upd pre Dir fs else fs)
           in case ws of [] \<Rightarrow> Inr fs | w # ws \<Rightarrow> mkdirs (pre @ [w]) ws fs))"

declare mkdirs.simps [simp del]

definition os_MkdirAll :: "errno option \<Rightarrow> fpath \<Rightarrow> fs \<Rightarrow> errno + fs" where
  "os_MkdirAll fault p fs = (case fault of Some e \<Rightarrow> Inl e | None \<Rightarrow> mkdirs [] p fs)"

text \<open>Create a file that must not exist.\<close>

definition os_Create :: "errno option \<Rightarrow> fpath \<Rightarrow> time \<Rightarrow> fs \<Rightarrow> errno + fs" where
  "os_Create fault p now fs =
     (case fault of
        Some e \<Rightarrow> Inl e
      | None \<Rightarrow>
          (case walk fs [] p of
             Some e \<Rightarrow> Inl e
           | None \<Rightarrow> if look fs p = None then Inr (upd p (File [] now) fs) else Inl EEXIST))"

text \<open>Append to an open file; a fault \<open>(k, e)\<close> comes after \<open>k\<close> bytes.\<close>

definition os_append :: "(nat \<times> errno) option \<Rightarrow> fpath \<Rightarrow> time \<Rightarrow> bytes \<Rightarrow> fs \<Rightarrow> nat \<times> errno option \<times> fs" where
  "os_append fault p now d fs =
     (let old = (case look fs p of Some (File b _) \<Rightarrow> b | _ \<Rightarrow> [])
      in case fault of
           None \<Rightarrow> (length d, None, upd p (File (old @ d) now) fs)
         | Some (k, e) \<Rightarrow> (length (take k d), Some e, upd p (File (old @ take k d) now) fs))"

text \<open>Rename a file; renaming to itself changes nothing, a directory is not replaced.\<close>

definition os_Rename :: "errno option \<Rightarrow> fpath \<Rightarrow> fpath \<Rightarrow> fs \<Rightarrow> errno + fs" where
  "os_Rename fault p q fs =
     (case fault of
        Some e \<Rightarrow> Inl e
      | None \<Rightarrow>
          (case look fs p of
             None \<Rightarrow> Inl ENOENT
           | Some n \<Rightarrow>
               if look fs q = Some Dir then Inl EEXIST
               else if p = q then Inr fs
               else (case walk fs [] q of Some e \<Rightarrow> Inl e | None \<Rightarrow> Inr (upd q n (del p fs)))))"

definition has_children :: "fs \<Rightarrow> fpath \<Rightarrow> bool" where
  "has_children fs p \<longleftrightarrow> list_ex (\<lambda>(q, _). length q = Suc (length p) \<and> take (length p) q = p) fs"

definition os_Remove :: "errno option \<Rightarrow> fpath \<Rightarrow> fs \<Rightarrow> errno option \<times> fs" where
  "os_Remove fault p fs =
     (case fault of
        Some e \<Rightarrow> (Some e, fs)
      | None \<Rightarrow>
          (case walk fs [] p of
             Some e \<Rightarrow> (Some e, fs)
           | None \<Rightarrow>
               (case look fs p of
                  None \<Rightarrow> (Some ENOENT, fs)
                | Some (File _ _) \<Rightarrow> (None, del p fs)
                | Some Dir \<Rightarrow> if has_children fs p then (Some ENOTEMPTY, fs) else (None, del p fs))))"

definition os_ReadFile :: "errno option \<Rightarrow> fpath \<Rightarrow> fs \<Rightarrow> errno + bytes" where
  "os_ReadFile fault p fs =
     (case os_Stat fault p fs of
        Inl e \<Rightarrow> Inl e
      | Inr Dir \<Rightarrow> Inl EISDIR
      | Inr (File b _) \<Rightarrow> Inr b)"

text \<open>Truncate or create, then write; a fault \<open>(k, e)\<close> comes after \<open>k\<close> bytes.\<close>

definition os_WriteFile :: "(nat \<times> errno) option \<Rightarrow> fpath \<Rightarrow> time \<Rightarrow> bytes \<Rightarrow> fs \<Rightarrow> errno option \<times> fs" where
  "os_WriteFile fault p now d fs =
     (case walk fs [] p of
        Some e \<Rightarrow> (Some e, fs)
      | None \<Rightarrow>
          if look fs p = Some Dir then (Some EISDIR, fs)
          else (case fault of
                  None \<Rightarrow> (None, upd p (File d now) fs)
                | Some (k, e) \<Rightarrow> (Some e, upd p (File (take k d) now) fs)))"

text \<open>Write to an open file at an offset: what is there is overwritten, a hole before it reads as zeros. A
  file that has been removed has no name to be seen by.\<close>

definition os_write_at :: "fpath \<Rightarrow> nat \<Rightarrow> time \<Rightarrow> bytes \<Rightarrow> fs \<Rightarrow> fs" where
  "os_write_at p off now d fs =
     (case look fs p of
        Some (File b _) \<Rightarrow>
          upd p (File (take off b @ replicate (off - length b) 0 @ d @ drop (off + length d) b) now) fs
      | _ \<Rightarrow> fs)"

section \<open>Lemmas\<close>

lemma upd_upd: "upd p n (upd p m fs) = upd p n fs"
  by (induction fs) auto

lemma look_upd [simp]: "look (upd p n fs) = (look fs)(p \<mapsto> n)"
  by (rule update_conv')

lemma look_del [simp]: "look (del p fs) = (look fs)(p := None)"
  by (rule delete_conv')

lemma walk_None: "walk fs pre ws = None \<longleftrightarrow> (\<forall>u. strict_prefix u ws \<longrightarrow> look fs (pre @ u) = Some Dir)"
proof (induction ws arbitrary: pre)
  case (Cons w ws)
  have "(\<forall>u. strict_prefix u (w # ws) \<longrightarrow> look fs (pre @ u) = Some Dir) \<longleftrightarrow>
        look fs pre = Some Dir \<and> (\<forall>u. strict_prefix u ws \<longrightarrow> look fs ((pre @ [w]) @ u) = Some Dir)"
  proof (intro iffI conjI allI impI)
    assume a: "\<forall>u. strict_prefix u (w # ws) \<longrightarrow> look fs (pre @ u) = Some Dir"
    from a [rule_format, of "[]"] show "look fs pre = Some Dir" by simp
    fix u assume "strict_prefix u ws"
    with a [rule_format, of "w # u"] show "look fs ((pre @ [w]) @ u) = Some Dir" by simp
  next
    fix u assume a: "look fs pre = Some Dir \<and> (\<forall>u. strict_prefix u ws \<longrightarrow> look fs ((pre @ [w]) @ u) = Some Dir)"
      and u: "strict_prefix u (w # ws)"
    then show "look fs (pre @ u) = Some Dir" by (cases u) auto
  qed
  with Cons show ?case by (auto split: option.split node.split)
qed simp

lemma mkdirs_Inr:
  "mkdirs pre ws fs = Inr fs' \<Longrightarrow>
   look fs' q = (if prefix pre q \<and> prefix q (pre @ ws) then Some Dir else look fs q)"
proof (induction ws arbitrary: pre fs)
  case Nil
  then show ?case
    by (subst (asm) mkdirs.simps) (auto simp: Let_def dest: prefix_order.antisym split: option.splits node.splits if_splits)
next
  case (Cons w ws)
  have p: "prefix pre q \<and> prefix q (pre @ w # ws) \<longleftrightarrow> q = pre \<or> (prefix (pre @ [w]) q \<and> prefix q ((pre @ [w]) @ ws))"
    by (auto simp: prefix_def Cons_eq_append_conv append_eq_Cons_conv)
  define fs1 where "fs1 = (if look fs pre = None then upd pre Dir fs else fs)"
  have "mkdirs (pre @ [w]) ws fs1 = Inr fs'" "look fs1 = (look fs)(pre \<mapsto> Dir)"
    using Cons.prems unfolding mkdirs.simps [of pre "w # ws" fs] fs1_def
    by (auto simp: Let_def fun_upd_idem split: option.splits node.splits)
  with Cons.IH [of "pre @ [w]" fs1] show ?case unfolding p by (auto simp: prefix_def)
qed

lemma mkdirs_ok:
  "(\<forall>u. prefix u ws \<longrightarrow> (\<forall>d t. look fs (pre @ u) \<noteq> Some (File d t))) \<Longrightarrow> \<exists>fs'. mkdirs pre ws fs = Inr fs'"
proof (induction ws arbitrary: pre fs)
  case Nil
  then have "look fs pre \<noteq> Some (File d t)" for d t by auto
  then show ?case by (subst mkdirs.simps) (auto simp: Let_def split: option.split node.split)
next
  case (Cons w ws)
  have h: "look fs pre \<noteq> Some (File d t)" for d t using Cons.prems [rule_format, of "[]"] by simp
  have "\<exists>fs'. mkdirs (pre @ [w]) ws fs1 = Inr fs'" if "look fs1 = (look fs)(pre \<mapsto> Dir)" for fs1
  proof (intro Cons.IH allI impI)
    fix u d t assume "prefix u ws"
    with Cons.prems [rule_format, of "w # u"] that show "look fs1 ((pre @ [w]) @ u) \<noteq> Some (File d t)" by auto
  qed
  with h show ?case
    by (subst mkdirs.simps) (auto simp: Let_def fun_upd_idem split: option.split node.split)
qed

lemma has_children_iff: "has_children fs p \<longleftrightarrow> (\<exists>w. look fs (p @ [w]) \<noteq> None)"
proof -
  have "length q = Suc (length p) \<and> take (length p) q = p \<longleftrightarrow> (\<exists>w. q = p @ [w])" for q :: fpath
    by (metis append_eq_conv_conj append_take_drop_id length_Suc_conv_rev length_append_singleton butlast_conv_take diff_Suc_1 butlast_snoc)
  then have "has_children fs p \<longleftrightarrow> (\<exists>q\<in>fst ` set fs. \<exists>w. q = p @ [w])"
    by (force simp: has_children_def list_ex_iff)
  then show ?thesis unfolding map_of_eq_None_iff not_not by metis
qed

lemma mkdirs_no_file:
  "\<lbrakk>mkdirs pre ws fs = Inr fs'; prefix u ws\<rbrakk> \<Longrightarrow> look fs (pre @ u) \<noteq> Some (File d t)"
proof (induction ws arbitrary: pre fs u)
  case Nil
  then show ?case by (subst (asm) mkdirs.simps) auto
next
  case (Cons w ws)
  define fs1 where "fs1 = (if look fs pre = None then upd pre Dir fs else fs)"
  have 1: "mkdirs (pre @ [w]) ws fs1 = Inr fs'" "look fs1 = (look fs)(pre \<mapsto> Dir)" "look fs pre \<noteq> Some (File d t)"
    using Cons.prems(1) unfolding mkdirs.simps [of pre "w # ws" fs] fs1_def
    by (auto simp: Let_def fun_upd_idem split: option.splits node.splits)
  show ?case
  proof (cases u)
    case (Cons v u')
    with Cons.prems(2) have "v = w" "prefix u' ws" by auto
    with Cons.IH [OF 1(1), of u'] 1(2) Cons show ?thesis by auto
  qed (use 1(3) in simp)
qed

lemma os_MkdirAll_look:
  "os_MkdirAll f p fs = Inr fs' \<Longrightarrow> look fs' q = (if prefix q p then Some Dir else look fs q)"
  using mkdirs_Inr [of "[]" p fs fs' q] by (auto simp: os_MkdirAll_def split: option.splits)

lemma os_MkdirAll_no_file:
  "\<lbrakk>os_MkdirAll f p fs = Inr fs'; prefix q p\<rbrakk> \<Longrightarrow> look fs q \<noteq> Some (File d t)"
  using mkdirs_no_file [of "[]" p fs fs' q] by (auto simp: os_MkdirAll_def split: option.splits)

lemma os_Create_Inr [result_iff]:
  "os_Create f p now fs = Inr fs' \<longleftrightarrow>
     f = None \<and> walk fs [] p = None \<and> look fs p = None \<and> fs' = upd p (File [] now) fs"
  by (auto simp: os_Create_def split: option.splits)

lemma os_Rename_Inr [result_iff]:
  "os_Rename f p q fs = Inr fs' \<longleftrightarrow>
     f = None \<and> look fs q \<noteq> Some Dir \<and>
     (\<exists>n. look fs p = Some n \<and> (if p = q then fs' = fs else walk fs [] q = None \<and> fs' = upd q n (del p fs)))"
  by (auto simp: os_Rename_def split: option.splits)

lemma os_Stat_Inr [result_iff]: "os_Stat f p fs = Inr n \<longleftrightarrow> f = None \<and> walk fs [] p = None \<and> look fs p = Some n"
  by (auto simp: os_Stat_def split: option.splits)

lemma os_Remove_look:
  "look (snd (os_Remove f p fs)) q = look fs q \<or> q = p \<and> look (snd (os_Remove f p fs)) q = None"
  by (auto simp: os_Remove_def split: option.split node.split)

lemma os_Remove_file:
  "\<lbrakk>walk fs [] p = None; look fs p = Some (File b t)\<rbrakk> \<Longrightarrow> os_Remove None p fs = (None, del p fs)"
  by (simp add: os_Remove_def)

lemma walk_cong: "(\<And>u. strict_prefix u p \<Longrightarrow> look fs u = Some Dir \<Longrightarrow> look fs' u = Some Dir) \<Longrightarrow>
  walk fs [] p = None \<Longrightarrow> walk fs' [] p = None"
  by (auto simp: walk_None)

text \<open>A tree: the root is a directory and so is whatever contains something.\<close>

definition is_tree :: "fs \<Rightarrow> bool" where
  "is_tree fs \<longleftrightarrow> look fs [] = Some Dir \<and> (\<forall>p w. look fs (p @ [w]) \<noteq> None \<longrightarrow> look fs p = Some Dir)"

definition is_file :: "fs \<Rightarrow> fpath \<Rightarrow> bool" where
  "is_file fs p \<longleftrightarrow> (\<exists>b t. look fs p = Some (File b t))"

lemma tree_parents: "\<lbrakk>is_tree fs; look fs p \<noteq> None; strict_prefix u p\<rbrakk> \<Longrightarrow> look fs u = Some Dir"
proof (induction p arbitrary: u rule: rev_induct)
  case (snoc w p)
  have d: "look fs p = Some Dir" using snoc.prems(1,2) by (auto simp: is_tree_def)
  from snoc.prems(3) have "u = p \<or> strict_prefix u p" by (auto simp: strict_prefix_def)
  with d snoc.IH [of u] snoc.prems(1) show ?case by auto
qed simp

lemma tree_walk: "\<lbrakk>is_tree fs; look fs p \<noteq> None\<rbrakk> \<Longrightarrow> walk fs [] p = None"
  using tree_parents by (auto simp: walk_None)

lemma walk_no_file:
  "(\<And>u. strict_prefix u ws \<Longrightarrow> \<not> is_file fs (pre @ u)) \<Longrightarrow> walk fs pre ws = None \<or> walk fs pre ws = Some ENOENT"
proof (induction ws arbitrary: pre)
  case (Cons w ws)
  from Cons.prems [of "[]"] have "\<not> is_file fs pre" by simp
  moreover have "walk fs (pre @ [w]) ws = None \<or> walk fs (pre @ [w]) ws = Some ENOENT"
  proof (rule Cons.IH)
    fix u assume "strict_prefix u ws"
    then show "\<not> is_file fs ((pre @ [w]) @ u)" using Cons.prems [of "w # u"] by simp
  qed
  ultimately show ?case by (auto simp: is_file_def split: option.split node.split)
qed simp

lemma os_MkdirAll_ok: "(\<And>u. prefix u p \<Longrightarrow> \<not> is_file fs u) \<Longrightarrow> \<exists>fs'. os_MkdirAll None p fs = Inr fs'"
  using mkdirs_ok [of p fs "[]"] by (auto simp: os_MkdirAll_def is_file_def)

lemma os_Stat_missing:
  "\<lbrakk>\<And>u. strict_prefix u p \<Longrightarrow> \<not> is_file fs u; look fs p = None\<rbrakk> \<Longrightarrow> os_Stat None p fs = Inl ENOENT"
  using walk_no_file [of p fs "[]"] by (auto simp: os_Stat_def)

text \<open>Removing what is not a directory.\<close>

lemma os_Remove_plain:
  assumes "is_tree fs" "\<And>u. strict_prefix u p \<Longrightarrow> \<not> is_file fs u" "look fs p \<noteq> Some Dir"
  shows "\<exists>e fs'. os_Remove None p fs = (e, fs') \<and> (e = None \<or> e = Some ENOENT) \<and> look fs' = (look fs)(p := None)"
proof (cases "look fs p")
  case None
  then show ?thesis using walk_no_file [of p fs "[]"] assms(2) by (auto simp: os_Remove_def fun_upd_idem)
next
  case (Some n)
  with assms(3) obtain b t where "look fs p = Some (File b t)" by (cases n) auto
  with tree_walk [OF assms(1), of p] show ?thesis by (simp add: os_Remove_def)
qed

lemma tree_remove_leaf:
  "\<lbrakk>is_tree fs; look fs p \<noteq> Some Dir; look fs' = (look fs)(p := None)\<rbrakk> \<Longrightarrow> is_tree fs'"
  unfolding is_tree_def by (metis fun_upd_apply)

end
