(* ===== verification/Blobx.thy ===== *)
theory Blobx
  imports Go_Path Go_Io Go_Hex Go_Os
begin

text \<open>
  Package \<^verbatim>\<open>blobx\<close>: object keys and the \<^verbatim>\<open>Store\<close> interface (\<^verbatim>\<open>blob.go\<close>) as the locale \<open>blob_store\<close>, the
  copy loop of \<^verbatim>\<open>file.go\<close>, the in-memory store (\<^verbatim>\<open>testing.go\<close>), and the contract suite
  (\<^verbatim>\<open>internal/blobtest\<close>), a client of the interface. SHA-256 is the argument \<open>sha\<close>: nothing below
  depends on which digest it is.
\<close>

datatype blob_cause = Errno errno | ReaderError string | JSONError string | APIError string | OtherError string

type_synonym blob_error = "blob_cause goerr"

definition ErrNotFound :: blob_error where
  "ErrNotFound = Sentinel ''blobx: object not found''"

record Object =
  Key :: string
  Size :: nat
  ContentType :: string
  ETag :: string
  LastModified :: time

record PutOptions =
  Opt_ContentType :: string

record PresignOptions =
  Expires :: duration

type_synonym body = "blob_cause reader"

section \<open>Keys\<close>

fun segment_loop :: "string list \<Rightarrow> bool" where
  "segment_loop [] = False"
| "segment_loop (segment # rest) =
     (if segment = [] \<or> segment = ''.'' \<or> segment = ''..'' then True else segment_loop rest)"

definition NormalizeKey :: "string \<Rightarrow> blob_error + string" where
  "NormalizeKey key =
     (if key = [] then Inl (New ''blobx: key is empty'')
      else if CHR 0x00 \<in> set key \<or> CHR 0x5C \<in> set key then Inl (New ''blobx: key contains invalid characters'')
      else if HasPrefix key ''/'' \<or> HasSuffix key ''/'' then Inl (New ''blobx: key must be a relative object name'')
      else if segment_loop (Split key CHR ''/'') then Inl (New ''blobx: key contains an invalid path segment'')
      else (let normalized = Clean key
            in if normalized = ''.'' \<or> normalized \<noteq> key
               then Inl (New (''blobx: key '' @ key @ '' is not canonical''))
               else Inr normalized))"

lemma segment_loop_iff: "segment_loop ws \<longleftrightarrow> \<not> (\<forall>w\<in>set ws. plain_seg w)"
  by (induction ws) (auto simp: plain_seg_def)

text \<open>The last two checks never fail once the others have passed.\<close>

lemma NormalizeKey_Inr [result_iff]:
  "NormalizeKey key = Inr k \<longleftrightarrow>
     k = key \<and> key \<noteq> [] \<and> CHR 0x00 \<notin> set key \<and> CHR 0x5C \<notin> set key
     \<and> (\<forall>w\<in>set (Split key CHR ''/''). plain_seg w)"
proof (cases "key \<noteq> [] \<and> (\<forall>w\<in>set (Split key CHR ''/''). plain_seg w)")
  case True
  then have c: "Clean key = key" "\<not> rooted key" using Clean_id [of key] by auto
  have d: "key \<noteq> ''.''"
  proof
    assume "key = ''.''"
    then have "''.'' \<in> set (Split key CHR ''/'')" by simp
    with True show False by (auto simp: plain_seg_def)
  qed
  have "\<not> HasPrefix key ''/''" using c(2) True by (cases key) (auto simp: HasPrefix_single rooted_def)
  moreover have "\<not> HasSuffix key ''/''"
  proof
    assume "HasSuffix key ''/''"
    then obtain u where "key = u @ [CHR ''/'']" by (cases key rule: rev_cases) (auto simp: HasSuffix_single)
    then have "[] \<in> set (Split key CHR ''/'')" by (simp add: Split_append_slash)
    with True show False by (auto simp: plain_seg_def)
  qed
  ultimately show ?thesis
    using True c d by (auto simp: NormalizeKey_def segment_loop_iff Let_def split: if_splits)
next
  case False
  then show ?thesis by (auto simp: NormalizeKey_def segment_loop_iff Let_def split: if_splits)
qed

section \<open>The interface\<close>

text \<open>\<open>view s k\<close> is the content stored under \<open>k\<close>, \<open>inv\<close> the store's invariant, \<open>free s k\<close> says that
  nothing keeps the store from having an object named \<open>k\<close>, and \<open>opt_ok\<close> and \<open>src_ok\<close> which options
  and which readers the store can take.\<close>

locale blob_store =
  fixes Put :: "time \<Rightarrow> ctx \<Rightarrow> string \<Rightarrow> body option \<Rightarrow> PutOptions \<Rightarrow> 's \<Rightarrow> ((blob_error + Object) \<times> 's) run"
    and Get :: "ctx \<Rightarrow> string \<Rightarrow> 's \<Rightarrow> blob_error + bytes \<times> Object"
    and Stat :: "ctx \<Rightarrow> string \<Rightarrow> 's \<Rightarrow> blob_error + Object"
    and Delete :: "ctx \<Rightarrow> string \<Rightarrow> 's \<Rightarrow> blob_error option \<times> 's"
    and view :: "'s \<Rightarrow> string \<Rightarrow> bytes option"
    and inv :: "'s \<Rightarrow> bool"
    and free :: "'s \<Rightarrow> string \<Rightarrow> bool"
    and opt_ok :: "time \<Rightarrow> PutOptions \<Rightarrow> bool"
    and src_ok :: "body \<Rightarrow> bool"
  assumes put: "\<lbrakk>inv s; NormalizeKey k = Inr k; free s k; ends_at src n; opt_ok now opts; src_ok src\<rbrakk> \<Longrightarrow>
      \<exists>ob s'. Put now Background k (Some src) opts s = Return (Inr ob, s')
        \<and> inv s' \<and> free s' k \<and> view s' = (view s)(k \<mapsto> delivered src (Suc n))
        \<and> Stat Background k s' = Inr ob
        \<and> (Opt_ContentType opts \<noteq> [] \<longrightarrow> ContentType ob = Opt_ContentType opts)"
    and stat: "\<lbrakk>inv s; NormalizeKey k = Inr k; free s k; view s k = Some d\<rbrakk> \<Longrightarrow>
      \<exists>ob. Stat Background k s = Inr ob \<and> Get Background k s = Inr (d, ob) \<and> Key ob = k \<and> Size ob = length d"
    and missing: "\<lbrakk>inv s; NormalizeKey k = Inr k; free s k; view s k = None\<rbrakk> \<Longrightarrow>
      \<exists>e e'. Stat Background k s = Inl e \<and> errors_Is e ErrNotFound
        \<and> Get Background k s = Inl e' \<and> errors_Is e' ErrNotFound"
    and delete: "\<lbrakk>inv s; NormalizeKey k = Inr k; free s k\<rbrakk> \<Longrightarrow>
      \<exists>s'. Delete Background k s = (None, s') \<and> inv s' \<and> free s' k \<and> view s' = (view s)(k := None)"
    and bad_key: "NormalizeKey k = Inl e \<Longrightarrow>
      Put now Background k b opts s = Return (Inl e, s) \<and> Get Background k s = Inl e
      \<and> Stat Background k s = Inl e \<and> Delete Background k s = (Some e, s)"

section \<open>The contract suite\<close>

text \<open>\<^verbatim>\<open>blobtest.Run\<close>: the value is whether the test reaches its end. \<open>buffer_string\<close> is
  \<^verbatim>\<open>bytes.NewBufferString\<close>, a reader that delivers the bytes in one piece.\<close>

definition buffer_string :: "string \<Rightarrow> body" where
  "buffer_string s = chunks [bytes_of s]"

definition not_found :: "blob_error + 'a \<Rightarrow> bool" where
  "not_found r \<longleftrightarrow> (case r of Inl e \<Rightarrow> errors_Is e ErrNotFound | Inr _ \<Rightarrow> False)"

definition blobtest_Run ::
  "(time \<Rightarrow> ctx \<Rightarrow> string \<Rightarrow> body option \<Rightarrow> PutOptions \<Rightarrow> 's \<Rightarrow> ((blob_error + Object) \<times> 's) run) \<Rightarrow>
   (ctx \<Rightarrow> string \<Rightarrow> 's \<Rightarrow> blob_error + bytes \<times> Object) \<Rightarrow> (ctx \<Rightarrow> string \<Rightarrow> 's \<Rightarrow> blob_error + Object) \<Rightarrow>
   (ctx \<Rightarrow> string \<Rightarrow> 's \<Rightarrow> blob_error option \<times> 's) \<Rightarrow> time \<Rightarrow> 's \<Rightarrow> bool" where
  "blobtest_Run Put Get Stat Delete now s \<longleftrightarrow>
     not_found (Stat Background ''missing.txt'' s) \<and>
     (case Put now Background ''folder/object.txt'' (Some (buffer_string ''first'')) \<lparr>Opt_ContentType = ''text/plain''\<rparr> s of
        Return (Inr first, s) \<Rightarrow>
          Key first = ''folder/object.txt'' \<and> Size first = 5 \<and>
          (case Get Background (Key first) s of
             Inr (data, info) \<Rightarrow> data = bytes_of ''first'' \<and> Size info = 5
           | Inl _ \<Rightarrow> False) \<and>
          (case Put now Background (Key first) (Some (buffer_string ''replacement'')) \<lparr>Opt_ContentType = []\<rparr> s of
             Return (Inr _, s) \<Rightarrow>
               (case Get Background (Key first) s of
                  Inr (data, info) \<Rightarrow> data = bytes_of ''replacement''
                | Inl _ \<Rightarrow> False) \<and>
               (case Delete Background (Key first) s of
                  (None, s) \<Rightarrow>
                    not_found (Get Background (Key first) s) \<and> fst (Delete Background (Key first) s) = None
                | (Some _, s) \<Rightarrow> False)
           | _ \<Rightarrow> False)
      | _ \<Rightarrow> False)"

lemma buffer_string_ends: "ends_at (buffer_string s) 1"
  using chunks_ends [of "[bytes_of s]"] by (simp add: buffer_string_def)

lemma buffer_string_delivered: "delivered (buffer_string s) (Suc 1) = bytes_of s"
  by (simp add: delivered_def buffer_string_def chunks_def)

lemma contract_keys:
  "NormalizeKey ''missing.txt'' = Inr ''missing.txt''" "NormalizeKey ''folder/object.txt'' = Inr ''folder/object.txt''"
  by (simp_all add: NormalizeKey_Inr plain_seg_def)

context blob_store
begin

lemma put_string:
  assumes "inv s" "NormalizeKey k = Inr k" "free s k" "opt_ok now opts" "src_ok (buffer_string c)"
  obtains ob s' where "Put now Background k (Some (buffer_string c)) opts s = Return (Inr ob, s')"
    "inv s'" "free s' k" "view s' = (view s)(k \<mapsto> bytes_of c)" "Key ob = k" "Size ob = length c"
    "Get Background k s' = Inr (bytes_of c, ob)"
proof -
  from put [OF assms(1-3) buffer_string_ends assms(4,5)] obtain ob s' where
    p: "Put now Background k (Some (buffer_string c)) opts s = Return (Inr ob, s')"
    "inv s'" "free s' k" "view s' = (view s)(k \<mapsto> bytes_of c)" "Stat Background k s' = Inr ob"
    unfolding buffer_string_delivered by blast
  with stat [of s' k "bytes_of c"] assms(2) show ?thesis by (intro that [OF p(1-4)]) auto
qed

lemma contract:
  assumes "inv s" "free s ''missing.txt''" "view s ''missing.txt'' = None" "free s ''folder/object.txt''"
    and "opt_ok now \<lparr>Opt_ContentType = ''text/plain''\<rparr>" "opt_ok now \<lparr>Opt_ContentType = []\<rparr>"
    and "src_ok (buffer_string ''first'')" "src_ok (buffer_string ''replacement'')"
  shows "blobtest_Run Put Get Stat Delete now s"
proof -
  let ?k = "''folder/object.txt''"
  have nf: "not_found (Stat Background ''missing.txt'' s)"
    using missing [of s "''missing.txt''"] assms contract_keys by (auto simp: not_found_def)
  obtain o1 s1 where 1: "Put now Background ?k (Some (buffer_string ''first'')) \<lparr>Opt_ContentType = ''text/plain''\<rparr> s = Return (Inr o1, s1)"
    "inv s1" "free s1 ?k" "Key o1 = ?k" "Size o1 = 5" "Get Background ?k s1 = Inr (bytes_of ''first'', o1)"
    by (rule put_string [OF assms(1) contract_keys(2) assms(4,5,7)]) auto
  obtain o2 s2 where 2: "Put now Background ?k (Some (buffer_string ''replacement'')) \<lparr>Opt_ContentType = []\<rparr> s1 = Return (Inr o2, s2)"
    "inv s2" "free s2 ?k" "Get Background ?k s2 = Inr (bytes_of ''replacement'', o2)"
    by (rule put_string [OF 1(2) contract_keys(2) 1(3) assms(6,8)]) auto
  from delete [OF 2(2) contract_keys(2) 2(3)] obtain s3 where 3: "Delete Background ?k s2 = (None, s3)"
    "inv s3" "free s3 ?k" "view s3 ?k = None" by auto
  have "fst (Delete Background ?k s3) = None" "not_found (Get Background ?k s3)"
    using delete [OF 3(2) contract_keys(2) 3(3)] missing [OF 3(2) contract_keys(2) 3(3,4)]
    by (auto simp: not_found_def)
  with nf 1 2 3 show ?thesis by (simp add: blobtest_Run_def)
qed

end

section \<open>Copying\<close>

definition copyContext :: "ctx \<Rightarrow> (blob_cause, 'w) writer \<Rightarrow> body \<Rightarrow> 'w \<Rightarrow> (nat \<times> blob_error option \<times> 'w) option" where
  "copyContext ctx dst src w = copy_all ctx dst src w"

section \<open>The in-memory store\<close>

record memoryObject =
  data :: bytes
  info :: Object

record MemoryStore =
  objects :: "string \<rightharpoonup> memoryObject"

definition NewMemoryStore :: MemoryStore where
  "NewMemoryStore = \<lparr>objects = Map.empty\<rparr>"

record hashWriter =
  hw_data :: bytes

definition hashWriter_Write :: "(blob_cause, hashWriter) writer" where
  "hashWriter_Write d w = (length d, None, w\<lparr>hw_data := hw_data w @ d\<rparr>)"

definition hashWriter_Sum :: "(bytes \<Rightarrow> bytes) \<Rightarrow> hashWriter option \<Rightarrow> string" where
  "hashWriter_Sum sha w = (case w of None \<Rightarrow> [] | Some w \<Rightarrow> hex (sha (hw_data w)))"

text \<open>A nil body is only noticed when the loop reads from it: a nil dereference, unless the context
  is already cancelled.\<close>

definition MemoryStore_Put ::
  "(bytes \<Rightarrow> bytes) \<Rightarrow> time \<Rightarrow> ctx \<Rightarrow> string \<Rightarrow> body option \<Rightarrow> PutOptions \<Rightarrow> MemoryStore \<Rightarrow>
   ((blob_error + Object) \<times> MemoryStore) run" where
  "MemoryStore_Put sha now ctx key body opts s =
     (case NormalizeKey key of
        Inl e \<Rightarrow> Return (Inl e, s)
      | Inr key \<Rightarrow>
          (case body of
             None \<Rightarrow> (case ctx 0 of Some e \<Rightarrow> Return (Inl (CtxErr e), s) | None \<Rightarrow> Panic ''nil pointer dereference'')
           | Some src \<Rightarrow>
               (case copyContext ctx (MultiWriter Buffer_Write hashWriter_Write) src ([], \<lparr>hw_data = []\<rparr>) of
                  None \<Rightarrow> Diverge
                | Some (n, err, (buffer, hashing)) \<Rightarrow>
                    (case err of
                       Some e \<Rightarrow> Return (Inl e, s)
                     | None \<Rightarrow>
                         (let meta = \<lparr>Key = key, Size = n, ContentType = Opt_ContentType opts,
                                     ETag = hashWriter_Sum sha (Some hashing), LastModified = now\<rparr>
                          in Return (Inr meta, s\<lparr>objects := (objects s)(key \<mapsto> \<lparr>data = buffer, info = meta\<rparr>)\<rparr>))))))"

definition MemoryStore_Get :: "ctx \<Rightarrow> string \<Rightarrow> MemoryStore \<Rightarrow> blob_error + bytes \<times> Object" where
  "MemoryStore_Get ctx key s =
     (case ctx 0 of
        Some e \<Rightarrow> Inl (CtxErr e)
      | None \<Rightarrow>
          (case NormalizeKey key of
             Inl e \<Rightarrow> Inl e
           | Inr key \<Rightarrow>
               (case objects s key of
                  None \<Rightarrow> Inl ErrNotFound
                | Some ob \<Rightarrow> Inr (data ob, info ob))))"

definition MemoryStore_Stat :: "ctx \<Rightarrow> string \<Rightarrow> MemoryStore \<Rightarrow> blob_error + Object" where
  "MemoryStore_Stat ctx key s = (case MemoryStore_Get ctx key s of Inl e \<Rightarrow> Inl e | Inr (body, meta) \<Rightarrow> Inr meta)"

definition MemoryStore_Delete :: "ctx \<Rightarrow> string \<Rightarrow> MemoryStore \<Rightarrow> blob_error option \<times> MemoryStore" where
  "MemoryStore_Delete ctx key s =
     (case ctx 0 of
        Some e \<Rightarrow> (Some (CtxErr e), s)
      | None \<Rightarrow>
          (case NormalizeKey key of
             Inl e \<Rightarrow> (Some e, s)
           | Inr key \<Rightarrow> (None, s\<lparr>objects := (objects s)(key := None)\<rparr>)))"

definition memory_objects :: "MemoryStore \<Rightarrow> string \<Rightarrow> bytes option" where
  "memory_objects s k = (case objects s k of None \<Rightarrow> None | Some ob \<Rightarrow> Some (data ob))"

text \<open>The recorded metadata describes the stored bytes.\<close>

definition memory_ok :: "(bytes \<Rightarrow> bytes) \<Rightarrow> MemoryStore \<Rightarrow> bool" where
  "memory_ok sha s \<longleftrightarrow>
     (\<forall>k ob. objects s k = Some ob \<longrightarrow>
        Key (info ob) = k \<and> Size (info ob) = length (data ob) \<and> ETag (info ob) = hex (sha (data ob)))"

lemma memory_writer:
  "accepts_all (MultiWriter Buffer_Write hashWriter_Write)"
  "accumulates (MultiWriter Buffer_Write hashWriter_Write) id (\<lambda>d (b, h). (b @ d, h\<lparr>hw_data := hw_data h @ d\<rparr>))"
  by (auto simp: accepts_all_def accumulates_def MultiWriter_def Buffer_Write_def hashWriter_Write_def)

lemma MemoryStore_Put_ok:
  assumes "NormalizeKey k = Inr k" "ends_at src n"
  shows "MemoryStore_Put sha now Background k (Some src) opts s =
    (let d = delivered src (Suc n);
         meta = \<lparr>Key = k, Size = length d, ContentType = Opt_ContentType opts, ETag = hex (sha d), LastModified = now\<rparr>
     in Return (Inr meta, s\<lparr>objects := (objects s)(k \<mapsto> \<lparr>data = d, info = meta\<rparr>)\<rparr>))"
  using copy_all_accept [OF assms(2) _ memory_writer(2,1), of Background "([], \<lparr>hw_data = []\<rparr>)"] assms(1)
  by (auto simp: MemoryStore_Put_def copyContext_def hashWriter_Sum_def Let_def)

interpretation memory_store: blob_store "MemoryStore_Put sha" MemoryStore_Get MemoryStore_Stat MemoryStore_Delete
  memory_objects "memory_ok sha" "\<lambda>s k. True" "\<lambda>now opts. True" "\<lambda>src. True" for sha
proof (unfold_locales, goal_cases)
  case (1 s k src n now opts)
  then show ?case
    by (auto simp: MemoryStore_Put_ok Let_def memory_ok_def memory_objects_def fun_eq_iff
        MemoryStore_Stat_def MemoryStore_Get_def)
next
  case (2 s k d)
  then show ?case
    by (auto simp: memory_objects_def MemoryStore_Stat_def MemoryStore_Get_def memory_ok_def split: option.splits)
next
  case (3 s k)
  then show ?case
    by (auto simp: memory_objects_def MemoryStore_Stat_def MemoryStore_Get_def ErrNotFound_def split: option.splits)
next
  case (4 s k)
  then show ?case
    by (auto simp: MemoryStore_Delete_def memory_ok_def memory_objects_def fun_eq_iff split: option.splits)
next
  case (5 k e now b opts s)
  then show ?case
    by (simp add: MemoryStore_Put_def MemoryStore_Get_def MemoryStore_Stat_def MemoryStore_Delete_def)
qed

section \<open>Properties\<close>

text \<open>C25. Keys: a key is accepted exactly when it is not empty, has no NUL and no backslash, and none
  of its segments between slashes is empty, \<^verbatim>\<open>.\<close> or \<^verbatim>\<open>..\<close>; an accepted key is returned unchanged, so
  normalizing is idempotent and the check that the cleaned key differs from the key never fires.\<close>

theorem normalize_key_iff:
  "(\<exists>k. NormalizeKey key = Inr k) =
     (key \<noteq> [] \<and> CHR 0x00 \<notin> set key \<and> CHR 0x5C \<notin> set key
      \<and> list_all (\<lambda>w. w \<notin> {[], ''.'', ''..''}) (Split key CHR ''/''))
   \<and> NormalizeKey key \<noteq> Inl (New (''blobx: key '' @ key @ '' is not canonical''))
   \<and> (case NormalizeKey key of Inl _ \<Rightarrow> True | Inr k \<Rightarrow> k = key)"
proof -
  have "NormalizeKey key \<noteq> Inl (New (''blobx: key '' @ key @ '' is not canonical''))"
  proof
    assume a: "NormalizeKey key = Inl (New (''blobx: key '' @ key @ '' is not canonical''))"
    then have "key \<noteq> []" "\<not> segment_loop (Split key CHR ''/'')" "CHR 0x00 \<notin> set key" "CHR 0x5C \<notin> set key"
      by (auto simp: NormalizeKey_def Let_def split: if_splits)
    with NormalizeKey_Inr [of key key] a show False by (simp add: segment_loop_iff)
  qed
  then show ?thesis
    using NormalizeKey_Inr [of key] by (auto simp: plain_seg_def list_all_iff split: sum.split)
qed

text \<open>The contract suite passes on the in-memory store in every state that has no object under
  the key it expects to be missing, for any digest.\<close>

theorem memory_store_contract:
  assumes "memory_ok sha s" "objects s ''missing.txt'' = None"
  shows "blobtest_Run (MemoryStore_Put sha) MemoryStore_Get MemoryStore_Stat MemoryStore_Delete now s"
  using memory_store.contract [of sha s now] assms by (simp add: memory_objects_def)

theorem memory_store_contract_witness:
  "blobtest_Run (MemoryStore_Put id) MemoryStore_Get MemoryStore_Stat MemoryStore_Delete 7 NewMemoryStore"
  by (rule memory_store_contract) (simp_all add: memory_ok_def NewMemoryStore_def)

end
