(* ===== verification/Blobx_File.thy ===== *)
theory Blobx_File
  imports Blobx
begin

text \<open>
  \<^verbatim>\<open>blobx/file.go\<close>: objects as files below a root directory, written to a temporary file and renamed,
  with a JSON file of metadata per object. SHA-256 is \<open>sha\<close>; \<open>enc\<close> and \<open>dec\<close> are \<^verbatim>\<open>encoding/json\<close> on
  \<^verbatim>\<open>Object\<close>. \<open>tmp\<close> is the random part of the temporary file's name. A record of faults says which
  operating system calls fail; the theorems on \<^verbatim>\<open>Put\<close> hold for every such record.
\<close>

section \<open>The store\<close>

record FileOptions =
  Root :: string

record FileStore =
  root :: string

record faults =
  mkdir_f :: "errno option"
  create_f :: "errno option"
  write_f :: "nat \<Rightarrow> (nat \<times> errno) option"
  close_f :: "errno option"
  rename_f :: "errno option"
  stat_f :: "errno option"
  mkmeta_f :: "errno option"
  writemeta_f :: "(nat \<times> errno) option"
  cleanup_f :: "errno option"
  open_f :: "errno option"
  readmeta_f :: "errno option"
  remove_f :: "errno option"
  removemeta_f :: "errno option"

definition no_faults :: faults where
  "no_faults = \<lparr>mkdir_f = None, create_f = None, write_f = (\<lambda>_. None), close_f = None, rename_f = None,
     stat_f = None, mkmeta_f = None, writemeta_f = None, cleanup_f = None, open_f = None,
     readmeta_f = None, remove_f = None, removemeta_f = None\<rparr>"

definition sys_err :: "string \<Rightarrow> errno \<Rightarrow> blob_error" where
  "sys_err what e = Wrap what (Ext (Errno e))"

definition NewFileStore :: "string \<Rightarrow> FileOptions \<Rightarrow> errno option \<Rightarrow> fs \<Rightarrow> (blob_error + FileStore) \<times> fs" where
  "NewFileStore cwd opts fault fs =
     (if Root opts = [] then (Inl (New ''blobx: filesystem root is required''), fs)
      else (let r = Abs cwd (Root opts)
            in case os_MkdirAll fault (path_segs r) fs of
                 Inl e \<Rightarrow> (Inl (sys_err ''blobx: create filesystem root: '' e), fs)
               | Inr fs \<Rightarrow> (Inr \<lparr>root = r\<rparr>, fs)))"

definition objectPath :: "FileStore \<Rightarrow> string \<Rightarrow> string" where
  "objectPath s key = path_Join [root s, ''.blobx'', ''objects'', key]"

definition metadataPath :: "(bytes \<Rightarrow> bytes) \<Rightarrow> FileStore \<Rightarrow> string \<Rightarrow> string" where
  "metadataPath sha s key = path_Join [root s, ''.blobx'', ''metadata'', hex (sha (bytes_of key))]"

definition writeMetadata ::
  "(Object \<Rightarrow> string + bytes) \<Rightarrow> faults \<Rightarrow> time \<Rightarrow> string \<Rightarrow> Object \<Rightarrow> fs \<Rightarrow> blob_error option \<times> fs" where
  "writeMetadata enc flt now path ob fs =
     (case enc ob of
        Inl e \<Rightarrow> (Some (Wrap ''blobx: encode object metadata: '' (Ext (JSONError e))), fs)
      | Inr bs \<Rightarrow>
          (case os_MkdirAll (mkmeta_f flt) (path_segs (path_Dir path)) fs of
             Inl e \<Rightarrow> (Some (sys_err ''blobx: create metadata directory: '' e), fs)
           | Inr fs \<Rightarrow>
               (case os_WriteFile (writemeta_f flt) (path_segs path) now bs fs of
                  (Some e, fs) \<Rightarrow> (Some (sys_err ''blobx: write object metadata: '' e), fs)
                | (None, fs) \<Rightarrow> (None, fs))))"

definition readMetadata :: "(bytes \<Rightarrow> string + Object) \<Rightarrow> faults \<Rightarrow> string \<Rightarrow> fs \<Rightarrow> blob_error + Object" where
  "readMetadata dec flt path fs =
     (case os_ReadFile (readmeta_f flt) (path_segs path) fs of
        Inl e \<Rightarrow> Inl (Ext (Errno e))
      | Inr bs \<Rightarrow> (case dec bs of Inl e \<Rightarrow> Inl (Ext (JSONError e)) | Inr ob \<Rightarrow> Inr ob))"

text \<open>Writing to the open temporary file: the state is the tree and the number of writes so far.\<close>

definition temp_Write :: "faults \<Rightarrow> fpath \<Rightarrow> time \<Rightarrow> (blob_cause, fs \<times> nat) writer" where
  "temp_Write flt p now d st =
     (let (n, e, fs) = os_append (write_f flt (snd st)) p now d (fst st)
      in (n, (case e of None \<Rightarrow> None | Some e \<Rightarrow> Some (Ext (Errno e))), (fs, Suc (snd st))))"

text \<open>\<^verbatim>\<open>os.CreateTemp\<close> replaces the star of its pattern \<^verbatim>\<open>.blobx-*\<close>.\<close>

definition temp_name :: "string \<Rightarrow> string" where
  "temp_name tmp = ''.blobx-'' @ tmp"

text \<open>The body of \<^verbatim>\<open>Put\<close> after the copy.\<close>

definition put_commit ::
  "(bytes \<Rightarrow> bytes) \<Rightarrow> (Object \<Rightarrow> string + bytes) \<Rightarrow> FileStore \<Rightarrow> faults \<Rightarrow> time \<Rightarrow> string \<Rightarrow> PutOptions \<Rightarrow> fpath \<Rightarrow>
   nat \<Rightarrow> blob_error option \<Rightarrow> bytes \<Rightarrow> fs \<Rightarrow> (blob_error + Object) \<times> fs" where
  "put_commit sha enc s flt now key opts tempName n copyErr hashed fs =
     (case copyErr of
        Some e \<Rightarrow> (Inl (Wrap ''blobx: write object: '' e), fs)
      | None \<Rightarrow>
     (case close_f flt of
        Some e \<Rightarrow> (Inl (sys_err ''blobx: close object: '' e), fs)
      | None \<Rightarrow>
     (case os_Rename (rename_f flt) tempName (path_segs (objectPath s key)) fs of
        Inl e \<Rightarrow> (Inl (sys_err ''blobx: replace object: '' e), fs)
      | Inr fs \<Rightarrow>
     (case os_Stat (stat_f flt) (path_segs (objectPath s key)) fs of
        Inl e \<Rightarrow> (Inl (sys_err ''blobx: stat written object: '' e), fs)
      | Inr nd \<Rightarrow>
          (let ob = \<lparr>Key = key, Size = n, ContentType = Opt_ContentType opts, ETag = hex (sha hashed),
                     LastModified = (case nd of File _ t \<Rightarrow> t | Dir \<Rightarrow> now)\<rparr>
           in case writeMetadata enc flt now (metadataPath sha s key) ob fs of
                (Some e, fs) \<Rightarrow> (Inl e, fs)
              | (None, fs) \<Rightarrow> (Inr ob, fs))))))"

definition FileStore_Put ::
  "(bytes \<Rightarrow> bytes) \<Rightarrow> (Object \<Rightarrow> string + bytes) \<Rightarrow> FileStore \<Rightarrow> string \<Rightarrow> faults \<Rightarrow>
   time \<Rightarrow> ctx \<Rightarrow> string \<Rightarrow> body option \<Rightarrow> PutOptions \<Rightarrow> fs \<Rightarrow> ((blob_error + Object) \<times> fs) run" where
  "FileStore_Put sha enc s tmp flt now ctx key body opts fs =
     (case NormalizeKey key of
        Inl e \<Rightarrow> Return (Inl e, fs)
      | Inr key \<Rightarrow>
     (case body of
        None \<Rightarrow> Return (Inl (New ''blobx: body is nil''), fs)
      | Some src \<Rightarrow>
     (let dir = path_segs (path_Dir (objectPath s key)); tempName = dir @ [temp_name tmp]
      in case os_MkdirAll (mkdir_f flt) dir fs of
           Inl e \<Rightarrow> Return (Inl (sys_err ''blobx: create object parent: '' e), fs)
         | Inr fs \<Rightarrow>
     (case os_Create (create_f flt) tempName now fs of
        Inl e \<Rightarrow> Return (Inl (sys_err ''blobx: create temporary object: '' e), fs)
      | Inr fs \<Rightarrow>
     (case copyContext ctx (MultiWriter (temp_Write flt tempName now) Buffer_Write) src ((fs, 0), []) of
        None \<Rightarrow> Diverge
      | Some (n, copyErr, ((fs, _), hashed)) \<Rightarrow>
          (let (result, fs) = put_commit sha enc s flt now key opts tempName n copyErr hashed fs
           in Return (result, snd (os_Remove (cleanup_f flt) tempName fs))))))))"

definition FileStore_Stat ::
  "(bytes \<Rightarrow> bytes) \<Rightarrow> (bytes \<Rightarrow> string + Object) \<Rightarrow> FileStore \<Rightarrow> faults \<Rightarrow> ctx \<Rightarrow> string \<Rightarrow> fs \<Rightarrow> blob_error + Object" where
  "FileStore_Stat sha dec s flt ctx key fs =
     (case ctx 0 of
        Some e \<Rightarrow> Inl (CtxErr e)
      | None \<Rightarrow>
     (case NormalizeKey key of
        Inl e \<Rightarrow> Inl e
      | Inr key \<Rightarrow>
     (case os_Stat (stat_f flt) (path_segs (objectPath s key)) fs of
        Inl e \<Rightarrow> Inl (if e = ENOENT then ErrNotFound else sys_err ''blobx: stat object: '' e)
      | Inr Dir \<Rightarrow> Inl ErrNotFound
      | Inr (File b t) \<Rightarrow>
          (let ob = \<lparr>Key = key, Size = length b, ContentType = [], ETag = [], LastModified = t\<rparr>
           in case readMetadata dec flt (metadataPath sha s key) fs of
                Inl e \<Rightarrow> Inr ob
              | Inr metadata \<Rightarrow> Inr (ob\<lparr>ContentType := ContentType metadata, ETag := ETag metadata\<rparr>)))))"

definition FileStore_Get ::
  "(bytes \<Rightarrow> bytes) \<Rightarrow> (bytes \<Rightarrow> string + Object) \<Rightarrow> FileStore \<Rightarrow> faults \<Rightarrow> ctx \<Rightarrow> string \<Rightarrow> fs \<Rightarrow> blob_error + bytes \<times> Object" where
  "FileStore_Get sha dec s flt ctx key fs =
     (case ctx 0 of
        Some e \<Rightarrow> Inl (CtxErr e)
      | None \<Rightarrow>
     (case FileStore_Stat sha dec s flt (ctx_from 1 ctx) key fs of
        Inl e \<Rightarrow> Inl e
      | Inr ob \<Rightarrow>
     (case os_ReadFile (open_f flt) (path_segs (objectPath s (Key ob))) fs of
        Inl e \<Rightarrow> Inl (if e = ENOENT then ErrNotFound else sys_err ''blobx: open object: '' e)
      | Inr b \<Rightarrow> Inr (b, ob))))"

definition FileStore_Delete ::
  "(bytes \<Rightarrow> bytes) \<Rightarrow> FileStore \<Rightarrow> faults \<Rightarrow> ctx \<Rightarrow> string \<Rightarrow> fs \<Rightarrow> blob_error option \<times> fs" where
  "FileStore_Delete sha s flt ctx key fs =
     (case ctx 0 of
        Some e \<Rightarrow> (Some (CtxErr e), fs)
      | None \<Rightarrow>
     (case NormalizeKey key of
        Inl e \<Rightarrow> (Some e, fs)
      | Inr key \<Rightarrow>
     (case os_Remove (remove_f flt) (path_segs (objectPath s key)) fs of
        (err, fs) \<Rightarrow>
          if err \<noteq> None \<and> err \<noteq> Some ENOENT then (Some (sys_err ''blobx: delete object: '' (the err)), fs)
          else
     (case os_Remove (removemeta_f flt) (path_segs (metadataPath sha s key)) fs of
        (err, fs) \<Rightarrow>
          if err \<noteq> None \<and> err \<noteq> Some ENOENT then (Some (sys_err ''blobx: delete object metadata: '' (the err)), fs)
          else (None, fs)))))"

section \<open>Paths\<close>

definition root_ok :: "FileStore \<Rightarrow> bool" where
  "root_ok s \<longleftrightarrow> rooted (root s) \<and> (\<forall>w\<in>set (path_segs (root s)). plain_seg w)"

definition base :: "FileStore \<Rightarrow> fpath" where
  "base s = path_segs (root s) @ [''.blobx'']"

definition obj :: "FileStore \<Rightarrow> string \<Rightarrow> fpath" where
  "obj s key = base s @ ''objects'' # Split key CHR ''/''"

definition meta :: "(bytes \<Rightarrow> bytes) \<Rightarrow> FileStore \<Rightarrow> string \<Rightarrow> fpath" where
  "meta sha s key = base s @ [''metadata'', hex (sha (bytes_of key))]"

definition sha_ok :: "(bytes \<Rightarrow> bytes) \<Rightarrow> bool" where
  "sha_ok sha \<longleftrightarrow> (\<forall>x. length (sha x) = 32)"

lemma NewFileStore_root_ok:
  "\<lbrakk>rooted cwd; NewFileStore cwd opts fault fs = (Inr s, fs')\<rbrakk> \<Longrightarrow> root_ok s"
  using Abs_rooted [of cwd "Root opts"] Abs_plain [of cwd "Root opts"]
  by (auto simp: NewFileStore_def root_ok_def Let_def split: if_splits sum.splits)

lemma path_Join_below:
  assumes "root_ok s" "\<forall>w\<in>set (path_segs q). plain_seg w" "plain_seg d" "CHR ''/'' \<notin> set d"
  defines "p \<equiv> Join [root s, ''.blobx'', d, q] ''/''"
  shows "path_Join [root s, ''.blobx'', d, q] = Clean p" "rooted p"
    "path_segs p = base s @ d # path_segs q" "\<forall>w\<in>set (path_segs p). plain_seg w"
proof -
  have r: "root s \<noteq> []" "rooted (root s)" using assms(1) by (auto simp: root_ok_def rooted_def)
  then show "path_Join [root s, ''.blobx'', d, q] = Clean p" "rooted p"
    by (simp_all add: path_Join_def p_def rooted_def)
  have d: "path_segs d = [d]" "path_segs ''.blobx'' = [''.blobx'']"
    using assms(3,4) by (simp_all add: path_segs_def Split_no_sep plain_seg_def)
  show segs: "path_segs p = base s @ d # path_segs q"
    using d path_segs_append [of "root s" "''.blobx/'' @ d @ ''/'' @ q"] path_segs_append [of "''.blobx''" "d @ ''/'' @ q"]
      path_segs_append [of d q] by (simp add: p_def base_def)
  show "\<forall>w\<in>set (path_segs p). plain_seg w"
    unfolding segs using assms(1-3) by (auto simp: base_def root_ok_def plain_seg_def)
qed

lemma objectPath_segs:
  assumes "root_ok s" "NormalizeKey key = Inr key"
  shows "path_segs (objectPath s key) = obj s key" "path_segs (path_Dir (objectPath s key)) = butlast (obj s key)"
proof -
  have k: "path_segs key = Split key CHR ''/''" "\<forall>w\<in>set (path_segs key). plain_seg w"
    using assms(2) by (auto simp: NormalizeKey_Inr path_segs_def plain_seg_def filter_id_conv)
  note p = path_Join_below [OF assms(1) k(2), of "''objects''"]
  have d: "plain_seg ''objects''" "CHR ''/'' \<notin> set ''objects''" by (simp_all add: plain_seg_def)
  have segs: "path_segs (Join [root s, ''.blobx'', ''objects'', key] ''/'') = obj s key"
    using p(3) [OF d] k(1) by (simp add: obj_def)
  show "path_segs (objectPath s key) = obj s key"
    unfolding objectPath_def p(1) [OF d] using path_segs_Clean_same [OF p(2,4) [OF d]] segs by simp
  have "obj s key \<noteq> []" by (simp add: obj_def)
  then have "obj s key = butlast (obj s key) @ [last (obj s key)]" by simp
  with segs show "path_segs (path_Dir (objectPath s key)) = butlast (obj s key)"
    unfolding objectPath_def p(1) [OF d] by (intro path_segs_Dir [OF p(2,4) [OF d]]) simp
qed

lemma metadataPath_segs:
  assumes "root_ok s" "sha_ok sha"
  shows "path_segs (metadataPath sha s key) = meta sha s key"
    "path_segs (path_Dir (metadataPath sha s key)) = base s @ [''metadata'']"
proof -
  let ?h = "hex (sha (bytes_of key))"
  have h: "CHR ''/'' \<notin> set ?h" "CHR ''.'' \<notin> set ?h" "?h \<noteq> []"
    using hex_chars [of "CHR ''/''" "sha (bytes_of key)"] hex_chars [of "CHR ''.''" "sha (bytes_of key)"]
      assms(2) length_hex [of "sha (bytes_of key)"]
    by (auto simp: sha_ok_def simp del: length_hex)
  then have k: "path_segs ?h = [?h]" "\<forall>w\<in>set (path_segs ?h). plain_seg w"
    by (auto simp: path_segs_def Split_no_sep plain_seg_def)
  note p = path_Join_below [OF assms(1) k(2), of "''metadata''"]
  have d: "plain_seg ''metadata''" "CHR ''/'' \<notin> set ''metadata''" by (simp_all add: plain_seg_def)
  have segs: "path_segs (Join [root s, ''.blobx'', ''metadata'', ?h] ''/'') = (base s @ [''metadata'']) @ [?h]"
    using p(3) [OF d] k(1) by simp
  show "path_segs (metadataPath sha s key) = meta sha s key"
    unfolding metadataPath_def p(1) [OF d] using path_segs_Clean_same [OF p(2,4) [OF d]] segs by (simp add: meta_def)
  show "path_segs (path_Dir (metadataPath sha s key)) = base s @ [''metadata'']"
    unfolding metadataPath_def p(1) [OF d] by (rule path_segs_Dir [OF p(2,4) [OF d] segs])
qed

section \<open>What \<^verbatim>\<open>Put\<close> does to the tree\<close>

definition content :: "fs \<Rightarrow> fpath \<Rightarrow> bytes option" where
  "content fs p = (case look fs p of Some (File b _) \<Rightarrow> Some b | _ \<Rightarrow> None)"

definition temp :: "FileStore \<Rightarrow> string \<Rightarrow> string \<Rightarrow> fpath" where
  "temp s tmp key = butlast (obj s key) @ [temp_name tmp]"

text \<open>The three ways \<^verbatim>\<open>Put\<close> can end.\<close>

lemma FileStore_Put_cases:
  assumes "FileStore_Put sha enc s tmp flt now ctx key (Some src) opts fs = Return (r, fs')"
    and "NormalizeKey key = Inr key" "root_ok s"
  defines "T \<equiv> temp s tmp key"
  obtains (mkdir) e where "r = Inl e" "fs' = fs"
  | (create) e where "r = Inl e" "os_MkdirAll (mkdir_f flt) (butlast (obj s key)) fs = Inr fs'"
  | (copied) fs1 fs2 n err fs3 c h fs4 where
      "os_MkdirAll (mkdir_f flt) (butlast (obj s key)) fs = Inr fs1" "os_Create (create_f flt) T now fs1 = Inr fs2"
      "copyContext ctx (MultiWriter (temp_Write flt T now) Buffer_Write) src ((fs2, 0), []) = Some (n, err, ((fs3, c), h))"
      "put_commit sha enc s flt now key opts T n err h fs3 = (r, fs4)" "fs' = snd (os_Remove (cleanup_f flt) T fs4)"
  using assms(1,2) unfolding FileStore_Put_def T_def temp_def Let_def objectPath_segs [OF assms(3,2)]
  by (auto simp: objectPath_segs [OF assms(3,2)] split: sum.splits option.splits prod.splits)

lemma content_mkdirs: "os_MkdirAll f p fs = Inr fs' \<Longrightarrow> content fs' q = content fs q"
  using os_MkdirAll_look [of f p fs fs' q] os_MkdirAll_no_file [of f p fs fs' q]
  by (auto simp: content_def split: option.split node.split)

lemma temp_facts:
  "temp s tmp key \<noteq> meta sha s k" "obj s key \<noteq> meta sha s k" "\<not> prefix (temp s tmp key) (base s @ [''metadata''])"
  "\<not> prefix (obj s key) (base s @ [''metadata''])"
  "strict_prefix u (temp s tmp key) \<longleftrightarrow> strict_prefix u (obj s key)"
proof -
  obtain w ws where w: "Split key CHR ''/'' = ws @ [w]" by (cases "Split key CHR ''/''" rule: rev_cases) auto
  have t: "temp s tmp key = base s @ ''objects'' # ws @ [temp_name tmp]" "obj s key = base s @ ''objects'' # ws @ [w]"
    by (simp_all add: temp_def obj_def w butlast_append)
  show "temp s tmp key \<noteq> meta sha s k" "obj s key \<noteq> meta sha s k"
    "\<not> prefix (temp s tmp key) (base s @ [''metadata''])" "\<not> prefix (obj s key) (base s @ [''metadata''])"
    by (simp_all add: t meta_def)
  show "strict_prefix u (temp s tmp key) \<longleftrightarrow> strict_prefix u (obj s key)"
    using prefix_snoc [of u "base s @ ''objects'' # ws"] unfolding t strict_prefix_def by auto
qed

lemma temp_apart:
  "last (Split key CHR ''/'') \<noteq> temp_name tmp \<Longrightarrow> temp s tmp key \<noteq> obj s key"
  "\<not> prefix (temp s tmp key) (butlast (obj s key))"
proof -
  show "last (Split key CHR ''/'') \<noteq> temp_name tmp \<Longrightarrow> temp s tmp key \<noteq> obj s key"
    unfolding temp_def obj_def by (metis Split_nonempty last_appendR last_ConsR last_snoc list.distinct(1))
  show "\<not> prefix (temp s tmp key) (butlast (obj s key))" by (auto simp: temp_def dest: prefix_length_le)
qed

lemma writeMetadata_frame:
  assumes "writeMetadata enc flt now (metadataPath sha s key) ob fs = (err, fs')" "root_ok s" "sha_ok sha"
  shows "p \<noteq> meta sha s key \<Longrightarrow> look fs' p = look fs p \<or> prefix p (base s @ [''metadata'']) \<and> look fs' p = Some Dir \<and> content fs p = None"
  using assms(1)
    os_MkdirAll_look [of "mkmeta_f flt" "base s @ [''metadata'']" fs _ p]
    content_mkdirs [of "mkmeta_f flt" "base s @ [''metadata'']" fs _ p]
  unfolding writeMetadata_def metadataPath_segs [OF assms(2,3)]
  by (auto simp: os_WriteFile_def content_def split: sum.splits option.splits if_splits prod.splits)

text \<open>The temporary file while it is written: nothing else changes, and success means that it holds
  what was delivered.\<close>

definition temp_bytes :: "fpath \<Rightarrow> (fs \<times> nat) \<times> bytes \<Rightarrow> bytes \<times> bytes" where
  "temp_bytes T w = ((case look (fst (fst w)) T of Some (File b _) \<Rightarrow> b | _ \<Rightarrow> []), snd w)"

lemma temp_writer:
  "accumulates (MultiWriter (temp_Write flt T now) Buffer_Write) (temp_bytes T) (\<lambda>d (b, h). (b @ d, h @ d))"
  by (auto simp: accumulates_def MultiWriter_def temp_Write_def Buffer_Write_def os_append_def temp_bytes_def Let_def
      split: option.splits if_splits)

lemma temp_copy:
  assumes "copyContext ctx (MultiWriter (temp_Write flt T now) Buffer_Write) src ((fs, 0), []) = Some (n, err, ((fs', c), h))"
    and "look fs T = Some (File [] now)"
  shows "\<And>p. p \<noteq> T \<Longrightarrow> look fs' p = look fs p" and "\<exists>b. look fs' T = Some (File b now)"
    and "err = None \<Longrightarrow> \<exists>k. (\<forall>j<k. snd (src j) = None) \<and> (\<exists>e. snd (src k) = Some e \<and> errors_Is e EOF)
      \<and> n = length (delivered src (Suc k)) \<and> h = delivered src (Suc k) \<and> look fs' T = Some (File (delivered src (Suc k)) now)"
proof -
  let ?P = "\<lambda>w. (\<forall>p. p \<noteq> T \<longrightarrow> look (fst (fst w)) p = look fs p) \<and> (\<exists>b. look (fst (fst w)) T = Some (File b now))"
  have "?P ((fs', c), h)"
    by (rule copy_all_inv [where P = ?P, OF assms(1) [unfolded copyContext_def]])
       (use assms(2) in \<open>auto simp: MultiWriter_def temp_Write_def Buffer_Write_def os_append_def Let_def split: option.splits prod.splits\<close>)
  then show "\<And>p. p \<noteq> T \<Longrightarrow> look fs' p = look fs p" and b: "\<exists>b. look fs' T = Some (File b now)" by auto
  assume "err = None"
  with copy_all_success [OF _ temp_writer, of ctx flt T now src "((fs, 0), [])" n "((fs', c), h)"] assms
  obtain k where "\<forall>j<k. snd (src j) = None" "\<exists>e. snd (src k) = Some e \<and> errors_Is e EOF"
    "n = length (delivered src (Suc k))" "temp_bytes T ((fs', c), h) = (delivered src (Suc k), delivered src (Suc k))"
    by (auto simp: copyContext_def temp_bytes_def)
  with b show "\<exists>k. (\<forall>j<k. snd (src j) = None) \<and> (\<exists>e. snd (src k) = Some e \<and> errors_Is e EOF)
      \<and> n = length (delivered src (Suc k)) \<and> h = delivered src (Suc k) \<and> look fs' T = Some (File (delivered src (Suc k)) now)"
    by (intro exI [of _ k]) (auto simp: temp_bytes_def)
qed

lemma put_commit_effect:
  assumes "put_commit sha enc s flt now key opts T n err h fs = (r, fs')"
    and ok: "root_ok s" "sha_ok sha" "NormalizeKey key = Inr key"
    and T: "T = temp s tmp key" "T \<noteq> obj s key" "look fs T = Some (File b now)"
  shows "(\<exists>e. r = Inl e) \<and> fs' = fs \<or>
     err = None \<and> content fs' (obj s key) = Some b \<and> look fs' T = None
     \<and> (\<forall>p. p \<notin> {T, obj s key, meta sha s key} \<longrightarrow> content fs' p = content fs p)
     \<and> (\<forall>ob. r = Inr ob \<longrightarrow> ob = \<lparr>Key = key, Size = n, ContentType = Opt_ContentType opts, ETag = hex (sha h), LastModified = now\<rparr>)"
proof (cases "\<exists>e. r = Inl e \<and> fs' = fs")
  case False
  then obtain fs4 where fs4: "err = None" "close_f flt = None" "os_Rename (rename_f flt) T (obj s key) fs = Inr fs4"
    using assms(1) by (auto simp: put_commit_def objectPath_segs [OF ok(1,3)] split: option.splits sum.splits)
  then have l4: "look fs4 = (look fs)(T := None, obj s key \<mapsto> File b now)"
    using T by (auto simp: os_Rename_Inr)
  have rest: "fs' = fs4 \<and> (\<exists>e. r = Inl e) \<or>
    (\<exists>e. writeMetadata enc flt now (metadataPath sha s key)
       \<lparr>Key = key, Size = n, ContentType = Opt_ContentType opts, ETag = hex (sha h), LastModified = now\<rparr> fs4 = (e, fs')
       \<and> r = (case e of Some e \<Rightarrow> Inl e
              | None \<Rightarrow> Inr \<lparr>Key = key, Size = n, ContentType = Opt_ContentType opts, ETag = hex (sha h), LastModified = now\<rparr>))"
    using assms(1) fs4 l4
    by (auto simp: put_commit_def objectPath_segs [OF ok(1,3)] os_Stat_Inr Let_def split: option.splits sum.splits prod.splits)
  have c4: "content fs4 (obj s key) = Some b" "look fs4 T = None" "\<forall>p. p \<notin> {T, obj s key} \<longrightarrow> content fs4 p = content fs p"
    using T(2) by (auto simp: content_def l4)
  have frame: "look f' p = look fs4 p \<or> prefix p (base s @ [''metadata'']) \<and> look f' p = Some Dir \<and> content fs4 p = None"
    if "writeMetadata enc flt now (metadataPath sha s key) ob fs4 = (e, f')" "p \<noteq> meta sha s key" for ob e f' p
    using writeMetadata_frame [OF that(1) ok(1,2) that(2)] .
  from rest show ?thesis
  proof (elim disjE exE conjE)
    fix e assume m: "writeMetadata enc flt now (metadataPath sha s key)
       \<lparr>Key = key, Size = n, ContentType = Opt_ContentType opts, ETag = hex (sha h), LastModified = now\<rparr> fs4 = (e, fs')"
      and r: "r = (case e of Some e \<Rightarrow> Inl e
              | None \<Rightarrow> Inr \<lparr>Key = key, Size = n, ContentType = Opt_ContentType opts, ETag = hex (sha h), LastModified = now\<rparr>)"
    have "look fs' T = look fs4 T" "look fs' (obj s key) = look fs4 (obj s key)"
      using frame [OF m, of "obj s key"] frame [OF m, of T] temp_facts(1-4) unfolding T(1) by blast+
    then have "content fs' (obj s key) = Some b" "look fs' T = None" using c4 by (simp_all add: content_def)
    moreover have "content fs' p = content fs p" if "p \<notin> {T, obj s key, meta sha s key}" for p
      using frame [OF m, of p] c4(3) that by (auto simp: content_def)
    ultimately show ?thesis using r fs4(1) by (auto split: option.splits)
  qed (use c4 fs4(1) in auto)
qed auto

text \<open>The copy into the temporary file, and its removal at the end.\<close>

lemma put_copied:
  assumes "os_MkdirAll f dir fs = Inr fs1" "os_Create g T now fs1 = Inr fs2"
    and "copyContext ctx (MultiWriter (temp_Write flt T now) Buffer_Write) src ((fs2, 0), []) = Some (n, err, ((fs3, c), h))"
  obtains b where "look fs3 T = Some (File b now)" "walk fs3 [] T = None" "\<And>p. p \<noteq> T \<Longrightarrow> content fs3 p = content fs p"
    "err = None \<Longrightarrow> \<exists>k. (\<forall>j<k. snd (src j) = None) \<and> (\<exists>e. snd (src k) = Some e \<and> errors_Is e EOF)
       \<and> n = length (delivered src (Suc k)) \<and> h = delivered src (Suc k) \<and> b = delivered src (Suc k)"
proof -
  have fs2: "fs2 = upd T (File [] now) fs1" "walk fs1 [] T = None" using assms(2) by (auto simp: os_Create_Inr)
  note cp = temp_copy [OF assms(3)]
  have l3: "look fs3 p = look fs1 p" if "p \<noteq> T" for p using cp(1) [of p] fs2 that by simp
  obtain b where b: "look fs3 T = Some (File b now)" using cp(2) fs2 by auto
  have "walk fs3 [] T = None" by (rule walk_cong [OF _ fs2(2)]) (use l3 in auto)
  moreover have "content fs3 p = content fs p" if "p \<noteq> T" for p
    using l3 [OF that] content_mkdirs [OF assms(1), of p] by (simp add: content_def)
  moreover have "err = None \<Longrightarrow> \<exists>k. (\<forall>j<k. snd (src j) = None) \<and> (\<exists>e. snd (src k) = Some e \<and> errors_Is e EOF)
       \<and> n = length (delivered src (Suc k)) \<and> h = delivered src (Suc k) \<and> b = delivered src (Suc k)"
    using cp(3) fs2 b by auto
  ultimately show thesis using that b by blast
qed

lemma cleanup_effect:
  "p \<noteq> T \<Longrightarrow> content (snd (os_Remove f T fs)) p = content fs p"
  "\<lbrakk>f = None; look fs T = None \<or> look fs T = Some (File b t) \<and> walk fs [] T = None\<rbrakk> \<Longrightarrow> look (snd (os_Remove f T fs)) T = None"
proof -
  show "p \<noteq> T \<Longrightarrow> content (snd (os_Remove f T fs)) p = content fs p"
    using os_Remove_look [of f T fs p] by (auto simp: content_def)
  assume "f = None" "look fs T = None \<or> look fs T = Some (File b t) \<and> walk fs [] T = None"
  then show "look (snd (os_Remove f T fs)) T = None"
    using os_Remove_look [of f T fs T] by (auto simp: os_Remove_file)
qed

section \<open>Refinement of the interface\<close>

text \<open>What the store is in the tree: a tree in which the store's own directories are not files and no
  metadata entry is a directory.\<close>

definition file_inv :: "(bytes \<Rightarrow> bytes) \<Rightarrow> FileStore \<Rightarrow> fs \<Rightarrow> bool" where
  "file_inv sha s fs \<longleftrightarrow> root_ok s \<and> sha_ok sha \<and> is_tree fs
     \<and> (\<forall>u. prefix u (base s @ [''metadata'']) \<longrightarrow> \<not> is_file fs u)
     \<and> (\<forall>k. look fs (meta sha s k) \<noteq> Some Dir)"

definition file_view :: "FileStore \<Rightarrow> fs \<Rightarrow> string \<Rightarrow> bytes option" where
  "file_view s fs k = (if NormalizeKey k = Inr k then content fs (obj s k) else None)"

text \<open>An object can be created unless a prefix of its key is an object, it is a prefix of one, or its
  name is that of the temporary file.\<close>

definition file_free :: "FileStore \<Rightarrow> string \<Rightarrow> fs \<Rightarrow> string \<Rightarrow> bool" where
  "file_free s tmp fs k \<longleftrightarrow>
     (\<forall>u. strict_prefix u (obj s k) \<longrightarrow> \<not> is_file fs u) \<and> look fs (obj s k) \<noteq> Some Dir
     \<and> look fs (temp s tmp k) = None \<and> last (Split k CHR ''/'') \<noteq> temp_name tmp"

text \<open>The options whose metadata survive the JSON file.\<close>

definition file_opt_ok :: "(Object \<Rightarrow> string + bytes) \<Rightarrow> (bytes \<Rightarrow> string + Object) \<Rightarrow> time \<Rightarrow> PutOptions \<Rightarrow> bool" where
  "file_opt_ok enc dec now opts \<longleftrightarrow>
     (\<forall>key n d. let ob = \<lparr>Key = key, Size = n, ContentType = Opt_ContentType opts, ETag = hex d, LastModified = now\<rparr>
                in \<exists>bs ob'. enc ob = Inr bs \<and> dec bs = Inr ob' \<and> ContentType ob' = ContentType ob \<and> ETag ob' = ETag ob)"

lemma no_faults_simps [simp]:
  "mkdir_f no_faults = None" "create_f no_faults = None" "write_f no_faults i = None" "close_f no_faults = None"
  "rename_f no_faults = None" "stat_f no_faults = None" "mkmeta_f no_faults = None" "writemeta_f no_faults = None"
  "cleanup_f no_faults = None" "open_f no_faults = None" "readmeta_f no_faults = None" "remove_f no_faults = None"
  "removemeta_f no_faults = None"
  by (simp_all add: no_faults_def)

lemma temp_accepts: "accepts_all (MultiWriter (temp_Write no_faults T now) Buffer_Write)"
  by (simp add: accepts_all_def MultiWriter_def temp_Write_def Buffer_Write_def os_append_def)

lemma strict_prefix_obj: "strict_prefix u (obj s k) \<longleftrightarrow> prefix u (butlast (obj s k))"
proof -
  have "obj s k \<noteq> []" by (simp add: obj_def)
  then obtain v w where "obj s k = v @ [w]" by (cases "obj s k" rule: rev_cases) auto
  then show ?thesis by (auto simp: strict_prefix_def)
qed

text \<open>The tree after a \<^verbatim>\<open>Put\<close> without faults.\<close>

definition after_put :: "(bytes \<Rightarrow> bytes) \<Rightarrow> FileStore \<Rightarrow> time \<Rightarrow> string \<Rightarrow> bytes \<Rightarrow> bytes \<Rightarrow> fs \<Rightarrow> fpath \<Rightarrow> node option" where
  "after_put sha s now k d bs fs p =
     (if p = obj s k then Some (File d now) else if p = meta sha s k then Some (File bs now)
      else if prefix p (base s @ [''metadata'']) \<or> prefix p (butlast (obj s k)) then Some Dir else look fs p)"

text \<open>The directory and the temporary file of an object that can be created.\<close>

lemma put_begins:
  assumes "file_inv sha s fs" "file_free s tmp fs k"
  obtains fs1 where "os_MkdirAll None (butlast (obj s k)) fs = Inr fs1"
    "\<And>p. look fs1 p = (if prefix p (butlast (obj s k)) then Some Dir else look fs p)"
    "os_Create None (temp s tmp k) now fs1 = Inr (upd (temp s tmp k) (File [] now) fs1)"
proof -
  have free: "\<And>u. strict_prefix u (obj s k) \<Longrightarrow> \<not> is_file fs u" "look fs (temp s tmp k) = None"
    using assms(2) by (auto simp: file_free_def)
  obtain fs1 where m: "os_MkdirAll None (butlast (obj s k)) fs = Inr fs1"
    using os_MkdirAll_ok [of "butlast (obj s k)" fs] free(1) by (auto simp: strict_prefix_obj)
  note l1 = os_MkdirAll_look [OF m]
  have "walk fs1 [] (temp s tmp k) = None" by (simp add: walk_None temp_facts(5) strict_prefix_obj l1)
  with l1 [of "temp s tmp k"] temp_apart(2) [of s tmp k] free(2)
  have "os_Create None (temp s tmp k) now fs1 = Inr (upd (temp s tmp k) (File [] now) fs1)"
    by (simp add: os_Create_Inr)
  with that m l1 show thesis by blast
qed

text \<open>The metadata file, in a tree whose path to it is not blocked.\<close>

lemma writeMetadata_ok:
  assumes "root_ok s" "sha_ok sha" "enc ob = Inr bs"
    and "\<And>u. prefix u (base s @ [''metadata'']) \<Longrightarrow> \<not> is_file fs u" "look fs (meta sha s k) \<noteq> Some Dir"
  obtains fs' where "writeMetadata enc no_faults now (metadataPath sha s k) ob fs = (None, fs')"
    "\<And>p. look fs' p = (if p = meta sha s k then Some (File bs now)
       else if prefix p (base s @ [''metadata'']) then Some Dir else look fs p)"
proof -
  let ?M = "base s @ [''metadata'']"
  obtain fs1 where m: "os_MkdirAll None ?M fs = Inr fs1" using os_MkdirAll_ok [of ?M fs] assms(4) by auto
  note l1 = os_MkdirAll_look [OF m]
  have sp: "strict_prefix u (meta sha s k) \<longleftrightarrow> prefix u ?M" for u
    using prefix_snoc [of u ?M "hex (sha (bytes_of k))"] by (auto simp: meta_def strict_prefix_def)
  have "walk fs1 [] (meta sha s k) = None" unfolding walk_None by (simp add: sp l1)
  then have "os_WriteFile None (meta sha s k) now bs fs1 = (None, upd (meta sha s k) (File bs now) fs1)"
    using assms(5) sp [of "meta sha s k"] by (simp add: os_WriteFile_def l1)
  then have "writeMetadata enc no_faults now (metadataPath sha s k) ob fs = (None, upd (meta sha s k) (File bs now) fs1)"
    using assms(3) m by (simp add: writeMetadata_def metadataPath_segs [OF assms(1,2)])
  with that l1 show thesis by simp
qed

text \<open>The rest of \<^verbatim>\<open>Put\<close> once the temporary file holds the data.\<close>

lemma put_commit_ok:
  assumes "root_ok s" "sha_ok sha" "NormalizeKey k = Inr k" "enc ob = Inr bs"
    and "look fs T = Some (File d now)" "T \<noteq> obj s k" "\<And>u. strict_prefix u (obj s k) \<Longrightarrow> look fs u = Some Dir \<and> u \<noteq> T"
    and "look fs (obj s k) \<noteq> Some Dir" "\<And>u. prefix u (base s @ [''metadata'']) \<Longrightarrow> \<not> is_file fs u" "look fs (meta sha s k) \<noteq> Some Dir"
    and "ob = \<lparr>Key = k, Size = n, ContentType = Opt_ContentType opts, ETag = hex (sha d), LastModified = now\<rparr>"
  obtains fs' where "put_commit sha enc s no_faults now k opts T n None d fs = (Inr ob, fs')"
    "\<And>p. look fs' p = (if p = meta sha s k then Some (File bs now)
       else if prefix p (base s @ [''metadata'']) then Some Dir
       else if p = obj s k then Some (File d now) else if p = T then None else look fs p)"
proof -
  let ?O = "obj s k"
  define fs4 where "fs4 = upd ?O (File d now) (del T fs)"
  have l4: "look fs4 p = (if p = ?O then Some (File d now) else if p = T then None else look fs p)" for p
    by (simp add: fs4_def)
  have "walk fs [] ?O = None" using assms(7) by (simp add: walk_None)
  then have rn: "os_Rename None T ?O fs = Inr fs4"
    using assms(5,6,8) by (auto simp: os_Rename_Inr fs4_def)
  have "walk fs4 [] ?O = None" using assms(7) by (simp add: walk_None l4)
  then have st: "os_Stat None ?O fs4 = Inr (File d now)" by (simp add: os_Stat_Inr l4)
  have "\<not> is_file fs4 u" if "prefix u (base s @ [''metadata''])" for u
    using that assms(9) [OF that] temp_facts(4) [of s k] by (auto simp: is_file_def l4)
  moreover have "look fs4 (meta sha s k) \<noteq> Some Dir" using assms(10) by (simp add: l4)
  ultimately obtain fs5 where w: "writeMetadata enc no_faults now (metadataPath sha s k) ob fs4 = (None, fs5)"
    "\<And>p. look fs5 p = (if p = meta sha s k then Some (File bs now)
       else if prefix p (base s @ [''metadata'']) then Some Dir else look fs4 p)"
    using writeMetadata_ok [where enc = enc and ob = ob and bs = bs and fs = fs4 and k = k, OF assms(1,2,4)] by blast
  have "put_commit sha enc s no_faults now k opts T n None d fs = (Inr ob, fs5)"
    using rn st w(1) by (simp add: put_commit_def objectPath_segs [OF assms(1,3)] assms(11))
  with that w(2) l4 show thesis by simp
qed

lemma put_effect:
  assumes "file_inv sha s fs" "NormalizeKey k = Inr k" "file_free s tmp fs k" "ends_at src n" "file_opt_ok enc dec now opts"
  defines "d \<equiv> delivered src (Suc n)"
  defines "ob \<equiv> \<lparr>Key = k, Size = length d, ContentType = Opt_ContentType opts, ETag = hex (sha d), LastModified = now\<rparr>"
  shows "\<exists>fs' bs ob'. FileStore_Put sha enc s tmp no_faults now Background k (Some src) opts fs = Return (Inr ob, fs')
    \<and> look fs' = after_put sha s now k d bs fs \<and> dec bs = Inr ob' \<and> ContentType ob' = ContentType ob \<and> ETag ob' = ETag ob"
proof -
  let ?T = "temp s tmp k" let ?O = "obj s k" let ?M = "base s @ [''metadata'']"
  have ok: "root_ok s" "sha_ok sha" and metafree: "\<And>u. prefix u ?M \<Longrightarrow> \<not> is_file fs u"
    and metafile: "look fs (meta sha s k) \<noteq> Some Dir"
    using assms(1) by (auto simp: file_inv_def)
  have free: "look fs ?O \<noteq> Some Dir" "look fs ?T = None" and TO: "?T \<noteq> ?O"
    using assms(3) temp_apart(1) by (auto simp: file_free_def)
  have npT: "\<not> prefix ?T (butlast ?O)" "\<not> prefix ?O (butlast ?O)" "\<not> prefix ?T ?M" "\<not> prefix ?O ?M"
    using temp_apart(2) strict_prefix_obj [of ?O s k] temp_facts(3,4) by auto
  obtain fs1 where fs1: "os_MkdirAll None (butlast ?O) fs = Inr fs1"
    "\<And>p. look fs1 p = (if prefix p (butlast ?O) then Some Dir else look fs p)"
    "os_Create None ?T now fs1 = Inr (upd ?T (File [] now) fs1)"
    using put_begins [OF assms(1,3)] by blast
  from copy_all_accept [OF assms(4) _ temp_writer temp_accepts, of Background ?T now "((upd ?T (File [] now) fs1, 0), [])"]
  obtain fs3 i h where cp: "copyContext Background (MultiWriter (temp_Write no_faults ?T now) Buffer_Write) src
      ((upd ?T (File [] now) fs1, 0), []) = Some (length d, None, ((fs3, i), h))" "temp_bytes ?T ((fs3, i), h) = (d, d)"
    by (auto simp: copyContext_def d_def temp_bytes_def)
  obtain b where "look fs3 ?T = Some (File b now)" using temp_copy(2) [OF cp(1)] by auto
  with cp(2) have lT: "look fs3 ?T = Some (File d now)" and h: "h = d" by (auto simp: temp_bytes_def)
  have l3: "p \<noteq> ?T \<Longrightarrow> look fs3 p = look fs1 p" for p using temp_copy(1) [OF cp(1), of p] by simp
  have mT: "meta sha s k \<noteq> ?T" "meta sha s k \<noteq> ?O" "\<not> prefix (meta sha s k) (butlast ?O)"
    using temp_facts(1) [of s tmp k sha k] temp_facts(2) [of s k sha k] by (auto simp: meta_def obj_def butlast_append)
  from assms(5) obtain bs ob' where codec: "enc ob = Inr bs" "dec bs = Inr ob'" "ContentType ob' = ContentType ob" "ETag ob' = ETag ob"
    unfolding file_opt_ok_def Let_def ob_def by blast
  have up: "look fs3 u = Some Dir \<and> u \<noteq> ?T" if "strict_prefix u ?O" for u
    using that npT(1) l3 [of u] by (auto simp: strict_prefix_obj fs1(2))
  have "look fs3 ?O \<noteq> Some Dir" using l3 [of ?O] TO npT(2) free(1) by (simp add: fs1(2))
  moreover have "\<not> is_file fs3 u" if "prefix u ?M" for u
  proof -
    have "u \<noteq> ?T" using that npT(3) by blast
    with metafree [OF that] show ?thesis by (simp add: is_file_def l3 fs1(2))
  qed
  moreover have "look fs3 (meta sha s k) \<noteq> Some Dir" using l3 [OF mT(1)] mT(3) metafile by (simp add: fs1(2))
  ultimately obtain fs5 where pc: "put_commit sha enc s no_faults now k opts ?T (length d) None d fs3 = (Inr ob, fs5)"
    "\<And>p. look fs5 p = (if p = meta sha s k then Some (File bs now) else if prefix p ?M then Some Dir
       else if p = ?O then Some (File d now) else if p = ?T then None else look fs3 p)"
    using put_commit_ok [where enc = enc and ob = ob and bs = bs and fs = fs3 and T = ?T and d = d and n = "length d" and opts = opts,
        OF ok assms(2) codec(1) lT TO up _ _ _ ob_def [THEN meta_eq_to_obj_eq]] by blast
  have l6: "look (snd (os_Remove None ?T fs5)) p = look fs5 p" for p
    using os_Remove_look [of None ?T fs5 p] mT(1) npT(3) TO by (auto simp: pc(2))
  have "FileStore_Put sha enc s tmp no_faults now Background k (Some src) opts fs = Return (Inr ob, snd (os_Remove None ?T fs5))"
    using assms(2) fs1(1,3) cp(1) pc(1) h
    by (simp add: FileStore_Put_def objectPath_segs [OF ok(1) assms(2)] flip: temp_def)
  moreover have "look (snd (os_Remove None ?T fs5)) = after_put sha s now k d bs fs"
    using mT npT free(2) l3 by (auto simp: fun_eq_iff l6 pc(2) fs1(2) after_put_def)
  ultimately show ?thesis using codec by blast
qed

lemma obj_inj: "obj s j = obj s k \<longleftrightarrow> j = k"
proof
  assume "obj s j = obj s k"
  then have "Split j CHR ''/'' = Split k CHR ''/''" by (simp add: obj_def)
  then show "j = k" by (metis Join_Split)
qed simp

lemma meta_below: "strict_prefix u (meta sha s k) \<longleftrightarrow> prefix u (base s @ [''metadata''])"
  using prefix_snoc [of u "base s @ [''metadata'']" "hex (sha (bytes_of k))"] by (auto simp: meta_def strict_prefix_def)

lemma obj_apart:
  "\<not> prefix (meta sha s j) (butlast (obj s k))" "\<not> prefix (meta sha s j) (base s @ [''metadata''])"
  "prefix p (butlast (obj s k)) \<Longrightarrow> p \<noteq> obj s k" "prefix p (base s @ [''metadata'']) \<Longrightarrow> p \<noteq> obj s k"
  using meta_below [of "meta sha s j" sha s j] strict_prefix_obj [of "obj s k" s k] temp_facts(4) [of s k]
  by (auto simp: meta_def obj_def butlast_append)

lemma after_put_tree:
  assumes "file_inv sha s fs" "file_free s tmp fs k" "look fs' = after_put sha s now k d bs fs"
  shows "is_tree fs'"
proof -
  have par: "look fs p = Some Dir" if "look fs (p @ [w]) \<noteq> None" for p w
    using assms(1) that by (auto simp: file_inv_def is_tree_def)
  have stays: "look fs' p = Some Dir" if "look fs p = Some Dir" for p
    using that assms by (auto simp: file_inv_def file_free_def after_put_def)
  have dir: "look fs' p = Some Dir" if "prefix p (base s @ [''metadata'']) \<or> prefix p (butlast (obj s k))" for p
    using that obj_apart(1) [of sha s k k] obj_apart(2) [of sha s k] obj_apart(3,4) [of p s k] unfolding assms(3) after_put_def by auto
  have "look fs' p = Some Dir" if "look fs' (p @ [w]) \<noteq> None" for p w
  proof -
    have "strict_prefix p (p @ [w])" by (simp add: strict_prefix_def)
    then have "p @ [w] = obj s k \<Longrightarrow> prefix p (butlast (obj s k))" "p @ [w] = meta sha s k \<Longrightarrow> prefix p (base s @ [''metadata''])"
      using strict_prefix_obj [of p s k] meta_below [of p sha s k] by auto
    then have "p @ [w] \<noteq> obj s k \<and> p @ [w] \<noteq> meta sha s k \<and> \<not> prefix (p @ [w]) (base s @ [''metadata''])
        \<and> \<not> prefix (p @ [w]) (butlast (obj s k))" if "\<not> (prefix p (base s @ [''metadata'']) \<or> prefix p (butlast (obj s k)))"
      using that by (blast dest: append_prefixD)
    with that dir [of p] stays [of p] par [of p w] show ?thesis unfolding assms(3) after_put_def by metis
  qed
  moreover have "look fs' [] = Some Dir" using dir [of "[]"] by simp
  ultimately show ?thesis by (simp add: is_tree_def)
qed

lemma after_put_inv:
  assumes "file_inv sha s fs" "file_free s tmp fs k" "look fs' = after_put sha s now k d bs fs"
  shows "file_inv sha s fs'" "file_free s tmp fs' k"
proof -
  have dir: "look fs' p = Some Dir" if "prefix p (base s @ [''metadata'']) \<or> prefix p (butlast (obj s k))" for p
    using that obj_apart(1) [of sha s k k] obj_apart(2) [of sha s k] obj_apart(3,4) [of p s k] unfolding assms(3) after_put_def by auto
  have "look fs' (meta sha s j) \<noteq> Some Dir" for j
    using assms(1) obj_apart(1) [of sha s j k] obj_apart(2) [of sha s j] unfolding assms(3) after_put_def by (auto simp: file_inv_def)
  with after_put_tree [OF assms] assms(1) dir show "file_inv sha s fs'" by (auto simp: file_inv_def is_file_def)
  have "look fs' (temp s tmp k) = None"
    using assms(2) temp_facts(1) [of s tmp k sha k] temp_facts(3) [of s tmp k] temp_apart(1) [of k tmp s] temp_apart(2) [of s tmp k]
    unfolding assms(3) after_put_def file_free_def by simp
  with assms(2) dir show "file_free s tmp fs' k"
    by (auto simp: file_free_def is_file_def strict_prefix_obj assms(3) after_put_def)
qed

lemma after_put_view:
  assumes "file_inv sha s fs" "file_free s tmp fs k" "look fs' = after_put sha s now k d bs fs" "NormalizeKey k = Inr k"
  shows "file_view s fs' = (file_view s fs)(k \<mapsto> d)"
proof
  fix j
  have "content fs' (obj s j) = (if j = k then Some d else content fs (obj s j))"
  proof (cases "prefix (obj s j) (butlast (obj s k))")
    case True
    with assms(2) have "\<not> is_file fs (obj s j)" by (auto simp: file_free_def strict_prefix_obj)
    with True obj_apart(3) [OF True] show ?thesis
      unfolding content_def assms(3) after_put_def
      by (auto simp: obj_inj temp_facts(2) is_file_def split: option.split node.split)
  next
    case False
    then show ?thesis
      using temp_facts(4) [of s j] unfolding content_def assms(3) after_put_def by (simp add: obj_inj temp_facts(2))
  qed
  then show "file_view s fs' j = ((file_view s fs)(k \<mapsto> d)) j" using assms(4) by (auto simp: file_view_def)
qed

text \<open>Reading.\<close>

lemma FileStore_Stat_file:
  assumes "file_inv sha s fs" "NormalizeKey k = Inr k" "look fs (obj s k) = Some (File b t)"
  shows "\<exists>ct et. FileStore_Stat sha dec s no_faults Background k fs =
      Inr \<lparr>Key = k, Size = length b, ContentType = ct, ETag = et, LastModified = t\<rparr>"
    and "\<lbrakk>look fs (meta sha s k) = Some (File bs t'); dec bs = Inr ob\<rbrakk> \<Longrightarrow>
      FileStore_Stat sha dec s no_faults Background k fs =
      Inr \<lparr>Key = k, Size = length b, ContentType = ContentType ob, ETag = ETag ob, LastModified = t\<rparr>"
proof -
  have ok: "root_ok s" "sha_ok sha" "is_tree fs" using assms(1) by (auto simp: file_inv_def)
  have st: "os_Stat None (obj s k) fs = Inr (File b t)"
    using tree_walk [OF ok(3), of "obj s k"] assms(3) by (simp add: os_Stat_Inr)
  show "\<exists>ct et. FileStore_Stat sha dec s no_faults Background k fs =
      Inr \<lparr>Key = k, Size = length b, ContentType = ct, ETag = et, LastModified = t\<rparr>"
    using assms(2) st by (auto simp: FileStore_Stat_def objectPath_segs [OF ok(1)] Let_def split: sum.split)
  show "FileStore_Stat sha dec s no_faults Background k fs =
      Inr \<lparr>Key = k, Size = length b, ContentType = ContentType ob, ETag = ETag ob, LastModified = t\<rparr>"
    if "look fs (meta sha s k) = Some (File bs t')" "dec bs = Inr ob"
  proof -
    have "os_Stat None (meta sha s k) fs = Inr (File bs t')"
      using tree_walk [OF ok(3), of "meta sha s k"] that(1) by (simp add: os_Stat_Inr)
    then show ?thesis
      using assms(2) st that(2)
      by (simp add: FileStore_Stat_def objectPath_segs [OF ok(1)] readMetadata_def metadataPath_segs [OF ok(1,2)]
          os_ReadFile_def)
  qed
qed

lemma FileStore_Get_file:
  assumes "file_inv sha s fs" "NormalizeKey k = Inr k" "look fs (obj s k) = Some (File b t)"
    and "FileStore_Stat sha dec s no_faults Background k fs = Inr ob" "Key ob = k"
  shows "FileStore_Get sha dec s no_faults Background k fs = Inr (b, ob)"
proof -
  have ok: "root_ok s" "is_tree fs" using assms(1) by (auto simp: file_inv_def)
  have "os_Stat None (obj s k) fs = Inr (File b t)"
    using tree_walk [OF ok(2), of "obj s k"] assms(3) by (simp add: os_Stat_Inr)
  with assms ok show ?thesis by (simp add: FileStore_Get_def objectPath_segs os_ReadFile_def)
qed

lemma content_file: "content fs p = Some b \<longleftrightarrow> (\<exists>t. look fs p = Some (File b t))"
  by (auto simp: content_def split: option.splits node.splits)

lemma file_delete_ok:
  assumes "file_inv sha s fs" "NormalizeKey k = Inr k" "file_free s tmp fs k"
  shows "\<exists>fs'. FileStore_Delete sha s no_faults Background k fs = (None, fs')
    \<and> look fs' = (look fs)(obj s k := None, meta sha s k := None)"
proof -
  have ok: "root_ok s" "sha_ok sha" "is_tree fs" using assms(1) by (auto simp: file_inv_def)
  obtain e fs1 where 1: "os_Remove None (obj s k) fs = (e, fs1)" "e = None \<or> e = Some ENOENT" "look fs1 = (look fs)(obj s k := None)"
    using os_Remove_plain [OF ok(3), of "obj s k"] assms(3) by (auto simp: file_free_def)
  have "is_tree fs1" using tree_remove_leaf [OF ok(3) _ 1(3)] assms(3) by (simp add: file_free_def)
  moreover have "\<not> is_file fs1 u" if "strict_prefix u (meta sha s k)" for u
    using that assms(1) unfolding meta_below by (auto simp: file_inv_def is_file_def 1(3))
  moreover have "look fs1 (meta sha s k) \<noteq> Some Dir" using assms(1) by (simp add: file_inv_def 1(3))
  ultimately obtain e2 fs2 where 2: "os_Remove None (meta sha s k) fs1 = (e2, fs2)" "e2 = None \<or> e2 = Some ENOENT"
    "look fs2 = (look fs1)(meta sha s k := None)"
    using os_Remove_plain [of fs1 "meta sha s k"] by blast
  have "FileStore_Delete sha s no_faults Background k fs = (None, fs2)"
    using assms(2) 1(1,2) 2(1,2) by (auto simp: FileStore_Delete_def objectPath_segs [OF ok(1)] metadataPath_segs [OF ok(1,2)])
  with 1(3) 2(3) show ?thesis by (auto simp: fun_eq_iff)
qed

lemma file_delete_keeps:
  assumes "file_inv sha s fs" "NormalizeKey k = Inr k" "file_free s tmp fs k" "look fs' = (look fs)(obj s k := None, meta sha s k := None)"
  shows "file_inv sha s fs'" "file_free s tmp fs' k" "file_view s fs' = (file_view s fs)(k := None)"
proof -
  have "is_tree (del (obj s k) fs)" "look fs (meta sha s k) \<noteq> Some Dir"
    using assms(1,3) tree_remove_leaf [OF _ _ look_del, of fs "obj s k"] by (auto simp: file_inv_def file_free_def)
  then have "is_tree fs'"
    using tree_remove_leaf [of "del (obj s k) fs" "meta sha s k" fs'] assms(4) by (simp add: fun_eq_iff)
  with assms(1,4) show "file_inv sha s fs'" by (auto simp: file_inv_def is_file_def)
  show "file_free s tmp fs' k" using assms(3,4) by (auto simp: file_free_def is_file_def)
  show "file_view s fs' = (file_view s fs)(k := None)"
    using assms(2,4) by (auto simp: file_view_def content_def fun_eq_iff obj_inj temp_facts(2))
qed

interpretation file_store: blob_store "FileStore_Put sha enc s tmp no_faults" "FileStore_Get sha dec s no_faults"
  "FileStore_Stat sha dec s no_faults" "FileStore_Delete sha s no_faults" "file_view s" "file_inv sha s" "file_free s tmp"
  "file_opt_ok enc dec" "\<lambda>src. True" for sha enc dec s tmp
proof (unfold_locales, goal_cases)
  case (1 fs k src n now opts)
  from put_effect [OF 1(1-5)] obtain fs' bs ob' where p:
    "FileStore_Put sha enc s tmp no_faults now Background k (Some src) opts fs =
      Return (Inr \<lparr>Key = k, Size = length (delivered src (Suc n)), ContentType = Opt_ContentType opts,
        ETag = hex (sha (delivered src (Suc n))), LastModified = now\<rparr>, fs')"
    "look fs' = after_put sha s now k (delivered src (Suc n)) bs fs" "dec bs = Inr ob'"
    "ContentType ob' = Opt_ContentType opts" "ETag ob' = hex (sha (delivered src (Suc n)))" by auto
  note inv = after_put_inv [OF 1(1,3) p(2)]
  have "FileStore_Stat sha dec s no_faults Background k fs' =
      Inr \<lparr>Key = k, Size = length (delivered src (Suc n)), ContentType = Opt_ContentType opts,
        ETag = hex (sha (delivered src (Suc n))), LastModified = now\<rparr>"
    using FileStore_Stat_file(2) [OF inv(1) 1(2), of "delivered src (Suc n)" now bs now dec ob'] p(2-5)
    by (simp add: after_put_def temp_facts(2) [symmetric])
  with p(1) inv after_put_view [OF 1(1,3) p(2) 1(2)] show ?case by auto
next
  case (2 fs k d)
  then obtain t where t: "look fs (obj s k) = Some (File d t)" by (auto simp: file_view_def content_file)
  from FileStore_Stat_file(1) [OF 2(1,2) t, of dec] FileStore_Get_file [OF 2(1,2) t] show ?case by fastforce
next
  case (3 fs k)
  then have "look fs (obj s k) = None"
    by (auto simp: file_view_def file_free_def content_def split: option.splits node.splits)
  with 3 have "os_Stat None (obj s k) fs = Inl ENOENT" by (intro os_Stat_missing) (auto simp: file_free_def)
  with 3 have "FileStore_Stat sha dec s no_faults Background k fs = Inl ErrNotFound"
    by (auto simp: FileStore_Stat_def objectPath_segs file_inv_def)
  then show ?case by (simp add: FileStore_Get_def ErrNotFound_def)
next
  case (4 fs k)
  from file_delete_ok [OF this] file_delete_keeps [OF this] show ?case by blast
next
  case (5 k e now b opts fs)
  then show ?case
    by (simp add: FileStore_Put_def FileStore_Get_def FileStore_Stat_def FileStore_Delete_def)
qed

section \<open>A concrete store\<close>

definition demo_store :: FileStore where "demo_store = \<lparr>root = ''/''\<rparr>"
definition demo_sha :: "bytes \<Rightarrow> bytes" where "demo_sha x = replicate 32 0"
definition demo_fs :: fs where "demo_fs = [([], Dir)]"

definition demo_enc :: "Object \<Rightarrow> string + bytes" where
  "demo_enc ob = Inr (of_nat (length (ContentType ob)) # bytes_of (ContentType ob @ ETag ob))"

definition demo_dec :: "bytes \<Rightarrow> string + Object" where
  "demo_dec bs =
     (let n = unat (hd bs); str = string_of (tl bs)
      in Inr \<lparr>Key = [], Size = 0, ContentType = take n str, ETag = drop n str, LastModified = 0\<rparr>)"

lemma demo_codec: "length (Opt_ContentType opts) < 256 \<Longrightarrow> file_opt_ok demo_enc demo_dec now opts"
  by (simp add: file_opt_ok_def demo_enc_def demo_dec_def)

lemma demo_inv: "file_inv demo_sha demo_store demo_fs"
proof -
  have "meta demo_sha demo_store k \<noteq> []" for k by (simp add: meta_def)
  then show ?thesis
    by (simp add: file_inv_def root_ok_def rooted_def demo_store_def path_segs_def sha_ok_def demo_sha_def is_tree_def
        demo_fs_def is_file_def)
qed

lemma demo_free: "last (Split k CHR ''/'') \<noteq> temp_name tmp \<Longrightarrow> file_free demo_store tmp demo_fs k"
  by (simp add: file_free_def demo_fs_def is_file_def obj_def temp_def)

section \<open>Properties\<close>

text \<open>C23. Confinement: the file of an accepted key is exactly the key's segments below
  \<^verbatim>\<open>.blobx/objects\<close> under the root, whatever the key contains, so no key leaves that directory, no two
  keys share a file, and no object file is a metadata file.\<close>

theorem file_store_confined:
  assumes "root_ok s" "sha_ok sha" "NormalizeKey key = Inr key" "NormalizeKey key' = Inr key'"
  shows "path_segs (objectPath s key) = path_segs (root s) @ [''.blobx'', ''objects''] @ Split key CHR ''/''
       \<and> list_all plain_seg (path_segs (objectPath s key))
       \<and> (objectPath s key = objectPath s key' \<longrightarrow> key = key')
       \<and> path_segs (objectPath s key) \<noteq> path_segs (metadataPath sha s key')"
proof -
  have o: "path_segs (objectPath s key) = obj s key" "path_segs (objectPath s key') = obj s key'"
    using assms by (simp_all add: objectPath_segs)
  have "key = key'" if "objectPath s key = objectPath s key'"
  proof -
    from that o have "Split key CHR ''/'' = Split key' CHR ''/''" by (simp add: obj_def)
    then show ?thesis by (metis Join_Split)
  qed
  moreover have "list_all plain_seg (obj s key)"
    using assms(1,3) by (auto simp: NormalizeKey_Inr obj_def base_def root_ok_def list_all_iff plain_seg_def)
  moreover have "obj s key \<noteq> path_segs (metadataPath sha s key')"
    unfolding metadataPath_segs(1) [OF assms(1,2)] by (rule temp_facts)
  ultimately show ?thesis by (simp add: o) (simp add: obj_def base_def)
qed

theorem file_store_confined_witness:
  "path_segs (objectPath demo_store ''a/..b'') = [''.blobx'', ''objects'', ''a'', ''..b'']"
proof -
  have k: "NormalizeKey ''a/..b'' = Inr ''a/..b''" by (simp add: NormalizeKey_Inr plain_seg_def)
  have "root_ok demo_store" "sha_ok demo_sha" using demo_inv by (auto simp: file_inv_def)
  from file_store_confined [OF this k k] show ?thesis by (simp add: demo_store_def path_segs_def)
qed

text \<open>C20. Atomic replacement: whatever calls of the operating system fail, whatever the reader and the
  context do, when \<^verbatim>\<open>Put\<close> returns the object's file holds what it held before or all that the reader
  delivered up to its end, never a part of it; success means the latter, with matching size and
  digest; every file but the object, its metadata and the temporary one is unchanged; and no
  temporary file remains unless removing it failed.\<close>

theorem file_put_atomic:
  assumes "root_ok s" "sha_ok sha" "NormalizeKey key = Inr key" "last (Split key CHR ''/'') \<noteq> temp_name tmp"
    and put: "FileStore_Put sha enc s tmp flt now ctx key (Some src) opts fs = Return (r, fs')"
  shows "(content fs' (obj s key) = content fs (obj s key) \<and> (\<exists>e. r = Inl e)
          \<or> (\<exists>k. (\<forall>j<k. snd (src j) = None) \<and> (\<exists>e. snd (src k) = Some e \<and> errors_Is e EOF)
               \<and> content fs' (obj s key) = Some (delivered src (Suc k))
               \<and> (\<forall>ob. r = Inr ob \<longrightarrow> Size ob = length (delivered src (Suc k)) \<and> ETag ob = hex (sha (delivered src (Suc k))))))
       \<and> (\<forall>p. p \<notin> {obj s key, meta sha s key, temp s tmp key} \<longrightarrow> content fs' p = content fs p)
       \<and> (cleanup_f flt = None \<and> look fs (temp s tmp key) = None \<longrightarrow> look fs' (temp s tmp key) = None)"
proof -
  let ?T = "temp s tmp key"
  have TO: "?T \<noteq> obj s key" using assms(4) by (rule temp_apart)
  show ?thesis
    using put
  proof (cases rule: FileStore_Put_cases [OF put assms(3,1), case_names mkdir create copied])
    case mkdir
    then show ?thesis by auto
  next
    case (create e)
    then show ?thesis
      using content_mkdirs [OF create(2)] os_MkdirAll_look [OF create(2), of ?T] temp_apart(2) [of s tmp key] by auto
  next
    case (copied fs1 fs2 n err fs3 c h fs4)
    obtain b where b: "look fs3 ?T = Some (File b now)" "walk fs3 [] ?T = None" "\<And>p. p \<noteq> ?T \<Longrightarrow> content fs3 p = content fs p"
      and read: "err = None \<Longrightarrow> \<exists>k. (\<forall>j<k. snd (src j) = None) \<and> (\<exists>e. snd (src k) = Some e \<and> errors_Is e EOF)
       \<and> n = length (delivered src (Suc k)) \<and> h = delivered src (Suc k) \<and> b = delivered src (Suc k)"
      using put_copied [OF copied(1-3)] by blast
    note rm = cleanup_effect [where T = ?T and f = "cleanup_f flt" and fs = fs4, folded copied(5)]
    from put_commit_effect [OF copied(4) assms(1-3) refl TO b(1)] show ?thesis
    proof (elim disjE)
      assume "(\<exists>e. r = Inl e) \<and> fs4 = fs3"
      then show ?thesis using rm b TO by auto
    next
      assume fin: "err = None \<and> content fs4 (obj s key) = Some b \<and> look fs4 ?T = None
        \<and> (\<forall>p. p \<notin> {?T, obj s key, meta sha s key} \<longrightarrow> content fs4 p = content fs3 p)
        \<and> (\<forall>ob. r = Inr ob \<longrightarrow> ob = \<lparr>Key = key, Size = n, ContentType = Opt_ContentType opts, ETag = hex (sha h), LastModified = now\<rparr>)"
      then obtain k where k: "\<forall>j<k. snd (src j) = None" "\<exists>e. snd (src k) = Some e \<and> errors_Is e EOF"
        "n = length (delivered src (Suc k))" "h = delivered src (Suc k)" "b = delivered src (Suc k)"
        using read by blast
      with fin rm b(3) TO show ?thesis by (intro conjI disjI2 exI [of _ k]) auto
    qed
  qed
qed

theorem file_put_atomic_witness:
  "\<exists>r fs'. FileStore_Put demo_sha demo_enc demo_store ''7'' no_faults 5 Background ''a'' (Some (buffer_string ''xy''))
        \<lparr>Opt_ContentType = []\<rparr> demo_fs = Return (r, fs')
     \<and> content fs' (obj demo_store ''a'') \<in> {None, Some (bytes_of ''xy'')}"
proof -
  have k: "NormalizeKey ''a'' = Inr ''a''" by (simp add: NormalizeKey_Inr plain_seg_def)
  have t: "last (Split ''a'' CHR ''/'') \<noteq> temp_name ''7''" by (simp add: temp_name_def)
  have ok: "root_ok demo_store" "sha_ok demo_sha" using demo_inv by (auto simp: file_inv_def)
  obtain r fs' where p: "FileStore_Put demo_sha demo_enc demo_store ''7'' no_faults 5 Background ''a''
      (Some (buffer_string ''xy'')) \<lparr>Opt_ContentType = []\<rparr> demo_fs = Return (r, fs')"
    using put_effect [OF demo_inv k demo_free [OF t] buffer_string_ends demo_codec, of "\<lparr>Opt_ContentType = []\<rparr>" 5 "''xy''"]
    by auto
  have d: "delivered (buffer_string ''xy'') (Suc k) = bytes_of ''xy''"
    if "\<forall>j<k. snd (buffer_string ''xy'' j) = None" "snd (buffer_string ''xy'' k) = Some e" for k e
  proof -
    have "k = 1" using that buffer_string_ends [of "''xy''"] unfolding ends_at_def by (metis linorder_neqE_nat option.distinct(1))
    then show ?thesis by (simp only: buffer_string_delivered)
  qed
  have "content demo_fs (obj demo_store ''a'') = None" by (simp add: content_def demo_fs_def obj_def)
  moreover from file_put_atomic [OF ok k t p]
  have "content fs' (obj demo_store ''a'') = content demo_fs (obj demo_store ''a'')
     \<or> (\<exists>k. (\<forall>j<k. snd (buffer_string ''xy'' j) = None) \<and> (\<exists>e. snd (buffer_string ''xy'' k) = Some e \<and> errors_Is e EOF)
          \<and> content fs' (obj demo_store ''a'') = Some (delivered (buffer_string ''xy'') (Suc k)))" by blast
  ultimately have "content fs' (obj demo_store ''a'') \<in> {None, Some (bytes_of ''xy'')}" using d by auto
  with p show ?thesis by blast
qed

text \<open>The contract suite passes on the file store in every state of the tree where nothing is in
  the way of the two keys it uses, with a codec that keeps the content type and the digest.\<close>

theorem file_store_contract:
  assumes "file_inv sha s fs" "file_free s tmp fs ''missing.txt''" "file_free s tmp fs ''folder/object.txt''"
    and "file_view s fs ''missing.txt'' = None"
    and "file_opt_ok enc dec now \<lparr>Opt_ContentType = ''text/plain''\<rparr>" "file_opt_ok enc dec now \<lparr>Opt_ContentType = []\<rparr>"
  shows "blobtest_Run (FileStore_Put sha enc s tmp no_faults) (FileStore_Get sha dec s no_faults)
           (FileStore_Stat sha dec s no_faults) (FileStore_Delete sha s no_faults) now fs"
  by (rule file_store.contract) (use assms in simp_all)

theorem file_store_contract_witness:
  "blobtest_Run (FileStore_Put demo_sha demo_enc demo_store ''7'' no_faults) (FileStore_Get demo_sha demo_dec demo_store no_faults)
     (FileStore_Stat demo_sha demo_dec demo_store no_faults) (FileStore_Delete demo_sha demo_store no_faults) 5 demo_fs"
  by (rule file_store_contract [OF demo_inv demo_free demo_free _ demo_codec demo_codec])
     (simp_all add: temp_name_def file_view_def content_def demo_fs_def obj_def)

text \<open>Keys that are prefixes of one another: once an object is stored under \<^verbatim>\<open>a/b\<close>, deleting the
  missing object \<^verbatim>\<open>a\<close> fails; once one is stored under \<^verbatim>\<open>a\<close>, the missing object \<^verbatim>\<open>a/b\<close> is reported with an
  error that is not \<^verbatim>\<open>ErrNotFound\<close>.\<close>

theorem file_store_prefix_keys:
  "fst (FileStore_Delete demo_sha demo_store no_faults Background ''a''
      [([], Dir), ([''.blobx''], Dir), ([''.blobx'', ''objects''], Dir), ([''.blobx'', ''objects'', ''a''], Dir),
       ([''.blobx'', ''objects'', ''a'', ''b''], File [1] 5)]) = Some (sys_err ''blobx: delete object: '' ENOTEMPTY)
   \<and> FileStore_Stat demo_sha demo_dec demo_store no_faults Background ''a/b''
      [([], Dir), ([''.blobx''], Dir), ([''.blobx'', ''objects''], Dir), ([''.blobx'', ''objects'', ''a''], File [1] 5)]
     = Inl (sys_err ''blobx: stat object: '' ENOTDIR)
   \<and> \<not> errors_Is (sys_err ''blobx: stat object: '' ENOTDIR) ErrNotFound"
proof -
  have k: "NormalizeKey ''a'' = Inr ''a''" "NormalizeKey ''a/b'' = Inr ''a/b''" by (simp_all add: NormalizeKey_Inr plain_seg_def)
  have ok: "root_ok demo_store" using demo_inv by (simp add: file_inv_def)
  have o: "obj demo_store ''a'' = [''.blobx'', ''objects'', ''a'']" "obj demo_store ''a/b'' = [''.blobx'', ''objects'', ''a'', ''b'']"
    by (simp_all add: obj_def base_def demo_store_def path_segs_def)
  show ?thesis
    using k by (simp add: FileStore_Delete_def FileStore_Stat_def objectPath_segs [OF ok] o os_Remove_def os_Stat_def
        has_children_def sys_err_def ErrNotFound_def)
qed

lemma put_diverges:
  assumes "file_inv sha s fs" "file_free s tmp fs key" "NormalizeKey key = Inr key" "\<forall>n. ctx n = None" "\<forall>n. snd (src n) = None"
  shows "FileStore_Put sha enc s tmp no_faults now ctx key (Some src) opts fs = Diverge"
proof -
  have ok: "root_ok s" using assms(1) by (simp add: file_inv_def)
  obtain fs1 where "os_MkdirAll None (butlast (obj s key)) fs = Inr fs1"
    "os_Create None (temp s tmp key) now fs1 = Inr (upd (temp s tmp key) (File [] now) fs1)"
    using put_begins [OF assms(1,2)] by blast
  moreover have "copyContext ctx (MultiWriter (temp_Write no_faults T now) Buffer_Write) src w = None" for T w
    unfolding copyContext_def copy_all_def
    by (rule copy_loop_diverges [OF assms(4,5) temp_accepts [unfolded accepts_all_on]]) simp
  ultimately show ?thesis
    using assms(3) by (simp add: FileStore_Put_def objectPath_segs [OF ok assms(3)] flip: temp_def)
qed

text \<open>C27. Storing returns: whichever calls of the operating system fail, \<^verbatim>\<open>Put\<close> comes back as soon as the
  reader reports its end or an error or the context is cancelled; and if neither ever happens, only a
  failure stops it: without one it reads for ever.\<close>

theorem put_returns:
  "((\<exists>n. ctx n \<noteq> None \<or> snd (src n) \<noteq> None) \<longrightarrow>
      (\<exists>r fs'. FileStore_Put sha enc s tmp flt now ctx key (Some src) opts fs = Return (r, fs')))
   \<and> (file_inv sha s fs \<and> file_free s tmp fs key \<and> NormalizeKey key = Inr key
        \<and> (\<forall>n. ctx n = None) \<and> (\<forall>n. snd (src n) = None) \<longrightarrow>
      FileStore_Put sha enc s tmp no_faults now ctx key (Some src) opts fs = Diverge)"
proof (intro conjI impI)
  assume "\<exists>n. ctx n \<noteq> None \<or> snd (src n) \<noteq> None"
  then have c: "copyContext ctx wr src w \<noteq> None" for wr :: "(blob_cause, (fs \<times> nat) \<times> bytes) writer" and w
    using copy_loop_ends [of 0 _ ctx src wr 0 w] unfolding copyContext_def copy_all_def by blast
  have "FileStore_Put sha enc s tmp flt now ctx key (Some src) opts fs \<noteq> Diverge
      \<and> (\<forall>m. FileStore_Put sha enc s tmp flt now ctx key (Some src) opts fs \<noteq> Panic m)"
    using c by (simp add: FileStore_Put_def Let_def del: not_None_eq split: sum.split option.split prod.split)
  then show "\<exists>r fs'. FileStore_Put sha enc s tmp flt now ctx key (Some src) opts fs = Return (r, fs')"
    by (cases "FileStore_Put sha enc s tmp flt now ctx key (Some src) opts fs") auto
next
  assume "file_inv sha s fs \<and> file_free s tmp fs key \<and> NormalizeKey key = Inr key
        \<and> (\<forall>n. ctx n = None) \<and> (\<forall>n. snd (src n) = None)"
  then show "FileStore_Put sha enc s tmp no_faults now ctx key (Some src) opts fs = Diverge"
    by (intro put_diverges) simp_all
qed

theorem put_returns_witness:
  "(\<exists>r fs'. FileStore_Put demo_sha demo_enc demo_store ''7'' no_faults 5 (\<lambda>i. if i = 3 then Some Canceled else None) ''a''
      (Some (\<lambda>_. ([0], None))) \<lparr>Opt_ContentType = []\<rparr> demo_fs = Return (r, fs'))
   \<and> FileStore_Put demo_sha demo_enc demo_store ''7'' no_faults 5 Background ''a'' (Some (\<lambda>_. ([0], None)))
      \<lparr>Opt_ContentType = []\<rparr> demo_fs = Diverge"
proof (intro conjI)
  show "\<exists>r fs'. FileStore_Put demo_sha demo_enc demo_store ''7'' no_faults 5 (\<lambda>i. if i = 3 then Some Canceled else None) ''a''
      (Some (\<lambda>_. ([0], None))) \<lparr>Opt_ContentType = []\<rparr> demo_fs = Return (r, fs')"
    by (rule put_returns [THEN conjunct1, THEN mp]) (auto intro: exI [of _ 3])
  have k: "NormalizeKey ''a'' = Inr ''a''" by (simp add: NormalizeKey_Inr plain_seg_def)
  have t: "last (Split ''a'' CHR ''/'') \<noteq> temp_name ''7''" by (simp add: temp_name_def)
  show "FileStore_Put demo_sha demo_enc demo_store ''7'' no_faults 5 Background ''a'' (Some (\<lambda>_. ([0], None)))
      \<lparr>Opt_ContentType = []\<rparr> demo_fs = Diverge"
    by (rule put_returns [THEN conjunct2, THEN mp]) (simp add: demo_inv demo_free [OF t] k)
qed

end
