(* ===== verification/Blobx_Concurrent.thy ===== *)
theory Blobx_Concurrent
  imports Blobx_File
begin

text \<open>
  The file store under concurrent use (\<^verbatim>\<open>blobx/file.go\<close>). It has no lock: any number of goroutines run
  \<^verbatim>\<open>Put\<close>, \<^verbatim>\<open>Get\<close>, \<^verbatim>\<open>Stat\<close> and \<^verbatim>\<open>Delete\<close> on one tree, and a step is one call of the operating system, each
  of which may fail. The two functions of package \<^verbatim>\<open>os\<close> that change the tree by several system calls are
  taken apart: \<^verbatim>\<open>os.MkdirAll\<close> makes one directory after the other, and \<^verbatim>\<open>os.WriteFile\<close> opens and truncates
  the metadata file and then writes to it, so others see it empty or in part, and two goroutines may
  write over each other. Reading the metadata file is one step. \<open>proc\<close> says where in its operation a goroutine is, \<open>pstep\<close> is a step of one
  goroutine and \<open>fstep\<close> one of the system. The lemmas \<open>put_alone\<close>, \<open>get_alone\<close> and \<open>delete_alone\<close> show
  that a goroutine which nobody interrupts does what the operations of \<open>Blobx_File\<close> do.
\<close>

section \<open>Steps\<close>

datatype result = Stored Object | Got bytes Object | Statted Object | Deleted | Failed blob_error

text \<open>A \<^verbatim>\<open>Put\<close> has its key and options, then also the random part of its temporary file's name and the bytes
  hashed so far; \<open>PutMetadata\<close> has the open metadata file, with the bytes still to be written and the
  offset. A read is a \<^verbatim>\<open>Stat\<close> or, with \<open>True\<close>, the \<^verbatim>\<open>Get\<close> that goes on to open the file.\<close>

datatype proc =
    Idle
  | PutMkdir string PutOptions
  | PutCreate string PutOptions
  | PutCopy string PutOptions string bytes
  | PutClose string PutOptions string bytes
  | PutRename string PutOptions string bytes
  | PutStat string PutOptions string bytes
  | PutMkmeta string string Object
  | PutWritemeta string string Object bytes
  | PutMetadata string string Object bytes nat
  | PutCleanup string string result
  | ReadStat bool string
  | ReadMeta bool string Object
  | ReadOpen string Object
  | DelObject string
  | DelMeta string
  | Finished result

text \<open>What others can see of a step: that a reader has delivered all of an object, that an object is
  replaced, erased or opened.\<close>

datatype label = Quiet | Uploaded string bytes | Replace string bytes | Erase string | Opened string bytes

fun temp_of :: "proc \<Rightarrow> string option" where
  "temp_of (PutCopy k opts x h) = Some x"
| "temp_of (PutClose k opts x h) = Some x"
| "temp_of (PutRename k opts x h) = Some x"
| "temp_of (PutStat k opts x h) = Some x"
| "temp_of (PutMkmeta k x ob) = Some x"
| "temp_of (PutWritemeta k x ob bs) = Some x"
| "temp_of (PutMetadata k x ob bs off) = Some x"
| "temp_of (PutCleanup k x r) = Some x"
| "temp_of p = None"

definition object_file :: "FileStore \<Rightarrow> string \<Rightarrow> fpath" where
  "object_file s key = path_segs (objectPath s key)"

definition temp_file :: "FileStore \<Rightarrow> string \<Rightarrow> string \<Rightarrow> fpath" where
  "temp_file s x key = path_segs (path_Dir (objectPath s key)) @ [temp_name x]"

text \<open>\<open>used\<close> are the names of the temporary files of the other goroutines: \<^verbatim>\<open>os.CreateTemp\<close> is documented
  never to give two of them the same. \<open>K\<close> are the keys in use. A write to the open metadata file goes to
  the file of that name or, if that one was removed since, to no file that has a name
  (\<open>write_removed\<close>).\<close>

inductive pstep ::
  "(bytes \<Rightarrow> bytes) \<Rightarrow> (Object \<Rightarrow> string + bytes) \<Rightarrow> (bytes \<Rightarrow> string + Object) \<Rightarrow> FileStore \<Rightarrow> string set \<Rightarrow> string set
   \<Rightarrow> proc \<Rightarrow> fs \<Rightarrow> label \<Rightarrow> proc \<Rightarrow> fs \<Rightarrow> bool"
  for sha enc dec s K used where
  rejected: "pstep sha enc dec s K used Idle t Quiet (Finished (Failed e)) t"
| put: "\<lbrakk>k \<in> K; NormalizeKey k = Inr k\<rbrakk> \<Longrightarrow> pstep sha enc dec s K used Idle t Quiet (PutMkdir k opts) t"
| mkdir_parent: "os_MkdirAll None (take n (path_segs (path_Dir (objectPath s k)))) t = Inr t' \<Longrightarrow>
    pstep sha enc dec s K used (PutMkdir k opts) t Quiet (PutMkdir k opts) t'"
| mkdir: "os_MkdirAll f (path_segs (path_Dir (objectPath s k))) t = Inr t' \<Longrightarrow>
    pstep sha enc dec s K used (PutMkdir k opts) t Quiet (PutCreate k opts) t'"
| mkdir_fails: "os_MkdirAll f (path_segs (path_Dir (objectPath s k))) t = Inl e \<Longrightarrow>
    pstep sha enc dec s K used (PutMkdir k opts) t Quiet (Finished (Failed (sys_err ''blobx: create object parent: '' e))) t"
| create: "\<lbrakk>os_Create f (temp_file s x k) now t = Inr t'; x \<notin> used\<rbrakk> \<Longrightarrow>
    pstep sha enc dec s K used (PutCreate k opts) t Quiet (PutCopy k opts x []) t'"
| create_fails: "os_Create f (temp_file s x k) now t = Inl e \<Longrightarrow>
    pstep sha enc dec s K used (PutCreate k opts) t Quiet (Finished (Failed (sys_err ''blobx: create temporary object: '' e))) t"
| write_chunk: "os_append None (temp_file s x k) now d t = (n, None, t') \<Longrightarrow>
    pstep sha enc dec s K used (PutCopy k opts x h) t Quiet (PutCopy k opts x (h @ d)) t'"
| write_fails: "os_append (Some fault) (temp_file s x k) now d t = (n, Some e, t') \<Longrightarrow>
    pstep sha enc dec s K used (PutCopy k opts x h) t Quiet (PutCleanup k x (Failed (Wrap ''blobx: write object: '' (Ext (Errno e))))) t'"
| read_fails: "pstep sha enc dec s K used (PutCopy k opts x h) t Quiet (PutCleanup k x (Failed (Wrap ''blobx: write object: '' e))) t"
| read_ends: "pstep sha enc dec s K used (PutCopy k opts x h) t (Uploaded k h) (PutClose k opts x h) t"
| close: "pstep sha enc dec s K used (PutClose k opts x h) t Quiet (PutRename k opts x h) t"
| close_fails: "pstep sha enc dec s K used (PutClose k opts x h) t Quiet (PutCleanup k x (Failed (sys_err ''blobx: close object: '' e))) t"
| rename: "os_Rename f (temp_file s x k) (object_file s k) t = Inr t' \<Longrightarrow>
    pstep sha enc dec s K used (PutRename k opts x h) t (Replace k h) (PutStat k opts x h) t'"
| rename_fails: "os_Rename f (temp_file s x k) (object_file s k) t = Inl e \<Longrightarrow>
    pstep sha enc dec s K used (PutRename k opts x h) t Quiet (PutCleanup k x (Failed (sys_err ''blobx: replace object: '' e))) t"
| stat: "\<lbrakk>os_Stat f (object_file s k) t = Inr nd; \<forall>b m. nd = File b m \<longrightarrow> now = m\<rbrakk> \<Longrightarrow>
    pstep sha enc dec s K used (PutStat k opts x h) t Quiet
      (PutMkmeta k x \<lparr>Key = k, Size = length h, ContentType = Opt_ContentType opts, ETag = hex (sha h), LastModified = now\<rparr>) t"
| stat_fails: "os_Stat f (object_file s k) t = Inl e \<Longrightarrow>
    pstep sha enc dec s K used (PutStat k opts x h) t Quiet (PutCleanup k x (Failed (sys_err ''blobx: stat written object: '' e))) t"
| mkmeta_parent: "\<lbrakk>enc ob = Inr bs; os_MkdirAll None (take n (path_segs (path_Dir (metadataPath sha s k)))) t = Inr t'\<rbrakk> \<Longrightarrow>
    pstep sha enc dec s K used (PutMkmeta k x ob) t Quiet (PutMkmeta k x ob) t'"
| mkmeta: "\<lbrakk>enc ob = Inr bs; os_MkdirAll f (path_segs (path_Dir (metadataPath sha s k))) t = Inr t'\<rbrakk> \<Longrightarrow>
    pstep sha enc dec s K used (PutMkmeta k x ob) t Quiet (PutWritemeta k x ob bs) t'"
| encode_fails: "enc ob = Inl m \<Longrightarrow>
    pstep sha enc dec s K used (PutMkmeta k x ob) t Quiet
      (PutCleanup k x (Failed (Wrap ''blobx: encode object metadata: '' (Ext (JSONError m))))) t"
| mkmeta_fails: "\<lbrakk>enc ob = Inr bs; os_MkdirAll f (path_segs (path_Dir (metadataPath sha s k))) t = Inl e\<rbrakk> \<Longrightarrow>
    pstep sha enc dec s K used (PutMkmeta k x ob) t Quiet
      (PutCleanup k x (Failed (sys_err ''blobx: create metadata directory: '' e))) t"
| open_meta: "os_WriteFile None (path_segs (metadataPath sha s k)) now [] t = (None, t') \<Longrightarrow>
    pstep sha enc dec s K used (PutWritemeta k x ob bs) t Quiet (PutMetadata k x ob bs 0) t'"
| open_meta_fails:
    "pstep sha enc dec s K used (PutWritemeta k x ob bs) t Quiet
      (PutCleanup k x (Failed (sys_err ''blobx: write object metadata: '' e))) t"
| write_meta: "t' = os_write_at (path_segs (metadataPath sha s k)) off now d t \<Longrightarrow>
    pstep sha enc dec s K used (PutMetadata k x ob (d @ bs) off) t Quiet (PutMetadata k x ob bs (off + length d)) t'"
| write_removed:
    "pstep sha enc dec s K used (PutMetadata k x ob (d @ bs) off) t Quiet (PutMetadata k x ob bs (off + length d)) t"
| write_meta_fails:
    "pstep sha enc dec s K used (PutMetadata k x ob bs off) t Quiet
      (PutCleanup k x (Failed (sys_err ''blobx: write object metadata: '' e))) t"
| close_meta: "pstep sha enc dec s K used (PutMetadata k x ob [] off) t Quiet (PutCleanup k x (Stored ob)) t"
| cleanup: "os_Remove f (temp_file s x k) t = (e, t') \<Longrightarrow>
    pstep sha enc dec s K used (PutCleanup k x r) t Quiet (Finished r) t'"
| read: "\<lbrakk>k \<in> K; NormalizeKey k = Inr k\<rbrakk> \<Longrightarrow> pstep sha enc dec s K used Idle t Quiet (ReadStat g k) t"
| read_stat: "os_Stat f (object_file s k) t = Inr (File b m) \<Longrightarrow>
    pstep sha enc dec s K used (ReadStat g k) t Quiet
      (ReadMeta g k \<lparr>Key = k, Size = length b, ContentType = [], ETag = [], LastModified = m\<rparr>) t"
| read_missing: "os_Stat f (object_file s k) t = Inl ENOENT \<or> os_Stat f (object_file s k) t = Inr Dir \<Longrightarrow>
    pstep sha enc dec s K used (ReadStat g k) t Quiet (Finished (Failed ErrNotFound)) t"
| read_stat_fails: "\<lbrakk>os_Stat f (object_file s k) t = Inl e; e \<noteq> ENOENT\<rbrakk> \<Longrightarrow>
    pstep sha enc dec s K used (ReadStat g k) t Quiet (Finished (Failed (sys_err ''blobx: stat object: '' e))) t"
| read_meta: "ob' = (case readMetadata dec flt (metadataPath sha s k) t of Inl e \<Rightarrow> ob
      | Inr md \<Rightarrow> ob\<lparr>ContentType := ContentType md, ETag := ETag md\<rparr>) \<Longrightarrow>
    pstep sha enc dec s K used (ReadMeta g k ob) t Quiet (if g then ReadOpen k ob' else Finished (Statted ob')) t"
| open_file: "os_ReadFile f (object_file s k) t = Inr b \<Longrightarrow>
    pstep sha enc dec s K used (ReadOpen k ob) t (Opened k b) (Finished (Got b ob)) t"
| open_missing: "os_ReadFile f (object_file s k) t = Inl ENOENT \<Longrightarrow>
    pstep sha enc dec s K used (ReadOpen k ob) t Quiet (Finished (Failed ErrNotFound)) t"
| open_fails: "\<lbrakk>os_ReadFile f (object_file s k) t = Inl e; e \<noteq> ENOENT\<rbrakk> \<Longrightarrow>
    pstep sha enc dec s K used (ReadOpen k ob) t Quiet (Finished (Failed (sys_err ''blobx: open object: '' e))) t"
| delete: "\<lbrakk>k \<in> K; NormalizeKey k = Inr k\<rbrakk> \<Longrightarrow> pstep sha enc dec s K used Idle t Quiet (DelObject k) t"
| remove: "os_Remove f (object_file s k) t = (None, t') \<Longrightarrow>
    pstep sha enc dec s K used (DelObject k) t (Erase k) (DelMeta k) t'"
| remove_missing: "os_Remove f (object_file s k) t = (Some ENOENT, t') \<Longrightarrow>
    pstep sha enc dec s K used (DelObject k) t Quiet (DelMeta k) t'"
| remove_fails: "\<lbrakk>os_Remove f (object_file s k) t = (Some e, t'); e \<noteq> ENOENT\<rbrakk> \<Longrightarrow>
    pstep sha enc dec s K used (DelObject k) t Quiet (Finished (Failed (sys_err ''blobx: delete object: '' e))) t'"
| remove_meta: "\<lbrakk>os_Remove f (path_segs (metadataPath sha s k)) t = (e, t'); e = None \<or> e = Some ENOENT\<rbrakk> \<Longrightarrow>
    pstep sha enc dec s K used (DelMeta k) t Quiet (Finished Deleted) t'"
| remove_meta_fails: "\<lbrakk>os_Remove f (path_segs (metadataPath sha s k)) t = (Some e, t'); e \<noteq> ENOENT\<rbrakk> \<Longrightarrow>
    pstep sha enc dec s K used (DelMeta k) t Quiet (Finished (Failed (sys_err ''blobx: delete object metadata: '' e))) t'"
| return: "pstep sha enc dec s K used (Finished r) t Quiet Idle t"

record sys =
  tree :: fs
  procs :: "nat \<Rightarrow> proc"

definition names_of_others :: "nat \<Rightarrow> sys \<Rightarrow> string set" where
  "names_of_others i u = {x. \<exists>j. j \<noteq> i \<and> temp_of (procs u j) = Some x}"

inductive fstep ::
  "(bytes \<Rightarrow> bytes) \<Rightarrow> (Object \<Rightarrow> string + bytes) \<Rightarrow> (bytes \<Rightarrow> string + Object) \<Rightarrow> FileStore \<Rightarrow> string set \<Rightarrow> sys \<Rightarrow> label \<Rightarrow> sys \<Rightarrow> bool"
  for sha enc dec s K where
  "pstep sha enc dec s K (names_of_others i u) (procs u i) (tree u) l p t \<Longrightarrow>
   fstep sha enc dec s K u l \<lparr>tree = t, procs = (procs u)(i := p)\<rparr>"

definition start :: "fs \<Rightarrow> sys" where
  "start t = \<lparr>tree = t, procs = (\<lambda>_. Idle)\<rparr>"

text \<open>A run with its labels, the last one first.\<close>

inductive frun ::
  "(bytes \<Rightarrow> bytes) \<Rightarrow> (Object \<Rightarrow> string + bytes) \<Rightarrow> (bytes \<Rightarrow> string + Object) \<Rightarrow> FileStore \<Rightarrow> string set \<Rightarrow> fs \<Rightarrow> label list \<Rightarrow> sys \<Rightarrow> bool"
  for sha enc dec s K t0 where
  begin_run: "frun sha enc dec s K t0 [] (start t0)"
| step: "\<lbrakk>frun sha enc dec s K t0 ls u; fstep sha enc dec s K u l u'\<rbrakk> \<Longrightarrow> frun sha enc dec s K t0 (l # ls) u'"

section \<open>What a step changes\<close>

fun key_of :: "proc \<Rightarrow> string option" where
  "key_of Idle = None"
| "key_of (PutMkdir k opts) = Some k"
| "key_of (PutCreate k opts) = Some k"
| "key_of (PutCopy k opts x h) = Some k"
| "key_of (PutClose k opts x h) = Some k"
| "key_of (PutRename k opts x h) = Some k"
| "key_of (PutStat k opts x h) = Some k"
| "key_of (PutMkmeta k x ob) = Some k"
| "key_of (PutWritemeta k x ob bs) = Some k"
| "key_of (PutMetadata k x ob bs off) = Some k"
| "key_of (PutCleanup k x r) = Some k"
| "key_of (ReadStat g k) = Some k"
| "key_of (ReadMeta g k ob) = Some k"
| "key_of (ReadOpen k ob) = Some k"
| "key_of (DelObject k) = Some k"
| "key_of (DelMeta k) = Some k"
| "key_of (Finished r) = None"

definition key_ok :: "string set \<Rightarrow> proc \<Rightarrow> bool" where
  "key_ok K p \<longleftrightarrow> (\<forall>k. key_of p = Some k \<longrightarrow> k \<in> K \<and> NormalizeKey k = Inr k)"

text \<open>From the creation of its temporary file to the renaming a \<^verbatim>\<open>Put\<close> relies on what the file holds.\<close>

fun held :: "proc \<Rightarrow> (string \<times> string \<times> bytes) option" where
  "held (PutCopy k opts x h) = Some (k, x, h)"
| "held (PutClose k opts x h) = Some (k, x, h)"
| "held (PutRename k opts x h) = Some (k, x, h)"
| "held p = None"

definition intact :: "FileStore \<Rightarrow> proc \<Rightarrow> fs \<Rightarrow> bool" where
  "intact s p t \<longleftrightarrow> (\<forall>k x h. held p = Some (k, x, h) \<longrightarrow> content t (temp s x k) = Some h)"

text \<open>Keys that no temporary file's name can equal.\<close>

definition no_temp_names :: "string set \<Rightarrow> bool" where
  "no_temp_names K \<longleftrightarrow> (\<forall>k\<in>K. \<not> HasPrefix (last (Split k CHR ''/'')) ''.blobx-'')"

lemma temp_not_obj: "\<lbrakk>no_temp_names K; k \<in> K\<rbrakk> \<Longrightarrow> temp s x j \<noteq> obj s k"
proof -
  assume "no_temp_names K" "k \<in> K"
  then have "last (Split k CHR ''/'') \<noteq> temp_name x" by (auto simp: no_temp_names_def temp_name_def HasPrefix_def)
  then show ?thesis unfolding temp_def obj_def
    by (metis Split_nonempty last_appendR last_ConsR last_snoc list.distinct(1))
qed

lemma temp_names_differ: "x \<noteq> y \<Longrightarrow> temp s x j \<noteq> temp s y k"
  by (auto simp: temp_def temp_name_def)

lemma content_upd [simp]: "content (upd p n fs) q = (if q = p then case n of File b _ \<Rightarrow> Some b | Dir \<Rightarrow> None else content fs q)"
  by (simp add: content_def)

lemma content_del [simp]: "content (del p fs) q = (if q = p then None else content fs q)"
  by (simp add: content_def)

lemma content_append:
  "os_append f p now d fs = (n, None, fs') \<Longrightarrow> content fs p = Some b \<Longrightarrow> content fs' p = Some (b @ d)"
  "os_append f p now d fs = (n, e, fs') \<Longrightarrow> q \<noteq> p \<Longrightarrow> content fs' q = content fs q"
  by (auto simp: os_append_def Let_def content_def split: option.splits node.splits)

lemma content_Create: "os_Create f p now fs = Inr fs' \<Longrightarrow> content fs' q = (if q = p then Some [] else content fs q)"
  by (auto simp: os_Create_Inr)

lemma content_Rename:
  "\<lbrakk>os_Rename f p q fs = Inr fs'; p \<noteq> q; content fs p = Some b\<rbrakk> \<Longrightarrow>
   content fs' r = (if r = q then Some b else if r = p then None else content fs r)"
  by (auto simp: os_Rename_Inr content_file)

lemma content_Remove:
  assumes "os_Remove f p fs = (e, fs')"
  shows "content fs' q = (if q = p \<and> e = None then None else content fs q)"
proof -
  have "content (snd (os_Remove f p fs)) q = (if q = p \<and> fst (os_Remove f p fs) = None then None else content fs q)"
    by (simp add: os_Remove_def content_def split: option.split node.split)
  with assms show ?thesis by simp
qed

lemma content_WriteFile: "\<lbrakk>os_WriteFile f p now d fs = (e, fs'); q \<noteq> p\<rbrakk> \<Longrightarrow> content fs' q = content fs q"
  by (auto simp: os_WriteFile_def split: option.splits if_splits)

lemma content_write_at: "q \<noteq> p \<Longrightarrow> content (os_write_at p off now d fs) q = content fs q"
  by (simp add: os_write_at_def split: option.split node.split)

lemma pstep_key_ok: "pstep sha enc dec s K used p t l p' t' \<Longrightarrow> key_ok K p \<Longrightarrow> key_ok K p'"
  by (induction rule: pstep.induct) (auto simp: key_ok_def)

text \<open>The files a step may change.\<close>

definition footprint :: "(bytes \<Rightarrow> bytes) \<Rightarrow> FileStore \<Rightarrow> string set \<Rightarrow> proc \<Rightarrow> proc \<Rightarrow> fpath set" where
  "footprint sha s K p p' =
     {q. \<exists>k. q = meta sha s k} \<union> obj s ` K \<union> {q. \<exists>x k. (temp_of p = Some x \<or> temp_of p' = Some x) \<and> q = temp s x k}"

lemma path_simps:
  assumes "root_ok s" "sha_ok sha" "NormalizeKey k = Inr k"
  shows "object_file s k = obj s k" "temp_file s x k = temp s x k" "path_segs (metadataPath sha s k) = meta sha s k"
  using objectPath_segs [OF assms(1,3)] metadataPath_segs [OF assms(1,2)]
  by (simp_all add: object_file_def temp_file_def temp_def)

lemma pstep_footprint:
  assumes "pstep sha enc dec s K used p t l p' t'" "root_ok s" "sha_ok sha" "key_ok K p" "intact s p t" "no_temp_names K"
    and "q \<notin> footprint sha s K p p'"
  shows "content t' q = content t q"
proof -
  note [simp] = path_simps [OF assms(2,3)]
  have t: "\<And>x k. k \<in> K \<Longrightarrow> temp s x j \<noteq> obj s k" for j using temp_not_obj [OF assms(6)] by blast
  from assms(1) show ?thesis
  proof (cases rule: pstep.cases)
    case (rename f x k opts h)
    with assms(4,5) have "content t (temp s x k) = Some h" "k \<in> K" by (auto simp: intact_def key_ok_def)
    with rename assms(4,7) t show ?thesis by (auto simp: key_ok_def footprint_def content_Rename)
  qed (use assms(4,7) in \<open>auto simp: key_ok_def footprint_def content_mkdirs content_Create content_append(2) content_WriteFile content_write_at content_Remove\<close>)
qed

lemma pstep_intact:
  assumes "pstep sha enc dec s K used p t l p' t'" "root_ok s" "sha_ok sha" "key_ok K p" "intact s p t"
  shows "intact s p' t'"
proof -
  note [simp] = path_simps [OF assms(2,3)]
  from assms(1) show ?thesis
    by (cases rule: pstep.cases)
       (use assms(4,5) in \<open>auto simp: key_ok_def intact_def content_Create intro: content_append(1)\<close>)
qed

lemma pstep_temp: "pstep sha enc dec s K used p t l p' t' \<Longrightarrow> temp_of p' = Some x \<Longrightarrow> temp_of p = Some x \<or> x \<notin> used"
  by (induction rule: pstep.induct) (auto split: if_splits)

section \<open>Refinement\<close>

text \<open>The abstract store: a map from keys to bytes. A step acts on it by its label.\<close>

definition view :: "FileStore \<Rightarrow> string set \<Rightarrow> sys \<Rightarrow> string \<Rightarrow> bytes option" where
  "view s K u k = (if k \<in> K then file_view s (tree u) k else None)"

fun spec_step :: "label \<Rightarrow> (string \<Rightarrow> bytes option) \<Rightarrow> (string \<Rightarrow> bytes option)" where
  "spec_step (Replace k h) m = m(k \<mapsto> h)"
| "spec_step (Erase k) m = m(k := None)"
| "spec_step l m = m"

definition allowed :: "label list \<Rightarrow> label \<Rightarrow> (string \<Rightarrow> bytes option) \<Rightarrow> bool" where
  "allowed ls l m \<longleftrightarrow>
     (case l of Replace k h \<Rightarrow> Uploaded k h \<in> set ls | Opened k b \<Rightarrow> m k = Some b | _ \<Rightarrow> True)"

lemma pstep_objects:
  assumes "pstep sha enc dec s K used p t l p' t'" "root_ok s" "sha_ok sha" "key_ok K p" "intact s p t" "no_temp_names K"
    and "k \<in> K" "NormalizeKey k = Inr k"
  shows "content t' (obj s k) = spec_step l (\<lambda>k. content t (obj s k)) k"
proof -
  note [simp] = path_simps [OF assms(2,3)]
  have t [simp]: "temp s x j \<noteq> obj s k" "obj s k \<noteq> temp s x j" for x j using temp_not_obj [OF assms(6,7)] by metis+
  from assms(1) show ?thesis
  proof (cases rule: pstep.cases)
    case (rename f x j opts h)
    with assms(4,5) have h: "content t (temp s x j) = Some h" "NormalizeKey j = Inr j" "j \<in> K" by (auto simp: intact_def key_ok_def)
    then have "temp s x j \<noteq> obj s j" using temp_not_obj [OF assms(6)] by blast
    with rename h show ?thesis by (simp add: content_Rename obj_inj)
  qed (use assms(4) in \<open>auto simp: key_ok_def content_mkdirs content_Create content_append(2) content_WriteFile content_write_at content_Remove
         temp_facts(2) obj_inj\<close>)
qed

text \<open>A goroutine past the end of its reader has said so.\<close>

definition ready :: "label list \<Rightarrow> proc \<Rightarrow> bool" where
  "ready ls p \<longleftrightarrow> (\<forall>k opts x h. p = PutClose k opts x h \<or> p = PutRename k opts x h \<longrightarrow> Uploaded k h \<in> set ls)"

lemma pstep_allowed:
  assumes "pstep sha enc dec s K used p t l p' t'" "root_ok s" "sha_ok sha" "key_ok K p"
    and "ready ls p"
  shows "allowed ls l (\<lambda>k. content t (obj s k))"
proof -
  note [simp] = path_simps [OF assms(2,3)]
  from assms(1) show ?thesis
  proof (cases rule: pstep.cases)
    case (open_file f k b ob)
    with assms(4) have "os_ReadFile f (obj s k) t = Inr b" by (auto simp: key_ok_def)
    then have "content t (obj s k) = Some b"
      by (auto simp: os_ReadFile_def content_def os_Stat_Inr split: sum.splits node.splits)
    with open_file show ?thesis by (simp add: allowed_def)
  qed (use assms(5) in \<open>auto simp: allowed_def ready_def\<close>)
qed

text \<open>The invariant of the system: keys are accepted, and temporary files are intact and of one owner each.\<close>

definition sys_inv :: "FileStore \<Rightarrow> string set \<Rightarrow> label list \<Rightarrow> sys \<Rightarrow> bool" where
  "sys_inv s K ls u \<longleftrightarrow>
     (\<forall>i. key_ok K (procs u i) \<and> intact s (procs u i) (tree u) \<and> ready ls (procs u i))
     \<and> (\<forall>i j x. i \<noteq> j \<longrightarrow> temp_of (procs u i) = Some x \<longrightarrow> temp_of (procs u j) \<noteq> Some x)"

lemma held_temp: "held p = Some (k, x, h) \<Longrightarrow> temp_of p = Some x \<and> key_of p = Some k"
  by (cases p) auto

lemma pstep_ready: "pstep sha enc dec s K used p t l p' t' \<Longrightarrow> ready ls p \<Longrightarrow> ready (l # ls) p'"
  by (induction rule: pstep.induct) (auto simp: ready_def)

lemma intact_other:
  assumes "pstep sha enc dec s K used p t l p' t'" "root_ok s" "sha_ok sha" "key_ok K p" "intact s p t" "no_temp_names K"
    and "intact s q t" "\<And>x. temp_of q = Some x \<Longrightarrow> temp_of p \<noteq> Some x \<and> x \<in> used"
  shows "intact s q t'"
  unfolding intact_def
proof (intro allI impI)
  fix k x h assume q: "held q = Some (k, x, h)"
  with held_temp assms(8) have "temp_of p \<noteq> Some x" "x \<in> used" by blast+
  with pstep_temp [OF assms(1)] have "temp_of p' \<noteq> Some x" by blast
  with \<open>temp_of p \<noteq> Some x\<close> have "temp s x k \<notin> footprint sha s K p p'"
    using temp_not_obj [OF assms(6), of _ s x k] temp_facts(1) [of s x k sha] temp_names_differ [of x _ s k]
    by (fastforce simp: footprint_def)
  from pstep_footprint [OF assms(1-6) this] q assms(7) show "content t' (temp s x k) = Some h"
    by (simp add: intact_def)
qed

lemma sys_inv_start: "sys_inv s K [] (start t)"
  by (simp add: sys_inv_def start_def key_ok_def intact_def ready_def)

lemma sys_inv_step:
  assumes "fstep sha enc dec s K u l u'" "root_ok s" "sha_ok sha" "no_temp_names K" "sys_inv s K ls u"
  shows "sys_inv s K (l # ls) u'"
  using assms(1)
proof cases
  case (1 i p t)
  note inv = assms(5) [unfolded sys_inv_def, THEN conjunct1, rule_format]
    and apart = assms(5) [unfolded sys_inv_def, THEN conjunct2, rule_format]
  have keep: "intact s (procs u j) t" if "j \<noteq> i" for j
    by (rule intact_other [OF 1(2) assms(2,3) _ _ assms(4)])
       (use that inv apart in \<open>auto simp: names_of_others_def\<close>)
  have "key_ok K (procs u' j) \<and> intact s (procs u' j) (tree u') \<and> ready (l # ls) (procs u' j)" for j
    using inv [of j] keep [of j] pstep_key_ok [OF 1(2)] pstep_intact [OF 1(2) assms(2,3)] pstep_ready [OF 1(2)]
    by (cases "j = i") (auto simp: 1(1) ready_def)
  moreover have "temp_of (procs u' j) \<noteq> Some x" if "j \<noteq> m" "temp_of (procs u' m) = Some x" for j m x
  proof -
    have "temp_of p \<noteq> Some x \<or> n = i" if "temp_of (procs u n) = Some x" for n
      using pstep_temp [OF 1(2), of x] apart [of n i x] that by (auto simp: names_of_others_def)
    with that apart [of m j x] show ?thesis by (auto simp: 1(1) split: if_splits)
  qed
  ultimately show ?thesis unfolding sys_inv_def by blast
qed

lemma frun_inv:
  assumes "frun sha enc dec s K t0 ls u" "root_ok s" "sha_ok sha" "no_temp_names K"
  shows "sys_inv s K ls u"
  using assms(1)
proof induction
  case begin_run
  show ?case by (rule sys_inv_start)
next
  case (step ls u l u')
  from sys_inv_step [OF step(2) assms(2-4) step(3)] show ?case .
qed

lemma fstep_refines:
  assumes "fstep sha enc dec s K u l u'" "root_ok s" "sha_ok sha" "no_temp_names K" "sys_inv s K ls u"
  shows "view s K u' = spec_step l (view s K u) \<and> allowed ls l (view s K u)"
  using assms(1)
proof cases
  case (1 i p t)
  have inv: "key_ok K (procs u i)" "intact s (procs u i) (tree u)" "ready ls (procs u i)"
    using assms(5) by (auto simp: sys_inv_def)
  have keys: "k \<in> K \<and> NormalizeKey k = Inr k" if "l = Replace k h \<or> l = Erase k \<or> l = Opened k h" for k h
    using 1(2) inv(1) that by (cases rule: pstep.cases) (auto simp: key_ok_def)
  have "view s K u' k = spec_step l (view s K u) k" for k
  proof (cases "k \<in> K \<and> NormalizeKey k = Inr k")
    case True
    with pstep_objects [OF 1(2) assms(2,3) inv(1,2) assms(4), of k] show ?thesis
      by (cases l) (auto simp: 1(1) view_def file_view_def)
  next
    case False
    with keys show ?thesis by (cases l) (auto simp: view_def file_view_def)
  qed
  moreover have "allowed ls l (view s K u)"
    using pstep_allowed [OF 1(2) assms(2,3) inv(1,3)] keys
    by (auto simp: allowed_def view_def file_view_def split: label.splits)
  ultimately show ?thesis by blast
qed

lemma frun_reads:
  assumes "frun sha enc dec s K t0 ls u" "root_ok s" "sha_ok sha" "no_temp_names K"
  shows "(\<forall>k b. view s K u k = Some b \<longrightarrow> Uploaded k b \<in> set ls \<or> file_view s t0 k = Some b)
       \<and> (\<forall>k b. Opened k b \<in> set ls \<longrightarrow> Uploaded k b \<in> set ls \<or> file_view s t0 k = Some b)"
  using assms(1)
proof induction
  case begin_run
  show ?case by (simp add: view_def start_def)
next
  case (step ls u l u')
  from fstep_refines [OF step(2) assms(2-4) frun_inv [OF step(1) assms(2-4)]] step(3) show ?case
    by (cases l) (auto simp: allowed_def split: if_splits)
qed

section \<open>One goroutine alone\<close>

text \<open>The steps of a goroutine that nobody interrupts are those of the operations in \<open>Blobx_File\<close>, which shows
  that the step relation describes the same code.\<close>

definition alone ::
  "(bytes \<Rightarrow> bytes) \<Rightarrow> (Object \<Rightarrow> string + bytes) \<Rightarrow> (bytes \<Rightarrow> string + Object) \<Rightarrow> FileStore \<Rightarrow> string set \<Rightarrow> string set
   \<Rightarrow> proc \<times> fs \<Rightarrow> proc \<times> fs \<Rightarrow> bool" where
  "alone sha enc dec s K used = (\<lambda>(p, t) (p', t'). \<exists>l. pstep sha enc dec s K used p t l p' t')\<^sup>*\<^sup>*"

lemma alone_refl [simp]: "alone sha enc dec s K used c c"
  by (simp add: alone_def)

lemma alone_step:
  "\<lbrakk>pstep sha enc dec s K used p t l p' t'; alone sha enc dec s K used (p', t') c\<rbrakk> \<Longrightarrow> alone sha enc dec s K used (p, t) c"
  unfolding alone_def by (rule converse_rtranclp_into_rtranclp) auto

lemma alone_one: "pstep sha enc dec s K used p t l p' t' \<Longrightarrow> alone sha enc dec s K used (p, t) (p', t')"
  by (rule alone_step [OF _ alone_refl])

lemma alone_trans [trans]:
  "\<lbrakk>alone sha enc dec s K used c c'; alone sha enc dec s K used c' c''\<rbrakk> \<Longrightarrow> alone sha enc dec s K used c c''"
  unfolding alone_def by (rule rtranclp_trans)

lemma temp_writes:
  "MultiWriter (temp_Write flt T now) Buffer_Write d ((t, c), h) =
     (case os_append (write_f flt c) T now d t of
        (n, e, t') \<Rightarrow> (n, map_option (\<lambda>e. Ext (Errno e)) e, ((t', Suc c), if e = None then h @ d else h)))"
  by (auto simp: MultiWriter_def temp_Write_def Buffer_Write_def os_append_def Let_def split: option.split)

lemma os_append_error: "os_append f p now d fs = (n, e, fs') \<Longrightarrow> (e = None) = (f = None)"
  by (auto simp: os_append_def Let_def split: option.splits)

definition write_error :: "string \<Rightarrow> string \<Rightarrow> blob_error \<Rightarrow> proc" where
  "write_error k x e = PutCleanup k x (Failed (Wrap ''blobx: write object: '' e))"

lemma write_alone:
  assumes "if d = [] then w' = w else MultiWriter (temp_Write flt (temp_file s x k) now) Buffer_Write d w = (length d, None, w')"
  shows "alone sha enc dec s K used (PutCopy k opts x (snd w), fst (fst w)) (PutCopy k opts x (snd w'), fst (fst w'))"
    and "length (snd w') = length (snd w) + length d"
proof -
  obtain t j h where w: "w = ((t, j), h)" by (metis prod.collapse)
  obtain n e t' where a: "os_append (write_f flt j) (temp_file s x k) now d t = (n, e, t')" by (metis prod.collapse)
  show "alone sha enc dec s K used (PutCopy k opts x (snd w), fst (fst w)) (PutCopy k opts x (snd w'), fst (fst w'))"
  proof (cases "d = []")
    case False
    with assms w a have "e = None" "n = length d" "w' = ((t', Suc j), h @ d)" by (auto simp: temp_writes split: if_splits)
    with a os_append_error [OF a] have "os_append None (temp_file s x k) now d t = (length d, None, t')" by simp
    from alone_one [OF write_chunk [OF this]] w \<open>w' = _\<close> show ?thesis by simp
  qed (use assms in simp)
  show "length (snd w') = length (snd w) + length d"
    using assms w a by (cases "d = []") (auto simp: temp_writes split: if_splits)
qed

lemma copies_alone:
  assumes "copies ctx (MultiWriter (temp_Write flt (temp_file s x k) now) Buffer_Write) src i n w r"
  shows "alone sha enc dec s K used (PutCopy k opts x (snd w), fst (fst w))
      (case fst (snd r) of None \<Rightarrow> PutCopy k opts x (snd (snd (snd r))) | Some e \<Rightarrow> write_error k x e, fst (fst (snd (snd r))))
    \<and> (fst (snd r) = None \<longrightarrow> fst r + length (snd w) = n + length (snd (snd (snd r))))"
  using assms
proof (induction rule: copies.induct)
  case (cancelled i e n w)
  show ?case by (auto simp: write_error_def intro: alone_one [OF read_fails])
next
  case (write_error i d re w c e w2 n)
  obtain t j h where w: "w = ((t, j), h)" by (metis prod.collapse)
  obtain n' e' t' where a: "os_append (write_f flt j) (temp_file s x k) now d t = (n', e', t')" by (metis prod.collapse)
  with write_error w obtain f e2 where "e' = Some e2" "e = Ext (Errno e2)" "write_f flt j = Some f" "w2 = ((t', Suc j), h)"
    using os_append_error [OF a] by (auto simp: temp_writes)
  with a write_error w show ?case
    by (auto simp: Blobx_Concurrent.write_error_def intro: alone_one [OF write_fails])
next
  case (short_write i d re w c w2 n)
  obtain t j h where w: "w = ((t, j), h)" by (metis prod.collapse)
  with short_write show ?case
    by (auto simp: temp_writes os_append_def Let_def split: option.splits)
next
  case (ended i d e w2 w n)
  from write_alone [OF ended(3)] alone_trans [OF write_alone(1) [OF ended(3)] alone_one [OF read_fails]] show ?case
    by (auto simp: write_error_def)
next
  case (round i d w2 w n r)
  from alone_trans [OF write_alone(1) [OF round(3)] round.IH [THEN conjunct1]] write_alone(2) [OF round(3)] round.IH
  show ?case by auto
qed

text \<open>The commit, step by step.\<close>

fun result_of :: "blob_error + Object \<Rightarrow> result" where
  "result_of (Inl e) = Failed e"
| "result_of (Inr ob) = Stored ob"

text \<open>What an uninterrupted \<^verbatim>\<open>os.WriteFile\<close> does.\<close>

lemma writemeta_steps:
  assumes "os_WriteFile None (path_segs (metadataPath sha s k)) now (d @ rest) t = (None, t1)"
  shows "alone sha enc dec s K used (PutWritemeta k x ob (d @ rest), t)
    (PutMetadata k x ob rest (length d), upd (path_segs (metadataPath sha s k)) (File d now) t)"
proof -
  let ?p = "path_segs (metadataPath sha s k)"
  have "os_WriteFile None ?p now [] t = (None, upd ?p (File [] now) t)"
    using assms by (auto simp: os_WriteFile_def split: option.splits if_splits)
  note s1 = alone_one [OF open_meta [OF this]]
  have "upd ?p (File d now) t = os_write_at ?p 0 now d (upd ?p (File [] now) t)"
    by (simp add: os_write_at_def upd_upd)
  from alone_trans [OF s1 alone_one [OF write_meta [OF this]]] show ?thesis by simp
qed

lemma writemeta_alone:
  assumes "os_WriteFile None (path_segs (metadataPath sha s k)) now bs t = (None, t')"
  shows "alone sha enc dec s K used (PutWritemeta k x ob bs, t) (PutCleanup k x (Stored ob), t')"
proof -
  have "t' = upd (path_segs (metadataPath sha s k)) (File bs now) t"
    using assms by (auto simp: os_WriteFile_def split: option.splits if_splits)
  with alone_trans [OF writemeta_steps [of sha s k now bs "[]"] alone_one [OF close_meta]] assms show ?thesis by simp
qed

lemma writemeta_fails_alone:
  assumes "os_WriteFile f (path_segs (metadataPath sha s k)) now bs t = (Some e, t')"
  shows "alone sha enc dec s K used (PutWritemeta k x ob bs, t)
    (PutCleanup k x (Failed (sys_err ''blobx: write object metadata: '' e)), t')"
proof (cases "t' = t")
  case True
  show ?thesis unfolding True by (rule alone_one [OF open_meta_fails])
next
  case False
  let ?p = "path_segs (metadataPath sha s k)"
  from False assms obtain n where "f = Some (n, e)" "t' = upd ?p (File (take n bs) now) t"
    "os_WriteFile None ?p now (take n bs @ drop n bs) t = (None, upd ?p (File bs now) t)"
    by (auto simp: os_WriteFile_def split: option.splits if_splits)
  with alone_trans [OF writemeta_steps [of sha s k now "take n bs" "drop n bs"] alone_one [OF write_meta_fails]]
  show ?thesis by simp
qed

lemma meta_alone:
  assumes "writeMetadata enc flt now (metadataPath sha s k) ob t = (err, t')"
  shows "alone sha enc dec s K used (PutMkmeta k x ob, t) (PutCleanup k x (case err of None \<Rightarrow> Stored ob | Some e \<Rightarrow> Failed e), t')"
proof (cases "enc ob")
  case (Inl m)
  with assms show ?thesis by (auto simp: writeMetadata_def intro: alone_one [OF encode_fails])
next
  case (Inr bs)
  show ?thesis
  proof (cases "os_MkdirAll (mkmeta_f flt) (path_segs (path_Dir (metadataPath sha s k))) t")
    case (Inl e)
    with assms Inr show ?thesis by (auto simp: writeMetadata_def intro: alone_one [OF mkmeta_fails])
  next
    case mk: (Inr t1)
    obtain e t2 where w: "os_WriteFile (writemeta_f flt) (path_segs (metadataPath sha s k)) now bs t1 = (e, t2)" by fastforce
    have "pstep sha enc dec s K used (PutMkmeta k x ob) t Quiet (PutWritemeta k x ob bs) t1"
      by (rule mkmeta [where f = "mkmeta_f flt"]) (simp_all add: Inr mk)
    note s1 = alone_one [OF this]
    show ?thesis
    proof (cases e)
      case (Some e2)
      from alone_trans [OF s1 writemeta_fails_alone [OF w [unfolded Some]]] w assms Inr mk Some show ?thesis
        by (auto simp: writeMetadata_def)
    next
      case None
      have "writemeta_f flt = None" using w None by (auto simp: os_WriteFile_def split: option.splits if_splits)
      with alone_trans [OF s1 writemeta_alone] w assms Inr mk None show ?thesis by (auto simp: writeMetadata_def)
    qed
  qed
qed

lemma commit_alone:
  assumes "put_commit sha enc s flt now k opts (temp_file s x k) n err h t = (r, t')" "err = None \<Longrightarrow> n = length h"
  shows "alone sha enc dec s K used (case err of None \<Rightarrow> PutCopy k opts x h | Some e \<Rightarrow> write_error k x e, t)
           (PutCleanup k x (result_of r), t')"
proof (cases err)
  case (Some e)
  with assms(1) show ?thesis by (auto simp: put_commit_def write_error_def)
next
  case None
  note s1 = alone_one [OF read_ends]
  show ?thesis
  proof (cases "close_f flt")
    case (Some e)
    with assms(1) None alone_trans [OF s1 alone_one [OF close_fails]] show ?thesis by (auto simp: put_commit_def)
  next
    case c: None
    note s2 = alone_trans [OF s1 alone_one [OF close]]
    show ?thesis
    proof (cases "os_Rename (rename_f flt) (temp_file s x k) (object_file s k) t")
      case (Inl e)
      with assms(1) None c alone_trans [OF s2 alone_one [OF rename_fails [OF Inl]]] show ?thesis
        by (auto simp: put_commit_def object_file_def)
    next
      case rn: (Inr t1)
      note s3 = alone_trans [OF s2 alone_one [OF rename [OF rn]]]
      show ?thesis
      proof (cases "os_Stat (stat_f flt) (object_file s k) t1")
        case (Inl e)
        with assms(1) None c rn alone_trans [OF s3 alone_one [OF stat_fails [OF Inl]]] show ?thesis
          by (auto simp: put_commit_def object_file_def)
      next
        case st: (Inr nd)
        let ?ob = "\<lparr>Key = k, Size = length h, ContentType = Opt_ContentType opts, ETag = hex (sha h),
                     LastModified = (case nd of File _ m \<Rightarrow> m | Dir \<Rightarrow> now)\<rparr>"
        obtain e t2 where w: "writeMetadata enc flt now (metadataPath sha s k) ?ob t1 = (e, t2)" by fastforce
        have "alone sha enc dec s K used (PutCopy k opts x h, t) (PutMkmeta k x ?ob, t1)"
          by (rule alone_trans [OF s3 alone_one [OF stat [OF st]]]) auto
        from alone_trans [OF this meta_alone [OF w]] assms None c rn st w show ?thesis
          by (auto simp: put_commit_def object_file_def split: option.splits)
      qed
    qed
  qed
qed

lemma put_alone:
  assumes "FileStore_Put sha enc s x flt now ctx k (Some src) opts t = Return (r, t')" "k \<in> K" "NormalizeKey k = Inr k" "x \<notin> used"
  shows "alone sha enc dec s K used (Idle, t) (Finished (result_of r), t')"
proof -
  note s1 = alone_one [OF put [OF assms(2,3)]]
  show ?thesis
  proof (cases "os_MkdirAll (mkdir_f flt) (path_segs (path_Dir (objectPath s k))) t")
    case (Inl e)
    from alone_trans [OF s1 alone_one [OF mkdir_fails [OF Inl]]] assms(1,3) Inl show ?thesis
      by (auto simp: FileStore_Put_def Let_def)
  next
    case mk: (Inr t1)
    note s2 = alone_trans [OF s1 alone_one [OF mkdir [OF mk]]]
    show ?thesis
    proof (cases "os_Create (create_f flt) (temp_file s x k) now t1")
      case (Inl e)
      from alone_trans [OF s2 alone_one [OF create_fails [OF Inl]]] assms(1,3) mk Inl show ?thesis
        by (auto simp: FileStore_Put_def Let_def temp_file_def)
    next
      case cr: (Inr t2)
      note s3 = alone_trans [OF s2 alone_one [OF create [OF cr assms(4)]]]
      from assms(1,3) mk cr obtain n err t3 c h t4 where
        cp: "copyContext ctx (MultiWriter (temp_Write flt (temp_file s x k) now) Buffer_Write) src ((t2, 0), []) = Some (n, err, ((t3, c), h))"
        and cm: "put_commit sha enc s flt now k opts (temp_file s x k) n err h t3 = (r, t4)"
        and rm: "t' = snd (os_Remove (cleanup_f flt) (temp_file s x k) t4)"
        by (auto simp: FileStore_Put_def Let_def temp_file_def split: option.splits prod.splits)
      have co: "copies ctx (MultiWriter (temp_Write flt (temp_file s x k) now) Buffer_Write) src 0 0 ((t2, 0), []) (n, err, ((t3, c), h))"
        by (rule copy_loop_copies [OF cp [unfolded copyContext_def copy_all_def]])
      have s4: "alone sha enc dec s K used (PutCopy k opts x [], t2)
          (case err of None \<Rightarrow> PutCopy k opts x h | Some e \<Rightarrow> write_error k x e, t3)"
        using copies_alone [OF co, of sha enc dec K used opts] by (cases err) simp_all
      have "n = length h" if "err = None" using copies_alone [OF co] that by simp
      note s5 = alone_trans [OF alone_trans [OF s3 s4] commit_alone [OF cm this]]
      obtain e where "os_Remove (cleanup_f flt) (temp_file s x k) t4 = (e, t')" using rm by (metis prod.collapse)
      from alone_trans [OF s5 alone_one [OF cleanup [OF this]]] show ?thesis .
    qed
  qed
qed

lemma stat_alone:
  assumes "FileStore_Stat sha dec s flt Background k t = r" "NormalizeKey k = Inr k"
  shows "alone sha enc dec s K used (ReadStat g k, t)
    (case r of Inl e \<Rightarrow> Finished (Failed e) | Inr ob \<Rightarrow> if g then ReadOpen k ob else Finished (Statted ob), t)"
proof (cases "os_Stat (stat_f flt) (object_file s k) t")
  case (Inl e)
  with assms show ?thesis
    using alone_one [OF read_missing [where f = "stat_f flt"]] alone_one [OF read_stat_fails [OF Inl]]
    by (cases "e = ENOENT") (auto simp: FileStore_Stat_def object_file_def)
next
  case (Inr nd)
  show ?thesis
  proof (cases nd)
    case Dir
    with assms Inr alone_one [OF read_missing [where f = "stat_f flt"]] show ?thesis by (auto simp: FileStore_Stat_def object_file_def)
  next
    case (File b m)
    note st = alone_one [OF read_stat [OF Inr [unfolded File]], of sha enc dec K used g]
    from alone_trans [OF st alone_one [OF read_meta [OF refl, where flt = flt]]] assms Inr File show ?thesis
      by (auto simp: FileStore_Stat_def object_file_def split: sum.splits)
  qed
qed

lemma get_alone:
  assumes "FileStore_Get sha dec s flt Background k t = r" "k \<in> K" "NormalizeKey k = Inr k"
  shows "alone sha enc dec s K used (Idle, t) (Finished (case r of Inl e \<Rightarrow> Failed e | Inr (b, ob) \<Rightarrow> Got b ob), t)"
proof -
  have "pstep sha enc dec s K used Idle t Quiet (ReadStat True k) t" by (rule read [OF assms(2,3)])
  note s2 = alone_trans [OF alone_one [OF this] stat_alone [OF refl assms(3)]]
  show ?thesis
  proof (cases "FileStore_Stat sha dec s flt Background k t")
    case (Inl e)
    with assms(1) s2 [of flt] show ?thesis by (auto simp: FileStore_Get_def)
  next
    case (Inr ob)
    then have k: "Key ob = k"
      using assms(3) by (auto simp: FileStore_Stat_def Let_def split: sum.splits node.splits)
    have s3: "alone sha enc dec s K used (Idle, t) (ReadOpen k ob, t)" using s2 [of flt] Inr by simp
    show ?thesis
    proof (cases "os_ReadFile (open_f flt) (object_file s k) t")
      case (Inl e)
      with assms(1) \<open>FileStore_Stat sha dec s flt Background k t = Inr ob\<close> k show ?thesis
        using alone_trans [OF s3 alone_one [OF open_missing [where f = "open_f flt"]]] alone_trans [OF s3 alone_one [OF open_fails [OF Inl]]]
        by (cases "e = ENOENT") (auto simp: FileStore_Get_def object_file_def)
    next
      case op: (Inr b)
      with alone_trans [OF s3 alone_one [OF open_file [OF op]]] assms(1) Inr k show ?thesis
        by (auto simp: FileStore_Get_def object_file_def)
    qed
  qed
qed

lemma delete_alone:
  assumes "FileStore_Delete sha s flt Background k t = (r, t')" "k \<in> K" "NormalizeKey k = Inr k"
  shows "alone sha enc dec s K used (Idle, t) (Finished (case r of None \<Rightarrow> Deleted | Some e \<Rightarrow> Failed e), t')"
proof -
  note s1 = alone_one [OF delete [OF assms(2,3)]]
  obtain e t1 where r1: "os_Remove (remove_f flt) (object_file s k) t = (e, t1)" by fastforce
  obtain e' t2 where r2: "os_Remove (removemeta_f flt) (path_segs (metadataPath sha s k)) t1 = (e', t2)" by fastforce
  show ?thesis
  proof (cases "e = None \<or> e = Some ENOENT")
    case True
    then have s2: "alone sha enc dec s K used (Idle, t) (DelMeta k, t1)"
      using r1 alone_trans [OF s1 alone_one [OF remove [where f = "remove_f flt"]]] alone_trans [OF s1 alone_one [OF remove_missing [where f = "remove_f flt"]]] by auto
    show ?thesis
    proof (cases "e' = None \<or> e' = Some ENOENT")
      case m: True
      with True r1 r2 assms(1,3) alone_trans [OF s2 alone_one [OF remove_meta [OF r2 m]]] show ?thesis
        by (auto simp: FileStore_Delete_def object_file_def)
    next
      case False
      then obtain x where "e' = Some x" "x \<noteq> ENOENT" by auto
      with True r1 r2 assms(1,3) alone_trans [OF s2 alone_one [OF remove_meta_fails [where f = "removemeta_f flt"]]] show ?thesis
        by (auto simp: FileStore_Delete_def object_file_def)
    qed
  next
    case False
    then obtain x where "e = Some x" "x \<noteq> ENOENT" by auto
    with r1 assms(1,3) alone_trans [OF s1 alone_one [OF remove_fails [where f = "remove_f flt"]]] show ?thesis
      by (auto simp: FileStore_Delete_def object_file_def)
  qed
qed

section \<open>Two writers\<close>

text \<open>The system when only goroutines 0 and 1 are active.\<close>

definition duo :: "proc \<Rightarrow> proc \<Rightarrow> fs \<Rightarrow> sys" where
  "duo p q t = \<lparr>tree = t, procs = (\<lambda>_. Idle)(0 := p, 1 := q)\<rparr>"

lemma names_duo: "names_of_others 0 (duo p q t) = set_option (temp_of q)" "names_of_others 1 (duo p q t) = set_option (temp_of p)"
  by (auto simp: names_of_others_def duo_def split: if_splits)

lemma duo_left:
  assumes "alone sha enc dec s K (set_option (temp_of q)) c c'" "\<exists>ls. frun sha enc dec s K t0 ls (duo (fst c) q (snd c))"
  shows "\<exists>ls. frun sha enc dec s K t0 ls (duo (fst c') q (snd c'))"
  using assms unfolding alone_def
proof (induction rule: rtranclp_induct)
  case (step c1 c2)
  then obtain ls l where r: "frun sha enc dec s K t0 ls (duo (fst c1) q (snd c1))"
    and l: "pstep sha enc dec s K (set_option (temp_of q)) (fst c1) (snd c1) l (fst c2) (snd c2)" by (auto split: prod.splits)
  from fstep.intros [of sha enc dec s K 0 "duo (fst c1) q (snd c1)"] l
  have "fstep sha enc dec s K (duo (fst c1) q (snd c1)) l (duo (fst c2) q (snd c2))"
    unfolding names_duo by (simp add: duo_def fun_upd_twist)
  from frun.step [OF r this] show ?case by blast
qed

lemma duo_right:
  assumes "alone sha enc dec s K (set_option (temp_of p)) c c'" "\<exists>ls. frun sha enc dec s K t0 ls (duo p (fst c) (snd c))"
  shows "\<exists>ls. frun sha enc dec s K t0 ls (duo p (fst c') (snd c'))"
  using assms unfolding alone_def
proof (induction rule: rtranclp_induct)
  case (step c1 c2)
  then obtain ls l where r: "frun sha enc dec s K t0 ls (duo p (fst c1) (snd c1))"
    and l: "pstep sha enc dec s K (set_option (temp_of p)) (fst c1) (snd c1) l (fst c2) (snd c2)" by (auto split: prod.splits)
  from fstep.intros [of sha enc dec s K 1 "duo p (fst c1) (snd c1)"] l
  have "fstep sha enc dec s K (duo p (fst c1) (snd c1)) l (duo p (fst c2) (snd c2))"
    unfolding names_duo by (simp add: duo_def)
  from frun.step [OF r this] show ?case by blast
qed

lemma duo_start: "\<exists>ls. frun sha enc dec s K t0 ls (duo Idle Idle t0)"
  using begin_run [of sha enc dec s K t0] by (auto simp: start_def duo_def fun_upd_idem)

lemmas duo_left_step = duo_left [where c = "(p, t)" and c' = "(p', t')" for p t p' t', unfolded fst_conv snd_conv]
lemmas duo_right_step = duo_right [where c = "(p, t)" and c' = "(p', t')" for p t p' t', unfolded fst_conv snd_conv]

text \<open>A \<^verbatim>\<open>Put\<close> of one chunk, up to the renaming and up to the writing of its metadata.\<close>

lemma put_to_rename:
  assumes "k \<in> K" "NormalizeKey k = Inr k" "x \<notin> used"
    and "os_MkdirAll None (path_segs (path_Dir (objectPath s k))) t0 = Inr t1"
    and "os_Create None (temp_file s x k) now t1 = Inr t2" "os_append None (temp_file s x k) now d t2 = (n, None, t3)"
  shows "alone sha enc dec s K used (Idle, t0) (PutRename k opts x d, t3)"
proof -
  note s1 = alone_trans [OF alone_trans [OF alone_one [OF put [OF assms(1,2)]] alone_one [OF mkdir [OF assms(4)]]]
      alone_one [OF create [OF assms(5,3)]]]
  from alone_trans [OF alone_trans [OF alone_trans [OF s1 alone_one [OF write_chunk [OF assms(6)]]] alone_one [OF read_ends]]
      alone_one [OF close]] show ?thesis by simp
qed

lemma put_to_meta:
  fixes opts :: PutOptions
  assumes "k \<in> K" "NormalizeKey k = Inr k" "x \<notin> used"
    and "os_MkdirAll None (path_segs (path_Dir (objectPath s k))) t0 = Inr t1"
    and "os_Create None (temp_file s x k) now t1 = Inr t2" "os_append None (temp_file s x k) now d t2 = (n, None, t3)"
    and "os_Rename None (temp_file s x k) (object_file s k) t3 = Inr t4" "os_Stat None (object_file s k) t4 = Inr (File d now)"
    and "enc \<lparr>Key = k, Size = length d, ContentType = Opt_ContentType opts, ETag = hex (sha d), LastModified = now\<rparr> = Inr bs"
    and "os_MkdirAll None (path_segs (path_Dir (metadataPath sha s k))) t4 = Inr t5"
  shows "alone sha enc dec s K used (Idle, t0)
    (PutWritemeta k x \<lparr>Key = k, Size = length d, ContentType = Opt_ContentType opts, ETag = hex (sha d), LastModified = now\<rparr> bs, t5)"
proof -
  let ?ob = "\<lparr>Key = k, Size = length d, ContentType = Opt_ContentType opts, ETag = hex (sha d), LastModified = now\<rparr>"
  note s1 = alone_trans [OF put_to_rename [OF assms(1-6), of sha enc dec opts] alone_one [OF rename [OF assms(7)]]]
  have st: "pstep sha enc dec s K used (PutStat k opts x d) t4 Quiet (PutMkmeta k x ?ob) t4"
    by (rule stat [OF assms(8)]) simp
  have "pstep sha enc dec s K used (PutMkmeta k x ?ob) t4 Quiet (PutWritemeta k x ?ob bs) t5"
    by (rule mkmeta [where f = None]) (simp_all add: assms)
  from alone_trans [OF alone_trans [OF s1 alone_one [OF st]] alone_one [OF this]] show ?thesis .
qed

definition race_sha :: "bytes \<Rightarrow> bytes" where "race_sha b = replicate 32 (of_nat (length b))"

definition race_tree :: "(fpath \<times> node) list \<Rightarrow> fs" where
  "race_tree fs = [([], Dir), ([''.blobx''], Dir), ([''.blobx'', ''objects''], Dir)] @ fs"

definition race_meta :: fpath where
  "race_meta = [''.blobx'', ''metadata'', hex (race_sha (bytes_of ''a''))]"

abbreviation race_temp :: "string \<Rightarrow> fpath" where
  "race_temp x \<equiv> [''.blobx'', ''objects'', temp_name x]"

abbreviation race_object :: fpath where
  "race_object \<equiv> [''.blobx'', ''objects'', ''a'']"

definition text_of :: "bytes \<Rightarrow> time \<Rightarrow> string \<Rightarrow> Object" where
  "text_of d now ct = \<lparr>Key = ''a'', Size = length d, ContentType = ct, ETag = hex (race_sha d), LastModified = now\<rparr>"

lemma race_calls:
  "path_segs (path_Dir (objectPath demo_store ''a'')) = [''.blobx'', ''objects'']"
  "temp_file demo_store x ''a'' = race_temp x" "object_file demo_store ''a'' = race_object"
  "path_segs (path_Dir (metadataPath race_sha demo_store ''a'')) = [''.blobx'', ''metadata'']"
  "path_segs (metadataPath race_sha demo_store ''a'') = race_meta"
proof -
  show o: "path_segs (path_Dir (objectPath demo_store ''a'')) = [''.blobx'', ''objects'']" by code_simp
  then show "temp_file demo_store x ''a'' = race_temp x" by (simp add: temp_file_def)
  show "object_file demo_store ''a'' = race_object" by code_simp
  show "path_segs (path_Dir (metadataPath race_sha demo_store ''a'')) = [''.blobx'', ''metadata'']" by code_simp
  show "path_segs (metadataPath race_sha demo_store ''a'') = race_meta" by code_simp
qed

abbreviation race_bytes :: "bytes \<Rightarrow> string \<Rightarrow> bytes" where
  "race_bytes d ct \<equiv> of_nat (length ct) # bytes_of (ct @ hex (race_sha d))"

lemma race_first:
  "alone race_sha demo_enc demo_dec demo_store {''a''} {} (Idle, demo_fs)
     (PutWritemeta ''a'' ''7'' (text_of [1] 1 ''text/html'') (race_bytes [1] ''text/html''),
      race_tree [(race_object, File [1] 1), ([''.blobx'', ''metadata''], Dir)])"
  unfolding text_of_def
  by (rule put_to_meta [where opts = "\<lparr>Opt_ContentType = ''text/html''\<rparr>", simplified,
        where ?t1.0 = "race_tree []" and ?t2.0 = "race_tree [(race_temp ''7'', File [] 1)]" and n = 1
          and ?t3.0 = "race_tree [(race_temp ''7'', File [1] 1)]" and ?t4.0 = "race_tree [(race_object, File [1] 1)]"])
     (simp_all add: race_calls race_tree_def demo_fs_def os_MkdirAll_def mkdirs.simps os_Create_def os_append_def os_Rename_def
       os_Stat_def temp_name_def NormalizeKey_Inr plain_seg_def demo_enc_def)


text \<open>Goroutine 0 stores \<^verbatim>\<open>[1]\<close> and has yet to write its metadata when goroutine 1 stores \<^verbatim>\<open>[2, 2]\<close>.\<close>

lemma race_second:
  "alone race_sha demo_enc demo_dec demo_store {''a''} {''7''}
     (Idle, race_tree [(race_object, File [1] 1), ([''.blobx'', ''metadata''], Dir)])
     (Finished (Stored (text_of [2, 2] 2 ''text/plain'')),
      race_tree [(race_object, File [2, 2] 2), ([''.blobx'', ''metadata''], Dir), (race_meta, File (race_bytes [2, 2] ''text/plain'') 2)])"
proof -
  let ?t = "\<lambda>o'. race_tree ([(race_object, o'), ([''.blobx'', ''metadata''], Dir)])"
  have "alone race_sha demo_enc demo_dec demo_store {''a''} {''7''} (Idle, ?t (File [1] 1))
     (PutWritemeta ''a'' ''8'' (text_of [2, 2] 2 ''text/plain'') (race_bytes [2, 2] ''text/plain''), ?t (File [2, 2] 2))"
    unfolding text_of_def
    by (rule put_to_meta [where opts = "\<lparr>Opt_ContentType = ''text/plain''\<rparr>", simplified,
          where ?t1.0 = "?t (File [1] 1)" and ?t2.0 = "?t (File [1] 1) @ [(race_temp ''8'', File [] 2)]" and n = 2
            and ?t3.0 = "?t (File [1] 1) @ [(race_temp ''8'', File [2, 2] 2)]" and ?t4.0 = "?t (File [2, 2] 2)"])
       (simp_all add: race_calls race_tree_def os_MkdirAll_def mkdirs.simps os_Create_def os_append_def os_Rename_def
         os_Stat_def temp_name_def NormalizeKey_Inr plain_seg_def demo_enc_def)
  also have "alone race_sha demo_enc demo_dec demo_store {''a''} {''7''} \<dots>
     (PutCleanup ''a'' ''8'' (Stored (text_of [2, 2] 2 ''text/plain'')),
      race_tree [(race_object, File [2, 2] 2), ([''.blobx'', ''metadata''], Dir), (race_meta, File (race_bytes [2, 2] ''text/plain'') 2)])"
    by (rule writemeta_alone [where now = 2])
       (simp add: race_calls race_tree_def os_WriteFile_def race_meta_def)
  also have "alone race_sha demo_enc demo_dec demo_store {''a''} {''7''} \<dots>
     (Finished (Stored (text_of [2, 2] 2 ''text/plain'')),
      race_tree [(race_object, File [2, 2] 2), ([''.blobx'', ''metadata''], Dir), (race_meta, File (race_bytes [2, 2] ''text/plain'') 2)])"
    by (rule alone_one, rule cleanup [where f = None and e = "Some ENOENT"])
       (simp add: race_calls race_tree_def os_Remove_def race_meta_def temp_name_def)
  finally show ?thesis .
qed

text \<open>Goroutine 0 goes on.\<close>

lemma race_third:
  "alone race_sha demo_enc demo_dec demo_store {''a''} {}
     (PutWritemeta ''a'' ''7'' ob (race_bytes [1] ''text/html''),
      race_tree [(race_object, File [2, 2] 2), ([''.blobx'', ''metadata''], Dir), (race_meta, File bs 2)])
     (Finished (Stored ob),
      race_tree [(race_object, File [2, 2] 2), ([''.blobx'', ''metadata''], Dir), (race_meta, File (race_bytes [1] ''text/html'') 3)])"
proof -
  have "alone race_sha demo_enc demo_dec demo_store {''a''} {}
     (PutWritemeta ''a'' ''7'' ob (race_bytes [1] ''text/html''),
      race_tree [(race_object, File [2, 2] 2), ([''.blobx'', ''metadata''], Dir), (race_meta, File bs 2)])
     (PutCleanup ''a'' ''7'' (Stored ob),
      race_tree [(race_object, File [2, 2] 2), ([''.blobx'', ''metadata''], Dir), (race_meta, File (race_bytes [1] ''text/html'') 3)])"
    by (rule writemeta_alone [where now = 3])
       (simp add: race_calls race_tree_def os_WriteFile_def race_meta_def)
  also have "alone race_sha demo_enc demo_dec demo_store {''a''} {} \<dots>
     (Finished (Stored ob),
      race_tree [(race_object, File [2, 2] 2), ([''.blobx'', ''metadata''], Dir), (race_meta, File (race_bytes [1] ''text/html'') 3)])"
    by (rule alone_one, rule cleanup [where f = None and e = "Some ENOENT"])
       (simp add: race_calls race_tree_def os_Remove_def race_meta_def temp_name_def)
  finally show ?thesis .
qed

section \<open>Properties\<close>

text \<open>C21. Objects are atomic under concurrency. However the system calls of any number of goroutines
  interleave, and whichever fail, each acts on the stored objects as its label says on a map from keys
  to bytes: only a renaming and a removal change the map; a renaming puts in exactly the bytes that the
  reader of some \<^verbatim>\<open>Put\<close> of that key had delivered when it reported its end; and opening a file gives
  the bytes of the map at that moment. So whatever is ever read is a whole upload, or was there at the
  start. The keys are such that no temporary file can have the name of an object.\<close>

theorem file_store_concurrent_refinement:
  assumes "frun sha enc dec s K t0 ls u" "fstep sha enc dec s K u l u'" "root_ok s" "sha_ok sha" "no_temp_names K"
  shows "view s K u' = spec_step l (view s K u) \<and> allowed ls l (view s K u)
       \<and> (\<forall>k b. Opened k b \<in> set ls \<longrightarrow> Uploaded k b \<in> set ls \<or> file_view s t0 k = Some b)"
proof -
  note inv = frun_inv [OF assms(1,3-5)]
  from fstep_refines [OF assms(2-5) inv] frun_reads [OF assms(1,3-5)] show ?thesis by blast
qed

theorem file_store_concurrent_refinement_witness:
  "\<exists>ls u u'. frun race_sha demo_enc demo_dec demo_store {''a''} demo_fs ls u
     \<and> fstep race_sha demo_enc demo_dec demo_store {''a''} u (Replace ''a'' [1]) u'
     \<and> Uploaded ''a'' [1] \<in> set ls \<and> view demo_store {''a''} u' ''a'' = Some [1]"
proof -
  let ?p = "PutRename ''a'' \<lparr>Opt_ContentType = []\<rparr> ''7'' [1]" and ?t = "race_tree [(race_temp ''7'', File [1] 1)]"
  have "alone race_sha demo_enc demo_dec demo_store {''a''} {} (Idle, demo_fs) (?p, ?t)"
    by (rule put_to_rename [where ?t1.0 = "race_tree []" and ?t2.0 = "race_tree [(race_temp ''7'', File [] 1)]" and n = 1 and now = 1])
       (simp_all add: race_calls race_tree_def demo_fs_def os_MkdirAll_def mkdirs.simps os_Create_def os_append_def
         temp_name_def NormalizeKey_Inr plain_seg_def)
  with duo_left_step [OF _ duo_start] obtain ls where
    ls: "frun race_sha demo_enc demo_dec demo_store {''a''} demo_fs ls (duo ?p Idle ?t)" by fastforce
  have "os_Rename None (temp_file demo_store ''7'' ''a'') (object_file demo_store ''a'') ?t = Inr (race_tree [(race_object, File [1] 1)])"
    by (simp add: race_calls race_tree_def os_Rename_def temp_name_def)
  from fstep.intros [of _ _ _ _ _ 0 "duo ?p Idle ?t", unfolded duo_def, simplified, OF rename [OF this]]
  obtain u' where u': "fstep race_sha demo_enc demo_dec demo_store {''a''} (duo ?p Idle ?t) (Replace ''a'' [1]) u'"
    unfolding duo_def One_nat_def by blast
  have ok: "root_ok demo_store" "sha_ok race_sha" "no_temp_names {''a''}"
    using demo_inv by (simp_all add: file_inv_def sha_ok_def race_sha_def no_temp_names_def HasPrefix_def)
  from file_store_concurrent_refinement [OF ls u' ok] ls u' show ?thesis
    by (fastforce simp: allowed_def)
qed

text \<open>C22. What is not atomic is the pair of an object and its metadata: there is a run, without any failure,
  in which two \<^verbatim>\<open>Put\<close>s of one key both return success and from then on \<^verbatim>\<open>Get\<close> returns the bytes of one
  with the content type and the digest of the other.\<close>

theorem file_store_put_race:
  "\<exists>ls u. frun race_sha demo_enc demo_dec demo_store {''a''} demo_fs ls u
     \<and> procs u 0 = Finished (Stored (text_of [1] 1 ''text/html'')) \<and> procs u 1 = Finished (Stored (text_of [2, 2] 2 ''text/plain''))
     \<and> (\<exists>ob. FileStore_Get race_sha demo_dec demo_store no_faults Background ''a'' (tree u) = Inr ([2, 2], ob)
          \<and> ETag ob = hex (race_sha [1]) \<and> ContentType ob = ''text/html'' \<and> hex (race_sha [1]) \<noteq> hex (race_sha [2, 2]))"
proof -
  let ?fin = "race_tree [(race_object, File [2, 2] 2), ([''.blobx'', ''metadata''], Dir), (race_meta, File (race_bytes [1] ''text/html'') 3)]"
  from duo_left_step [OF _ duo_start] race_first have
    "\<exists>ls. frun race_sha demo_enc demo_dec demo_store {''a''} demo_fs ls
       (duo (PutWritemeta ''a'' ''7'' (text_of [1] 1 ''text/html'') (race_bytes [1] ''text/html'')) Idle
         (race_tree [(race_object, File [1] 1), ([''.blobx'', ''metadata''], Dir)]))" by simp
  from duo_right_step [OF _ this] race_second have
    "\<exists>ls. frun race_sha demo_enc demo_dec demo_store {''a''} demo_fs ls
       (duo (PutWritemeta ''a'' ''7'' (text_of [1] 1 ''text/html'') (race_bytes [1] ''text/html''))
         (Finished (Stored (text_of [2, 2] 2 ''text/plain'')))
         (race_tree [(race_object, File [2, 2] 2), ([''.blobx'', ''metadata''], Dir), (race_meta, File (race_bytes [2, 2] ''text/plain'') 2)]))"
    by simp
  from duo_left_step [OF _ this] race_third have
    "\<exists>ls. frun race_sha demo_enc demo_dec demo_store {''a''} demo_fs ls
       (duo (Finished (Stored (text_of [1] 1 ''text/html''))) (Finished (Stored (text_of [2, 2] 2 ''text/plain''))) ?fin)"
    by simp
  moreover have "FileStore_Get race_sha demo_dec demo_store no_faults Background ''a'' ?fin =
      Inr ([2, 2], \<lparr>Key = ''a'', Size = 2, ContentType = ''text/html'', ETag = hex (race_sha [1]), LastModified = 2\<rparr>)"
    by code_simp
  moreover have "hex (race_sha [1]) \<noteq> hex (race_sha [2, 2])" by code_simp
  ultimately show ?thesis by (force simp: duo_def)
qed

end
