(* ===== verification/Authx_Argon2id.thy ===== *)
theory Authx_Argon2id
  imports Go_Strconv Go_Base64
begin

text \<open>
  \<^verbatim>\<open>authx/argon2id.go\<close>: option defaults and validation, the PHC string that \<open>Hash\<close> prints,
  its parser, and \<open>Verify\<close>. The integers keep their widths. The key derivation
  \<^verbatim>\<open>argon2.IDKey\<close> is not in the repository: it is the parameter \<open>kdf\<close>, which gives the bytes
  of the key; that the key has the requested length is the shape of \<open>IDKey\<close>. A random
  source is either the error \<^verbatim>\<open>rand.Read\<close> returns or the bytes it delivers.
\<close>

unbundle bit_operations_syntax

section \<open>Data\<close>

datatype argon_cause = RandError | CorruptInput | NumError numerr

type_synonym argon_error = "argon_cause goerr"

record Argon2idOptions =
  Memory :: "32 word"
  Iterations :: "32 word"
  Parallelism :: "8 word"
  SaltLength :: "32 word"
  KeyLength :: "32 word"

record Argon2idHasher =
  options :: Argon2idOptions

record parsedArgon2id =
  p_options :: Argon2idOptions
  p_salt :: bytes
  p_key :: bytes

type_synonym kdf = "string \<Rightarrow> bytes \<Rightarrow> 32 word \<Rightarrow> 32 word \<Rightarrow> 8 word \<Rightarrow> 32 word \<Rightarrow> nat \<Rightarrow> byte"

definition IDKey :: "kdf \<Rightarrow> string \<Rightarrow> bytes \<Rightarrow> 32 word \<Rightarrow> 32 word \<Rightarrow> 8 word \<Rightarrow> 32 word \<Rightarrow> bytes" where
  "IDKey kdf pw salt t m p len = map (kdf pw salt t m p len) [0..<unat len]"

definition argon2_Version :: nat where
  "argon2_Version = 19"

definition defaultArgon2idMemory :: "32 word" where "defaultArgon2idMemory = 64 * 1024"
definition defaultArgon2idIterations :: "32 word" where "defaultArgon2idIterations = 3"
definition defaultArgon2idParallelism :: "8 word" where "defaultArgon2idParallelism = 2"
definition defaultArgon2idSaltLength :: "32 word" where "defaultArgon2idSaltLength = 16"
definition defaultArgon2idKeyLength :: "32 word" where "defaultArgon2idKeyLength = 32"

definition maxArgon2idMemory :: "32 word" where "maxArgon2idMemory = 256 * 1024"
definition maxArgon2idIterations :: "32 word" where "maxArgon2idIterations = 10"
definition maxArgon2idParallelism :: "8 word" where "maxArgon2idParallelism = 16"
definition maxArgon2idSaltLength :: "32 word" where "maxArgon2idSaltLength = 64"
definition maxArgon2idKeyLength :: "32 word" where "maxArgon2idKeyLength = 64"

lemmas argon_consts [go_def] =
  defaultArgon2idMemory_def defaultArgon2idIterations_def defaultArgon2idParallelism_def
  defaultArgon2idSaltLength_def defaultArgon2idKeyLength_def
  maxArgon2idMemory_def maxArgon2idIterations_def maxArgon2idParallelism_def
  maxArgon2idSaltLength_def maxArgon2idKeyLength_def

section \<open>Options\<close>

definition argon2idDefaults :: "Argon2idOptions \<Rightarrow> Argon2idOptions" where
  "argon2idDefaults opts =
     (let o1 = (if Memory opts = 0 then opts\<lparr>Memory := defaultArgon2idMemory\<rparr> else opts);
          o2 = (if Iterations o1 = 0 then o1\<lparr>Iterations := defaultArgon2idIterations\<rparr> else o1);
          o3 = (if Parallelism o2 = 0 then o2\<lparr>Parallelism := defaultArgon2idParallelism\<rparr> else o2);
          o4 = (if SaltLength o3 = 0 then o3\<lparr>SaltLength := defaultArgon2idSaltLength\<rparr> else o3)
      in if KeyLength o4 = 0 then o4\<lparr>KeyLength := defaultArgon2idKeyLength\<rparr> else o4)"

definition validateArgon2idOptions :: "Argon2idOptions \<Rightarrow> argon_error option" where
  "validateArgon2idOptions opts =
     (if Memory opts < 8 * ucast (Parallelism opts) then
        Some (New ''authx: Argon2id memory must be at least 8 KiB per parallelism lane'')
      else if maxArgon2idMemory < Memory opts then
        Some (New (''authx: Argon2id memory exceeds '' @ dec (unat maxArgon2idMemory) @ '' KiB''))
      else if Iterations opts < 1 \<or> maxArgon2idIterations < Iterations opts then
        Some (New (''authx: Argon2id iterations must be between 1 and ''
                   @ dec (unat maxArgon2idIterations)))
      else if Parallelism opts < 1 \<or> maxArgon2idParallelism < Parallelism opts then
        Some (New (''authx: Argon2id parallelism must be between 1 and ''
                   @ dec (unat maxArgon2idParallelism)))
      else if SaltLength opts < 8 \<or> maxArgon2idSaltLength < SaltLength opts then
        Some (New (''authx: Argon2id salt length must be between 8 and ''
                   @ dec (unat maxArgon2idSaltLength)))
      else if KeyLength opts < 16 \<or> maxArgon2idKeyLength < KeyLength opts then
        Some (New (''authx: Argon2id key length must be between 16 and ''
                   @ dec (unat maxArgon2idKeyLength)))
      else None)"

definition NewArgon2idHasher :: "Argon2idOptions \<Rightarrow> argon_error + Argon2idHasher" where
  "NewArgon2idHasher opts =
     (let opts' = argon2idDefaults opts
      in case validateArgon2idOptions opts' of
           Some e \<Rightarrow> Inl e
         | None \<Rightarrow> Inr \<lparr>options = opts'\<rparr>)"

section \<open>Hashing\<close>

definition phc_string :: "nat \<Rightarrow> Argon2idOptions \<Rightarrow> bytes \<Rightarrow> bytes \<Rightarrow> string" where
  "phc_string v opts salt key =
     ''$argon2id$v='' @ dec v
     @ ''$m='' @ dec (unat (Memory opts))
     @ '',t='' @ dec (unat (Iterations opts))
     @ '',p='' @ dec (unat (Parallelism opts))
     @ ''$'' @ EncodeToString salt
     @ ''$'' @ EncodeToString key"

definition Argon2id_Hash ::
  "kdf \<Rightarrow> Argon2idHasher option \<Rightarrow> argon_cause + (nat \<Rightarrow> byte) \<Rightarrow> string \<Rightarrow> argon_error + string" where
  "Argon2id_Hash kdf h rand password =
     (case h of
        None \<Rightarrow> Inl (New ''authx: nil Argon2id hasher'')
      | Some h \<Rightarrow>
          (case rand of
             Inl e \<Rightarrow> Inl (Wrap ''authx: generate Argon2id salt'' (Ext e))
           | Inr rnd \<Rightarrow>
               (let salt = map rnd [0..<unat (SaltLength (options h))];
                    key = IDKey kdf password salt (Iterations (options h)) (Memory (options h))
                            (Parallelism (options h)) (KeyLength (options h))
                in Inr (phc_string argon2_Version (options h) salt key))))"

section \<open>Parsing\<close>

definition parsePHCValue :: "string \<Rightarrow> string \<Rightarrow> argon_error + nat" where
  "parsePHCValue value name =
     (let pre = name @ ''=''
      in if \<not> HasPrefix value pre \<or> length value = length pre then
           Inl (New (''authx: malformed Argon2id '' @ name @ '' parameter''))
         else (case ParseUint (TrimPrefix value pre) of
                 Inl e \<Rightarrow> Inl (Wrap (''authx: malformed Argon2id '' @ name @ '' parameter'')
                                    (Ext (NumError e)))
               | Inr n \<Rightarrow> Inr n))"

definition zero_options :: Argon2idOptions where
  "zero_options = \<lparr>Memory = 0, Iterations = 0, Parallelism = 0, SaltLength = 0, KeyLength = 0\<rparr>"

definition parseArgon2idParameters :: "string \<Rightarrow> argon_error + Argon2idOptions" where
  "parseArgon2idParameters value =
     (let parts = Split value CHR '',''
      in if length parts \<noteq> 3 then Inl (New ''authx: malformed Argon2id parameters'')
         else (case parsePHCValue (parts ! 0) ''m'' of
                 Inl e \<Rightarrow> Inl e
               | Inr memory \<Rightarrow>
           (case parsePHCValue (parts ! 1) ''t'' of
              Inl e \<Rightarrow> Inl e
            | Inr iterations \<Rightarrow>
           (case parsePHCValue (parts ! 2) ''p'' of
              Inl e \<Rightarrow> Inl e
            | Inr parallelism \<Rightarrow>
                if unat (NOT 0 :: 32 word) < memory \<or> unat (NOT 0 :: 32 word) < iterations
                   \<or> unat (NOT 0 :: 8 word) < parallelism
                then Inl (New ''authx: Argon2id parameter overflow'')
                else Inr (zero_options\<lparr>Memory := of_nat memory, Iterations := of_nat iterations,
                                       Parallelism := of_nat parallelism\<rparr>)))))"

definition parseArgon2idHash :: "string \<Rightarrow> argon_error + parsedArgon2id" where
  "parseArgon2idHash encodedHash =
     (let parts = Split encodedHash CHR ''$''
      in if length parts \<noteq> 6 \<or> parts ! 0 \<noteq> [] \<or> parts ! 1 \<noteq> ''argon2id'' then
           Inl (New ''authx: malformed Argon2id PHC string'')
         else (case parsePHCValue (parts ! 2) ''v'' of
                 Inl e \<Rightarrow> Inl e
               | Inr version \<Rightarrow>
           if version \<noteq> argon2_Version then
             Inl (New (''authx: unsupported Argon2 version '' @ dec version))
           else (case parseArgon2idParameters (parts ! 3) of
                   Inl e \<Rightarrow> Inl e
                 | Inr opts \<Rightarrow>
           (case DecodeString (parts ! 4) of
              None \<Rightarrow> Inl (Wrap ''authx: invalid Argon2id salt'' (Ext CorruptInput))
            | Some salt \<Rightarrow>
           (case DecodeString (parts ! 5) of
              None \<Rightarrow> Inl (Wrap ''authx: invalid Argon2id key'' (Ext CorruptInput))
            | Some key \<Rightarrow>
                (let opts' = opts\<lparr>SaltLength := of_nat (length salt), KeyLength := of_nat (length key)\<rparr>
                 in case validateArgon2idOptions opts' of
                      Some e \<Rightarrow> Inl (Wrap ''authx: invalid Argon2id hash parameters'' e)
                    | None \<Rightarrow> Inr \<lparr>p_options = opts', p_salt = salt, p_key = key\<rparr>))))))"

section \<open>Verification\<close>

text \<open>\<^verbatim>\<open>crypto/subtle\<close>: the comparison that reads every byte whatever the data.\<close>

definition ConstantTimeByteEq :: "byte \<Rightarrow> byte \<Rightarrow> nat" where
  "ConstantTimeByteEq x y = unat (drop_bit 31 ((ucast (x XOR y) :: 32 word) - 1))"

definition ConstantTimeCompare :: "bytes \<Rightarrow> bytes \<Rightarrow> nat" where
  "ConstantTimeCompare x y =
     (if length x \<noteq> length y then 0
      else ConstantTimeByteEq (foldl (\<lambda>v (a, b). v OR (a XOR b)) 0 (zip x y)) 0)"

definition Argon2id_Verify ::
  "kdf \<Rightarrow> Argon2idHasher option \<Rightarrow> string \<Rightarrow> string \<Rightarrow> argon_error + bool" where
  "Argon2id_Verify kdf h password encodedHash =
     (case h of
        None \<Rightarrow> Inl (New ''authx: nil Argon2id hasher'')
      | Some h \<Rightarrow>
          (case parseArgon2idHash encodedHash of
             Inl e \<Rightarrow> Inl e
           | Inr parsed \<Rightarrow>
               (let key = IDKey kdf password (p_salt parsed) (Iterations (p_options parsed))
                            (Memory (p_options parsed)) (Parallelism (p_options parsed))
                            (of_nat (length (p_key parsed)))
                in Inr (ConstantTimeCompare key (p_key parsed) = 1))))"

section \<open>Options: what validation means\<close>

text \<open>The bounds as statements about integers.\<close>

definition options_ok :: "Argon2idOptions \<Rightarrow> bool" where
  "options_ok opts \<longleftrightarrow>
     8 * unat (Parallelism opts) \<le> unat (Memory opts) \<and> unat (Memory opts) \<le> 262144 \<and>
     1 \<le> unat (Iterations opts) \<and> unat (Iterations opts) \<le> 10 \<and>
     1 \<le> unat (Parallelism opts) \<and> unat (Parallelism opts) \<le> 16 \<and>
     8 \<le> unat (SaltLength opts) \<and> unat (SaltLength opts) \<le> 64 \<and>
     16 \<le> unat (KeyLength opts) \<and> unat (KeyLength opts) \<le> 64"

lemma lanes_no_overflow: "unat (8 * ucast (p :: 8 word) :: 32 word) = 8 * unat p"
proof -
  have "unat p < 256" using unsigned_less [of p] by simp
  then show ?thesis by (simp add: unat_word_ariths unsigned_ucast_eq take_bit_nat_eq_self)
qed

lemma validate_iff [result_iff]: "validateArgon2idOptions opts = None \<longleftrightarrow> options_ok opts"
  unfolding validateArgon2idOptions_def options_ok_def argon_consts
  by (auto simp: word_less_nat_alt word_le_nat_alt lanes_no_overflow not_less Suc_le_eq)

lemma zero_defaults_ok: "options_ok (argon2idDefaults zero_options)"
  by (simp add: argon2idDefaults_def zero_options_def options_ok_def argon_consts)

lemma NewArgon2idHasher_Inr [result_iff]:
  "NewArgon2idHasher opts = Inr h \<longleftrightarrow>
   options_ok (argon2idDefaults opts) \<and> h = \<lparr>options = argon2idDefaults opts\<rparr>"
  by (auto simp: NewArgon2idHasher_def Let_def simp flip: validate_iff split: option.splits)

section \<open>Constant-time comparison is equality\<close>

lemma ConstantTimeByteEq_zero: "ConstantTimeByteEq x 0 = (if x = 0 then 1 else 0)"
proof (cases "x = 0")
  case True
  then show ?thesis by (simp add: ConstantTimeByteEq_def)
next
  case False
  let ?w = "ucast x :: 32 word"
  have x: "0 < unat x" "unat x < 256"
    using False unsigned_less [of x] by (auto simp: unat_gt_0)
  have w: "unat ?w = unat x" using x by (simp add: unsigned_ucast_eq take_bit_nat_eq_self)
  then have "?w \<noteq> 0" using x by auto
  then have "unat (?w - 1) = unat x - 1" using w by (simp add: unat_minus_one)
  moreover have "unat (drop_bit 31 (?w - 1)) = drop_bit 31 (unat (?w - 1))"
    by (rule unat_drop_bit_eq)
  ultimately have "unat (drop_bit 31 (?w - 1)) = (unat x - 1) div 2 ^ 31"
    by (simp only: drop_bit_nat_def)
  also have "\<dots> = 0" using x by simp
  finally show ?thesis using False by (simp add: ConstantTimeByteEq_def)
qed

lemma or_zero_iff: "(v :: byte) OR w = 0 \<longleftrightarrow> v = 0 \<and> w = 0"
  by (rule or_eq_0_iff)

lemma xor_zero_iff: "(a :: byte) XOR b = 0 \<longleftrightarrow> a = b"
proof
  assume "a XOR b = 0"
  then have "(a XOR b) XOR b = 0 XOR b" by (rule arg_cong)
  then show "a = b" by (simp add: xor.assoc)
qed simp

lemma foldl_or_xor:
  "length x = length y \<Longrightarrow>
   foldl (\<lambda>v (a, b). v OR (a XOR b)) v (zip x y) = (0 :: byte) \<longleftrightarrow> v = 0 \<and> x = y"
  by (induction x y arbitrary: v rule: list_induct2) (simp_all add: or_zero_iff xor_zero_iff conj_assoc)

lemma ConstantTimeCompare_eq: "ConstantTimeCompare x y = (if x = y then 1 else 0)"
  by (auto simp: ConstantTimeCompare_def ConstantTimeByteEq_zero foldl_or_xor)

section \<open>Printing and parsing\<close>

lemma dec_no [simp]: "CHR ''$'' \<notin> set (dec n)" "CHR '','' \<notin> set (dec n)"
  using dec_digits by (fastforce simp: is_digit_def)+

lemma parsePHCValue_Inr [result_iff]:
  "parsePHCValue value name = Inr n \<longleftrightarrow>
   (\<exists>ds. value = name @ ''='' @ ds \<and> ParseUint ds = Inr n)"
proof
  assume "parsePHCValue value name = Inr n"
  then obtain ds where "value = (name @ ''='') @ ds" and "ParseUint ds = Inr n"
    by (auto simp: parsePHCValue_def Let_def HasPrefix_iff TrimPrefix_def
             split: if_splits sum.splits)
  then show "\<exists>ds. value = name @ ''='' @ ds \<and> ParseUint ds = Inr n" by auto
next
  assume "\<exists>ds. value = name @ ''='' @ ds \<and> ParseUint ds = Inr n"
  then obtain ds where v: "value = (name @ ''='') @ ds" and ds: "ParseUint ds = Inr n"
    by auto
  then have "ds \<noteq> []" by (auto simp: ParseUint_def)
  with v ds show "parsePHCValue value name = Inr n"
    by (simp add: parsePHCValue_def Let_def del: append_assoc)
qed

lemma parsePHCValue_dec: "n \<le> max_uint64 \<Longrightarrow> parsePHCValue (c # CHR ''='' # dec n) [c] = Inr n"
  using ParseUint_dec by (auto simp: parsePHCValue_Inr)

lemma unat_ones: "unat (- 1 :: 32 word) = 4294967295" "unat (- 1 :: 8 word) = 255"
  by (simp_all add: unsigned_minus_1_eq_mask mask_eq_exp_minus_1)

definition param_string :: "Argon2idOptions \<Rightarrow> string" where
  "param_string opts =
     Join [''m='' @ dec (unat (Memory opts)), ''t='' @ dec (unat (Iterations opts)),
           ''p='' @ dec (unat (Parallelism opts))] '',''"

lemma phc_string_Join:
  "phc_string v opts salt key =
   Join [[], ''argon2id'', ''v='' @ dec v, param_string opts, EncodeToString salt, EncodeToString key] ''$''"
  by (simp add: phc_string_def param_string_def)

lemma unat_le_max_uint64: "unat (w :: 32 word) \<le> max_uint64" "unat (u :: 8 word) \<le> max_uint64"
  using unat_less_32 [of w] unat_less_8 [of u] by (simp_all add: max_uint64_def)

lemma ParseUint_no: "ParseUint s = Inr n \<Longrightarrow> CHR ''$'' \<notin> set s \<and> CHR '','' \<notin> set s"
  by (fastforce simp: ParseUint_Inr is_digit_def)

lemma DecodeString_no: "DecodeString s = Some bs \<Longrightarrow> CHR ''$'' \<notin> set s"
  by (force simp: DecodeString_def line_break_def Let_def split: if_splits)

text \<open>What the parser accepts, from the parts of the string.\<close>

lemma parseArgon2idParameters_parts:
  assumes "ParseUint m = Inr (unat (Memory opts))" "ParseUint t = Inr (unat (Iterations opts))"
    and "ParseUint p = Inr (unat (Parallelism opts))"
  shows "parseArgon2idParameters (Join [''m='' @ m, ''t='' @ t, ''p='' @ p] '','') =
    Inr (zero_options\<lparr>Memory := Memory opts, Iterations := Iterations opts, Parallelism := Parallelism opts\<rparr>)"
proof -
  have sp: "Split (Join [''m='' @ m, ''t='' @ t, ''p='' @ p] '','') CHR '','' = [''m='' @ m, ''t='' @ t, ''p='' @ p]"
    by (rule Split_Join) (use assms in \<open>auto dest: ParseUint_no\<close>)
  have "parsePHCValue (''m='' @ m) ''m'' = Inr (unat (Memory opts))" "parsePHCValue (''t='' @ t) ''t'' = Inr (unat (Iterations opts))"
    "parsePHCValue (''p='' @ p) ''p'' = Inr (unat (Parallelism opts))"
    using assms by (auto simp: parsePHCValue_Inr)
  moreover have "unat (w :: 32 word) \<le> 4294967295" "unat (u :: 8 word) \<le> 255" for w u
    using unat_less_32 [of w] unat_less_8 [of u] by simp_all
  ultimately show ?thesis
    unfolding parseArgon2idParameters_def sp Let_def by (simp add: unat_ones not_less nth_Cons_numeral)
qed

lemma parse_parts:
  assumes "ParseUint v = Inr argon2_Version" "ParseUint m = Inr (unat (Memory opts))" "ParseUint t = Inr (unat (Iterations opts))"
    and "ParseUint p = Inr (unat (Parallelism opts))" "DecodeString s = Some salt" "DecodeString k = Some key"
    and "options_ok opts" "SaltLength opts = of_nat (length salt)" "KeyLength opts = of_nat (length key)"
  shows "parseArgon2idHash (Join [[], ''argon2id'', ''v='' @ v, Join [''m='' @ m, ''t='' @ t, ''p='' @ p] '','', s, k] ''$'') =
         Inr \<lparr>p_options = opts, p_salt = salt, p_key = key\<rparr>"
proof -
  let ?ps = "Join [''m='' @ m, ''t='' @ t, ''p='' @ p] '',''"
  have sp: "Split (Join [[], ''argon2id'', ''v='' @ v, ?ps, s, k] ''$'') CHR ''$'' = [[], ''argon2id'', ''v='' @ v, ?ps, s, k]"
    by (rule Split_Join) (use assms in \<open>auto dest: ParseUint_no DecodeString_no\<close>)
  have v: "parsePHCValue (''v='' @ v) ''v'' = Inr argon2_Version" using assms(1) by (auto simp: parsePHCValue_Inr)
  have "zero_options\<lparr>Memory := Memory opts, Iterations := Iterations opts, Parallelism := Parallelism opts,
          SaltLength := of_nat (length salt), KeyLength := of_nat (length key)\<rparr> = opts"
    using assms(8,9) by (simp add: zero_options_def)
  with v assms(5-7) parseArgon2idParameters_parts [OF assms(2-4)] show ?thesis
    unfolding parseArgon2idHash_def sp Let_def by (simp add: nth_Cons_numeral flip: validate_iff)
qed

lemma parse_phc_string:
  assumes ok: "options_ok opts"
    and salt: "length salt = unat (SaltLength opts)" and key: "length key = unat (KeyLength opts)"
  shows "parseArgon2idHash (phc_string argon2_Version opts salt key) =
         Inr \<lparr>p_options = opts, p_salt = salt, p_key = key\<rparr>"
  unfolding phc_string_Join param_string_def
  by (rule parse_parts) (simp_all add: assms ParseUint_dec [OF unat_le_max_uint64(1)] ParseUint_dec [OF unat_le_max_uint64(2)] ParseUint_dec
      DecodeString_EncodeToString argon2_Version_def max_uint64_def)

text \<open>Whatever the parser accepts obeys the bounds, and has the printed shape up to the
  spelling of the numbers and the line breaks in the two base64 fields.\<close>

lemma parseArgon2idParameters_InrD:
  assumes "parseArgon2idParameters value = Inr opts"
  obtains m t p where "value = Join [''m='' @ m, ''t='' @ t, ''p='' @ p] '',''"
    and "ParseUint m = Inr (unat (Memory opts))" and "ParseUint t = Inr (unat (Iterations opts))"
    and "ParseUint p = Inr (unat (Parallelism opts))"
proof -
  obtain a b c where parts: "Split value CHR '','' = [a, b, c]"
    using assms
    by (auto simp: parseArgon2idParameters_def Let_def length_Suc_conv numeral_3_eq_3 split: if_splits)
  from assms parts obtain m t p where
    vals: "parsePHCValue a ''m'' = Inr m" "parsePHCValue b ''t'' = Inr t" "parsePHCValue c ''p'' = Inr p"
    and le: "m \<le> 4294967295" "t \<le> 4294967295" "p \<le> 255"
    and opts: "opts = zero_options\<lparr>Memory := of_nat m, Iterations := of_nat t, Parallelism := of_nat p\<rparr>"
    by (auto simp: parseArgon2idParameters_def Let_def unat_ones not_less nth_Cons_numeral
             split: if_splits sum.splits)
  have "value = Join [a, b, c] '',''"
    using Join_Split [of "value" "CHR '',''"] parts by simp
  with vals le opts that show thesis
    by (fastforce simp: parsePHCValue_Inr)
qed

lemma parseArgon2idHash_InrD:
  assumes "parseArgon2idHash e = Inr r"
  shows "options_ok (p_options r)"
    and "SaltLength (p_options r) = of_nat (length (p_salt r))"
    and "KeyLength (p_options r) = of_nat (length (p_key r))"
    and "\<exists>v ps s k. e = Join [[], ''argon2id'', ''v='' @ v, ps, s, k] ''$''
           \<and> ParseUint v = Inr argon2_Version
           \<and> (\<exists>opts. parseArgon2idParameters ps = Inr opts
                 \<and> Memory opts = Memory (p_options r) \<and> Iterations opts = Iterations (p_options r)
                 \<and> Parallelism opts = Parallelism (p_options r))
           \<and> DecodeString s = Some (p_salt r) \<and> DecodeString k = Some (p_key r)"
proof -
  obtain v ps s k where parts: "Split e CHR ''$'' = [[], ''argon2id'', v, ps, s, k]"
    using assms
    by (auto simp: parseArgon2idHash_def Let_def length_Suc_conv eval_nat_numeral split: if_splits)
  have e: "e = Join [[], ''argon2id'', v, ps, s, k] ''$''"
    using Join_Split [of e "CHR ''$''"] parts by simp
  from assms parts obtain opts salt key where
    v: "parsePHCValue v ''v'' = Inr argon2_Version" and ps: "parseArgon2idParameters ps = Inr opts"
    and s: "DecodeString s = Some salt" and k: "DecodeString k = Some key"
    and ok: "validateArgon2idOptions (opts\<lparr>SaltLength := of_nat (length salt), KeyLength := of_nat (length key)\<rparr>) = None"
    and r: "r = \<lparr>p_options = opts\<lparr>SaltLength := of_nat (length salt), KeyLength := of_nat (length key)\<rparr>,
                 p_salt = salt, p_key = key\<rparr>"
    by (auto simp: parseArgon2idHash_def Let_def nth_Cons_numeral split: if_splits sum.splits option.splits)
  show "options_ok (p_options r)" using ok r by (simp add: validate_iff)
  show "SaltLength (p_options r) = of_nat (length (p_salt r))"
    and "KeyLength (p_options r) = of_nat (length (p_key r))" using r by simp_all
  from v obtain v' where v': "v = ''v='' @ v'" "ParseUint v' = Inr argon2_Version"
    by (auto simp: parsePHCValue_Inr)
  show "\<exists>v ps s k. e = Join [[], ''argon2id'', ''v='' @ v, ps, s, k] ''$''
           \<and> ParseUint v = Inr argon2_Version
           \<and> (\<exists>opts. parseArgon2idParameters ps = Inr opts
                 \<and> Memory opts = Memory (p_options r) \<and> Iterations opts = Iterations (p_options r)
                 \<and> Parallelism opts = Parallelism (p_options r))
           \<and> DecodeString s = Some (p_salt r) \<and> DecodeString k = Some (p_key r)"
    using e v' ps s k r by (intro exI [of _ v'] exI [of _ ps] exI [of _ s] exI [of _ k]) auto
qed

lemma parseArgon2idHash_lengths:
  assumes "parseArgon2idHash e = Inr r" and "length e < 2 ^ 32"
  shows "unat (SaltLength (p_options r)) = length (p_salt r)"
    and "unat (KeyLength (p_options r)) = length (p_key r)"
proof -
  obtain v ps s k where e: "e = Join [[], ''argon2id'', ''v='' @ v, ps, s, k] ''$''"
    and "DecodeString s = Some (p_salt r)" "DecodeString k = Some (p_key r)"
    using parseArgon2idHash_InrD(4) [OF assms(1)] by blast
  then have "length (p_salt r) \<le> length s" "length (p_key r) \<le> length k"
    by (simp_all add: length_DecodeString)
  with e assms(2) have "length (p_salt r) < 2 ^ 32" "length (p_key r) < 2 ^ 32"
    by simp_all
  then show "unat (SaltLength (p_options r)) = length (p_salt r)"
    and "unat (KeyLength (p_options r)) = length (p_key r)"
    using parseArgon2idHash_InrD(2,3) [OF assms(1)] by (simp_all add: unat_of_nat take_bit_nat_eq_self)
qed

section \<open>Hashing then verifying\<close>

lemma length_IDKey [simp]: "length (IDKey kdf pw salt t m p len) = unat len"
  by (simp add: IDKey_def)

abbreviation hash_salt :: "Argon2idOptions \<Rightarrow> (nat \<Rightarrow> byte) \<Rightarrow> bytes" where
  "hash_salt opts rnd \<equiv> map rnd [0..<unat (SaltLength opts)]"

abbreviation hash_key :: "kdf \<Rightarrow> Argon2idOptions \<Rightarrow> bytes \<Rightarrow> string \<Rightarrow> bytes" where
  "hash_key kdf opts salt pw \<equiv>
     IDKey kdf pw salt (Iterations opts) (Memory opts) (Parallelism opts) (KeyLength opts)"

lemma Argon2id_Hash_Inr [result_iff]:
  "Argon2id_Hash kdf h rand p = Inr e \<longleftrightarrow>
   (\<exists>h' rnd. h = Some h' \<and> rand = Inr rnd \<and>
      e = phc_string argon2_Version (options h') (hash_salt (options h') rnd)
            (hash_key kdf (options h') (hash_salt (options h') rnd) p))"
  by (auto simp: Argon2id_Hash_def Let_def split: option.splits sum.splits)

lemma Argon2id_Verify_phc:
  assumes "options_ok opts"
    and "length salt = unat (SaltLength opts)" and "length key = unat (KeyLength opts)"
  shows "Argon2id_Verify kdf (Some h) q (phc_string argon2_Version opts salt key) =
         Inr (hash_key kdf opts salt q = key)"
  using assms
  by (simp add: Argon2id_Verify_def parse_phc_string Let_def ConstantTimeCompare_eq)

end
