(* ===== verification/Authx_Password.thy ===== *)
theory Authx_Password
  imports Authx_Argon2id
begin

text \<open>
  \<^verbatim>\<open>authx/password.go\<close>: the \<^verbatim>\<open>PasswordHasher\<close> interface as a locale, the bcrypt hasher and the
  deprecated helpers built on it, and the two implementations of the interface. The bcrypt
  library is not in the repository: \<open>generate\<close> and \<open>compare\<close> are its
  \<^verbatim>\<open>GenerateFromPassword\<close> and \<^verbatim>\<open>CompareHashAndPassword\<close>, and \<open>bcrypt_lib\<close> states the two
  documented facts about them that the hasher relies on.
\<close>

section \<open>The interface\<close>

text \<open>The parameter \<open>accepts\<close> is the relation the algorithm checks: which passwords belong to a hash.
  The contract of the interface is that \<^verbatim>\<open>Verify\<close> answers exactly this relation on the hashes that
  \<^verbatim>\<open>Hash\<close> makes, so a mismatch is false with a nil error.\<close>

locale password_hasher =
  fixes Hash :: "'h \<Rightarrow> 'r \<Rightarrow> string \<Rightarrow> 'e + string"
    and Verify :: "'h \<Rightarrow> string \<Rightarrow> string \<Rightarrow> 'e + bool"
    and invar :: "'h \<Rightarrow> bool"
    and accepts :: "string \<Rightarrow> string \<Rightarrow> bool"
  assumes accepts_hashed: "\<lbrakk>invar h; Hash h r p = Inr e\<rbrakk> \<Longrightarrow> accepts p e"
    and verify_own: "\<lbrakk>invar h; invar h'; Hash h r p = Inr e\<rbrakk> \<Longrightarrow> Verify h' q e = Inr (accepts q e)"
begin

lemma verify_hash: "\<lbrakk>invar h; invar h'; Hash h r p = Inr e\<rbrakk> \<Longrightarrow> Verify h' p e = Inr True"
  by (simp add: verify_own accepts_hashed)

lemma verify_mismatch:
  "\<lbrakk>invar h; invar h'; Hash h r p = Inr e; \<not> accepts q e\<rbrakk> \<Longrightarrow> Verify h' q e = Inr False"
  by (simp add: verify_own)

text \<open>A rejected password was not the hashed one, whichever hasher checks it.\<close>

lemma rejected_differs:
  "\<lbrakk>invar h; invar h'; Hash h r p = Inr e; Verify h' q e = Inr False\<rbrakk> \<Longrightarrow> q \<noteq> p"
  using verify_hash by fastforce

text \<open>An error from \<open>Verify\<close> shows that the string is no hash made by a valid hasher.\<close>

lemma verify_error_foreign:
  "\<lbrakk>invar h; invar h'; Verify h' q e = Inl x\<rbrakk> \<Longrightarrow> Hash h r p \<noteq> Inr e"
  using verify_own [of h h' r p e q] by auto

end

section \<open>Argon2id implements it\<close>

definition argon2id_invar :: "Argon2idHasher option \<Rightarrow> bool" where
  "argon2id_invar h \<longleftrightarrow> (\<exists>h'. h = Some h' \<and> options_ok (options h'))"

lemma argon2id_invar_New: "NewArgon2idHasher opts = Inr h \<Longrightarrow> argon2id_invar (Some h)"
  by (simp add: argon2id_invar_def NewArgon2idHasher_Inr)

text \<open>A password belongs to a PHC string when it derives the key in the string.\<close>

definition argon2id_accepts :: "kdf \<Rightarrow> string \<Rightarrow> string \<Rightarrow> bool" where
  "argon2id_accepts kdf q e =
     (case parseArgon2idHash e of
        Inl _ \<Rightarrow> False
      | Inr r \<Rightarrow> hash_key kdf (p_options r) (p_salt r) q = p_key r)"

lemma argon2id_accepts_phc:
  assumes "options_ok opts" "length salt = unat (SaltLength opts)" "length key = unat (KeyLength opts)"
  shows "argon2id_accepts kdf q (phc_string argon2_Version opts salt key) \<longleftrightarrow> hash_key kdf opts salt q = key"
  using assms by (simp add: argon2id_accepts_def parse_phc_string)

interpretation argon2id: password_hasher "Argon2id_Hash kdf" "Argon2id_Verify kdf" argon2id_invar "argon2id_accepts kdf"
  for kdf
  by unfold_locales (auto simp: argon2id_invar_def Argon2id_Hash_Inr Argon2id_Verify_phc argon2id_accepts_phc)

section \<open>Bcrypt\<close>

datatype bcrypt_error = MismatchedHashAndPassword | OtherBcrypt string

type_synonym 'r generate = "string \<Rightarrow> int \<Rightarrow> 'r \<Rightarrow> bcrypt_error + string"
type_synonym compare = "string \<Rightarrow> string \<Rightarrow> bcrypt_error option"

definition bcrypt_MinCost :: int where "bcrypt_MinCost = 4"
definition bcrypt_MaxCost :: int where "bcrypt_MaxCost = 31"
definition bcrypt_DefaultCost :: int where "bcrypt_DefaultCost = 10"

record BcryptOptions =
  Cost :: int

record BcryptHasher =
  cost :: int

definition NewBcryptHasher :: "BcryptOptions \<Rightarrow> bcrypt_error goerr + BcryptHasher" where
  "NewBcryptHasher opts =
     (let c = (if Cost opts = 0 then bcrypt_DefaultCost else Cost opts)
      in if c < bcrypt_MinCost \<or> bcrypt_MaxCost < c then
           Inl (New (''authx: bcrypt cost must be between '' @ dec_int bcrypt_MinCost @ '' and ''
                     @ dec_int bcrypt_MaxCost))
         else Inr \<lparr>cost = c\<rparr>)"

definition Bcrypt_Hash ::
  "'r generate \<Rightarrow> BcryptHasher option \<Rightarrow> 'r \<Rightarrow> string \<Rightarrow> bcrypt_error goerr + string" where
  "Bcrypt_Hash generate h r password =
     (case h of
        None \<Rightarrow> Inl (New ''authx: nil bcrypt hasher'')
      | Some h \<Rightarrow>
          (case generate password (cost h) r of
             Inl e \<Rightarrow> Inl (Wrap ''authx: bcrypt hash'' (Ext e))
           | Inr hash \<Rightarrow> Inr hash))"

definition Bcrypt_Verify ::
  "compare \<Rightarrow> BcryptHasher option \<Rightarrow> string \<Rightarrow> string \<Rightarrow> bcrypt_error goerr + bool" where
  "Bcrypt_Verify compare h password encodedHash =
     (case h of
        None \<Rightarrow> Inl (New ''authx: nil bcrypt hasher'')
      | Some h \<Rightarrow>
          (case compare encodedHash password of
             None \<Rightarrow> Inr True
           | Some e \<Rightarrow>
               if errors_Is (Ext e) (Ext MismatchedHashAndPassword) then Inr False
               else Inl (Wrap ''authx: bcrypt verify'' (Ext e))))"

definition HashPassword :: "'r generate \<Rightarrow> 'r \<Rightarrow> string \<Rightarrow> bcrypt_error goerr + string" where
  "HashPassword generate r password =
     (case NewBcryptHasher \<lparr>Cost = 0\<rparr> of
        Inl e \<Rightarrow> Inl e
      | Inr hasher \<Rightarrow> Bcrypt_Hash generate (Some hasher) r password)"

definition CheckPassword :: "compare \<Rightarrow> string \<Rightarrow> string \<Rightarrow> bcrypt_error goerr option" where
  "CheckPassword compare hash password =
     (case NewBcryptHasher \<lparr>Cost = 0\<rparr> of
        Inl e \<Rightarrow> Some e
      | Inr hasher \<Rightarrow>
          (case Bcrypt_Verify compare (Some hasher) password hash of
             Inl e \<Rightarrow> Some e
           | Inr valid \<Rightarrow> if \<not> valid then Some (Ext MismatchedHashAndPassword) else None))"

text \<open>What the bcrypt library promises: a generated hash matches its password, and another
  password compared with it is a mismatch and no other error.\<close>

definition bcrypt_lib :: "'r generate \<Rightarrow> compare \<Rightarrow> bool" where
  "bcrypt_lib generate compare \<longleftrightarrow>
     (\<forall>p c r h. generate p c r = Inr h \<longrightarrow>
        compare h p = None \<and> (\<forall>q. compare h q \<in> {None, Some MismatchedHashAndPassword}))"

lemma default_bcrypt [simp]: "NewBcryptHasher \<lparr>Cost = 0\<rparr> = Inr \<lparr>cost = bcrypt_DefaultCost\<rparr>"
  by (simp add: NewBcryptHasher_def bcrypt_DefaultCost_def bcrypt_MinCost_def bcrypt_MaxCost_def)

lemma Bcrypt_Hash_Inr [result_iff]:
  "Bcrypt_Hash generate h r p = Inr e \<longleftrightarrow> (\<exists>h'. h = Some h' \<and> generate p (cost h') r = Inr e)"
  by (auto simp: Bcrypt_Hash_def split: option.splits sum.splits)

lemma Bcrypt_Verify_cases:
  "Bcrypt_Verify compare (Some h) q x =
     (case compare x q of
        None \<Rightarrow> Inr True
      | Some MismatchedHashAndPassword \<Rightarrow> Inr False
      | Some (OtherBcrypt m) \<Rightarrow> Inl (Wrap ''authx: bcrypt verify'' (Ext (OtherBcrypt m))))"
  by (simp add: Bcrypt_Verify_def split: option.split bcrypt_error.split)

lemma bcrypt_hasher:
  assumes "bcrypt_lib generate compare"
  shows "password_hasher (Bcrypt_Hash generate) (Bcrypt_Verify compare) (\<lambda>h. h \<noteq> None) (\<lambda>q e. compare e q = None)"
proof
  fix h h' :: "BcryptHasher option" and r p e q
  assume "Bcrypt_Hash generate h r p = Inr e"
  then have lib: "compare e p = None" "compare e q \<in> {None, Some MismatchedHashAndPassword}"
    using assms unfolding Bcrypt_Hash_Inr bcrypt_lib_def by blast+
  then show "compare e p = None" by simp
  assume "h' \<noteq> None"
  with lib(2) show "Bcrypt_Verify compare h' q e = Inr (compare e q = None)"
    by (auto simp: Bcrypt_Verify_cases)
qed

section \<open>Properties\<close>

text \<open>C1. A hasher built by \<^verbatim>\<open>NewArgon2idHasher\<close> turns any password into a PHC string whenever
  the random source delivers, and every hasher verifies that string: the answer is never an
  error, it is true for the hashed password, and for another password it is true only if the
  derived keys are equal.\<close>

theorem argon2id_hash_verify:
  assumes "NewArgon2idHasher opts = Inr h"
  shows "\<exists>e. Argon2id_Hash kdf (Some h) (Inr rnd) p = Inr e \<and>
     (\<forall>h'. Argon2id_Verify kdf (Some h') p e = Inr True) \<and>
     (\<forall>h' q. Argon2id_Verify kdf (Some h') q e =
        Inr (hash_key kdf (options h) (hash_salt (options h) rnd) q =
             hash_key kdf (options h) (hash_salt (options h) rnd) p))"
proof -
  from assms have "options_ok (options h)" by (simp add: NewArgon2idHasher_Inr)
  then show ?thesis by (simp add: Argon2id_Hash_Inr Argon2id_Verify_phc)
qed

definition demo_kdf :: kdf where
  "demo_kdf pw salt t m p len i = of_nat (length pw + length salt + i)"

theorem argon2id_hash_verify_witness:
  "\<exists>e. Argon2id_Hash demo_kdf (Some \<lparr>options = argon2idDefaults zero_options\<rparr>) (Inr of_nat) ''secret'' = Inr e \<and>
     Argon2id_Verify demo_kdf (Some \<lparr>options = zero_options\<rparr>) ''secret'' e = Inr True"
proof -
  have "NewArgon2idHasher zero_options = Inr \<lparr>options = argon2idDefaults zero_options\<rparr>"
    using zero_defaults_ok by (simp add: NewArgon2idHasher_Inr)
  from argon2id_hash_verify [OF this, of demo_kdf of_nat "''secret''"] show ?thesis by blast
qed

text \<open>C2. Printing and parsing a PHC string are inverse: the string \<open>Hash\<close> prints is parsed back
  into exactly the options, the salt and the key it was made from.\<close>

theorem argon2id_phc_roundtrip:
  assumes "NewArgon2idHasher opts = Inr h" and "Argon2id_Hash kdf (Some h) (Inr rnd) p = Inr e"
  shows "parseArgon2idHash e =
    Inr \<lparr>p_options = options h, p_salt = hash_salt (options h) rnd,
         p_key = hash_key kdf (options h) (hash_salt (options h) rnd) p\<rparr>"
proof -
  from assms(1) have "options_ok (options h)" by (simp add: NewArgon2idHasher_Inr)
  with assms(2) show ?thesis by (simp add: Argon2id_Hash_Inr parse_phc_string)
qed

theorem argon2id_phc_roundtrip_witness:
  "\<exists>e. Argon2id_Hash demo_kdf (Some \<lparr>options = argon2idDefaults zero_options\<rparr>) (Inr of_nat) ''pw'' = Inr e \<and>
     (\<exists>r. parseArgon2idHash e = Inr r \<and> p_options r = argon2idDefaults zero_options)"
proof -
  let ?h = "\<lparr>options = argon2idDefaults zero_options\<rparr>"
  have new: "NewArgon2idHasher zero_options = Inr ?h"
    using zero_defaults_ok by (simp add: NewArgon2idHasher_Inr)
  obtain e where e: "Argon2id_Hash demo_kdf (Some ?h) (Inr of_nat) ''pw'' = Inr e"
    by (simp add: Argon2id_Hash_def Let_def)
  from argon2id_phc_roundtrip [OF new e] e show ?thesis by auto
qed

text \<open>C28. Resource bounds on untrusted hashes: whatever string is accepted (a string of less than
  4 GiB), the parameters that reach the key derivation are within the package limits, the memory
  covers the lanes, and the salt and key have the lengths the options say.\<close>

theorem argon2id_parse_bounds:
  assumes "parseArgon2idHash e = Inr r" and "length e < 2 ^ 32"
  shows "8 * unat (Parallelism (p_options r)) \<le> unat (Memory (p_options r))
       \<and> unat (Memory (p_options r)) \<le> 262144
       \<and> unat (Iterations (p_options r)) \<in> {1..10}
       \<and> unat (Parallelism (p_options r)) \<in> {1..16}
       \<and> length (p_salt r) \<in> {8..64} \<and> length (p_key r) \<in> {16..64}"
  using parseArgon2idHash_InrD(1) [OF assms(1)] parseArgon2idHash_lengths [OF assms]
  by (simp add: options_ok_def)

definition demo_hash :: string where
  "demo_hash = phc_string argon2_Version (argon2idDefaults zero_options) (replicate 16 7) (replicate 32 9)"

lemma demo_hash_parses:
  "parseArgon2idHash demo_hash =
   Inr \<lparr>p_options = argon2idDefaults zero_options, p_salt = replicate 16 7, p_key = replicate 32 9\<rparr>"
  unfolding demo_hash_def
  by (rule parse_phc_string) (simp_all add: zero_defaults_ok, simp_all add: argon2idDefaults_def zero_options_def argon_consts)

lemma demo_hash_short: "length demo_hash < 2 ^ 32"
  using length_EncodeToString [of "replicate 16 7"] length_EncodeToString [of "replicate 32 9"]
  by (simp add: demo_hash_def phc_string_def argon2idDefaults_def zero_options_def argon_consts
                dec.simps argon2_Version_def)

theorem argon2id_parse_bounds_witness:
  "\<exists>r. parseArgon2idHash demo_hash = Inr r \<and> length (p_salt r) \<in> {8..64} \<and> length (p_key r) \<in> {16..64}"
  using argon2id_parse_bounds [OF demo_hash_parses demo_hash_short] demo_hash_parses by blast

text \<open>C3. Exactly which hashes are accepted, with which result: the strings \<^verbatim>\<open>$argon2id$v=V$m=M,t=T,p=P$SALT$KEY\<close>
  with \<^verbatim>\<open>V\<close> a decimal spelling of 19, \<^verbatim>\<open>M\<close>, \<^verbatim>\<open>T\<close> and \<^verbatim>\<open>P\<close> spelling the parameters without any wrap-around, and
  the base64 fields decoding to the salt and the key, whenever these options are within the limits.
  Every other string is an error.\<close>

theorem argon2id_parse_grammar:
  "parseArgon2idHash e = Inr r \<longleftrightarrow>
     (\<exists>v m t p s k.
        e = ''$argon2id$v='' @ v @ ''$m='' @ m @ '',t='' @ t @ '',p='' @ p @ ''$'' @ s @ ''$'' @ k
      \<and> ParseUint v = Inr argon2_Version
      \<and> ParseUint m = Inr (unat (Memory (p_options r)))
      \<and> ParseUint t = Inr (unat (Iterations (p_options r)))
      \<and> ParseUint p = Inr (unat (Parallelism (p_options r)))
      \<and> DecodeString s = Some (p_salt r) \<and> DecodeString k = Some (p_key r))
     \<and> SaltLength (p_options r) = of_nat (length (p_salt r)) \<and> KeyLength (p_options r) = of_nat (length (p_key r))
     \<and> options_ok (p_options r)" (is "?l \<longleftrightarrow> (\<exists>v m t p s k. ?parts v m t p s k) \<and> ?lens")
proof
  assume l: ?l
  obtain v ps s k opts where e: "e = Join [[], ''argon2id'', ''v='' @ v, ps, s, k] ''$''"
    and v: "ParseUint v = Inr argon2_Version" and ps: "parseArgon2idParameters ps = Inr opts"
    and opts: "Memory opts = Memory (p_options r)" "Iterations opts = Iterations (p_options r)"
      "Parallelism opts = Parallelism (p_options r)"
    and sk: "DecodeString s = Some (p_salt r)" "DecodeString k = Some (p_key r)"
    using parseArgon2idHash_InrD(4) [OF l] by blast
  from ps obtain m t p where ps': "ps = Join [''m='' @ m, ''t='' @ t, ''p='' @ p] '',''"
    and nums: "ParseUint m = Inr (unat (Memory opts))" "ParseUint t = Inr (unat (Iterations opts))"
      "ParseUint p = Inr (unat (Parallelism opts))"
    by (rule parseArgon2idParameters_InrD)
  have "e = ''$argon2id$v='' @ v @ ''$m='' @ m @ '',t='' @ t @ '',p='' @ p @ ''$'' @ s @ ''$'' @ k"
    by (simp only: e ps' Join.simps append.simps append_assoc)
  with v nums [unfolded opts] sk have "?parts v m t p s k" by blast
  with parseArgon2idHash_InrD(1-3) [OF l] show "(\<exists>v m t p s k. ?parts v m t p s k) \<and> ?lens" by blast
next
  assume r: "(\<exists>v m t p s k. ?parts v m t p s k) \<and> ?lens"
  then obtain v m t p s k where parts: "?parts v m t p s k" by blast
  then have "e = Join [[], ''argon2id'', ''v='' @ v, Join [''m='' @ m, ''t='' @ t, ''p='' @ p] '','', s, k] ''$''" by simp
  with parse_parts [of v m "p_options r" t p s "p_salt r" k "p_key r"] parts r show ?l by simp
qed

text \<open>Construction: options are accepted exactly when, after the defaults, they satisfy the
  documented integer bounds (the 32-bit product of lanes and 8 never wraps), the zero options are
  accepted, and defaults never touch a field the caller set.\<close>

theorem argon2id_new_iff:
  "(\<exists>h. NewArgon2idHasher opts = Inr h) = options_ok (argon2idDefaults opts)
   \<and> (\<exists>h. NewArgon2idHasher zero_options = Inr h)
   \<and> Memory (argon2idDefaults opts) = (if Memory opts = 0 then 65536 else Memory opts)
   \<and> Iterations (argon2idDefaults opts) = (if Iterations opts = 0 then 3 else Iterations opts)
   \<and> Parallelism (argon2idDefaults opts) = (if Parallelism opts = 0 then 2 else Parallelism opts)
   \<and> SaltLength (argon2idDefaults opts) = (if SaltLength opts = 0 then 16 else SaltLength opts)
   \<and> KeyLength (argon2idDefaults opts) = (if KeyLength opts = 0 then 32 else KeyLength opts)"
  using zero_defaults_ok
  by (simp add: NewArgon2idHasher_Inr argon2idDefaults_def Let_def argon_consts)

text \<open>C4. Given the documented behaviour of the bcrypt library, the bcrypt hasher implements the
  interface: for hashers of any valid cost, a hash verifies for its password, and on a hash of the
  package's own making every password that the library does not match is answered false without an
  error. On any string whatever, \<^verbatim>\<open>Verify\<close> answers true exactly if the library finds no error, false
  exactly if it finds a mismatch, and every other library error is an error that wraps it; \<^verbatim>\<open>Hash\<close>
  returns the library's hash at the hasher's cost or wraps its error.\<close>

theorem bcrypt_implements_hasher:
  assumes "bcrypt_lib generate compare"
  shows "password_hasher (Bcrypt_Hash generate) (Bcrypt_Verify compare) (\<lambda>h. h \<noteq> None) (\<lambda>q e. compare e q = None)
    \<and> (Bcrypt_Hash generate (Some h) r p = Inr e \<longrightarrow>
         Bcrypt_Verify compare (Some h') p e = Inr True
       \<and> (\<forall>q. compare e q \<noteq> None \<longrightarrow> Bcrypt_Verify compare (Some h') q e = Inr False))
    \<and> Bcrypt_Verify compare (Some h') q x =
        (case compare x q of
           None \<Rightarrow> Inr True
         | Some MismatchedHashAndPassword \<Rightarrow> Inr False
         | Some (OtherBcrypt m) \<Rightarrow> Inl (Wrap ''authx: bcrypt verify'' (Ext (OtherBcrypt m))))
    \<and> Bcrypt_Hash generate (Some h) r p =
        (case generate p (cost h) r of
           Inl b \<Rightarrow> Inl (Wrap ''authx: bcrypt hash'' (Ext b))
         | Inr hash \<Rightarrow> Inr hash)"
proof (intro conjI impI)
  have hasher: "password_hasher (Bcrypt_Hash generate) (Bcrypt_Verify compare) (\<lambda>h. h \<noteq> None) (\<lambda>q e. compare e q = None)"
    using assms by (rule bcrypt_hasher)
  then show "password_hasher (Bcrypt_Hash generate) (Bcrypt_Verify compare) (\<lambda>h. h \<noteq> None) (\<lambda>q e. compare e q = None)" .
  assume e: "Bcrypt_Hash generate (Some h) r p = Inr e"
  show "Bcrypt_Verify compare (Some h') p e = Inr True"
    using password_hasher.verify_hash [OF hasher _ _ e] by simp
  show "\<forall>q. compare e q \<noteq> None \<longrightarrow> Bcrypt_Verify compare (Some h') q e = Inr False"
    using password_hasher.verify_mismatch [OF hasher _ _ e] by simp
qed (simp_all add: Bcrypt_Verify_cases Bcrypt_Hash_def)

definition demo_generate :: "unit generate" where
  "demo_generate p c r = (if length p > 72 then Inl (OtherBcrypt ''password too long'') else Inr (''$2a$'' @ p))"

definition demo_compare :: compare where
  "demo_compare h p =
     (if length h < 4 then Some (OtherBcrypt ''hashedSecret too short'')
      else if h = ''$2a$'' @ p then None else Some MismatchedHashAndPassword)"

theorem bcrypt_implements_hasher_witness:
  "bcrypt_lib demo_generate demo_compare
   \<and> Bcrypt_Verify demo_compare (Some \<lparr>cost = 12\<rparr>) ''secret'' ''$2a$secret'' = Inr True
   \<and> Bcrypt_Verify demo_compare (Some \<lparr>cost = 12\<rparr>) ''guess'' ''$2a$secret'' = Inr False
   \<and> Bcrypt_Verify demo_compare (Some \<lparr>cost = 12\<rparr>) ''secret'' ''?'' =
       Inl (Wrap ''authx: bcrypt verify'' (Ext (OtherBcrypt ''hashedSecret too short'')))"
proof -
  have lib: "bcrypt_lib demo_generate demo_compare"
    by (auto simp: bcrypt_lib_def demo_generate_def demo_compare_def split: if_splits)
  have hash: "Bcrypt_Hash demo_generate (Some \<lparr>cost = 10\<rparr>) () ''secret'' = Inr ''$2a$secret''"
    by (simp add: Bcrypt_Hash_def demo_generate_def)
  note spec = bcrypt_implements_hasher [OF lib, of "\<lparr>cost = 10\<rparr>" "()" "''secret''" "''$2a$secret''" "\<lparr>cost = 12\<rparr>" "''secret''" "''?''"]
  have "demo_compare ''$2a$secret'' ''guess'' \<noteq> None" "demo_compare ''?'' ''secret'' = Some (OtherBcrypt ''hashedSecret too short'')"
    by (simp_all add: demo_compare_def)
  with spec hash lib show ?thesis by simp
qed

text \<open>\<^verbatim>\<open>CheckPassword\<close> returns nil exactly when the library finds no error, and the errors
  it returns keep the distinction: the bare mismatch error for a mismatch, a wrapped error
  otherwise; a fresh \<^verbatim>\<open>HashPassword\<close> result checks, given the documented library behaviour.\<close>

theorem CheckPassword_cases:
  "CheckPassword compare hash p =
     (case compare hash p of
        None \<Rightarrow> None
      | Some MismatchedHashAndPassword \<Rightarrow> Some (Ext MismatchedHashAndPassword)
      | Some (OtherBcrypt m) \<Rightarrow> Some (Wrap ''authx: bcrypt verify'' (Ext (OtherBcrypt m))))
   \<and> HashPassword generate r p = Bcrypt_Hash generate (Some \<lparr>cost = 10\<rparr>) r p"
  by (simp add: CheckPassword_def HashPassword_def Bcrypt_Verify_def bcrypt_DefaultCost_def
           split: option.split bcrypt_error.split)

end
