(* ===== verification/Authx_Http.thy ===== *)
theory Authx_Http
  imports Go_Http
begin

text \<open>
  \<^verbatim>\<open>authx/authx.go\<close>: bearer tokens, JWTs, identity in the request context, and the two
  authorization middlewares. The JWT library is not in the repository: \<open>parse\<close> is its
  \<^verbatim>\<open>ParseWithClaims\<close>, which is given the key function and the accepted method names, and \<open>jwt_lib\<close>
  is what its documentation promises about a token it accepts.
\<close>

section \<open>Tokens\<close>

definition BearerToken :: "request \<Rightarrow> unit goerr + string" where
  "BearerToken r =
     (let parts = Fields (Header_Get (r_header r) ''Authorization'')
      in if length parts \<noteq> 2 \<or> \<not> EqualFold (parts ! 0) ''Bearer'' \<or> parts ! 1 = []
         then Inl (New ''missing or malformed bearer token'')
         else Inr (parts ! 1))"

datatype signing_method = HS256 | OtherMethod string

definition Alg :: "signing_method \<Rightarrow> string" where
  "Alg m = (case m of HS256 \<Rightarrow> ''HS256'' | OtherMethod n \<Rightarrow> n)"

record 'c Claims =
  UserID_claim :: string
  Roles_claim :: "string list"
  RegisteredClaims :: 'c

datatype jwt_error = Missing | Invalid string | Joined "jwt_error list"

text \<open>The library's answer: the claims it filled in, whether the token is valid, its error.\<close>

type_synonym 'c jwt_answer = "'c Claims \<times> bool \<times> jwt_error option"

type_synonym 'c jwt_parse =
  "string \<Rightarrow> (signing_method \<Rightarrow> jwt_error + bytes) \<Rightarrow> string list \<Rightarrow> 'c jwt_answer"

definition SignJWT ::
  "(signing_method \<Rightarrow> 'c Claims \<Rightarrow> bytes \<Rightarrow> jwt_error + string) \<Rightarrow> 'c Claims \<Rightarrow> bytes \<Rightarrow> jwt_error + string" where
  "SignJWT sign claims secret = sign HS256 claims secret"

definition key_func :: "bytes \<Rightarrow> signing_method \<Rightarrow> jwt_error + bytes" where
  "key_func secret m = (if m \<noteq> HS256 then Inl (Invalid ''unexpected JWT signing method'') else Inr secret)"

definition ParseJWT :: "'c jwt_parse \<Rightarrow> string \<Rightarrow> bytes \<Rightarrow> jwt_error + 'c Claims" where
  "ParseJWT parse token secret =
     (let (claims, valid, err) = parse token (key_func secret) [Alg HS256]
      in if err \<noteq> None \<or> \<not> valid
         then Inl (Joined (Invalid ''invalid JWT'' # (case err of None \<Rightarrow> [] | Some e \<Rightarrow> [e])))
         else Inr claims)"

section \<open>Identity in the context\<close>

definition WithUserID :: "ctxvals \<Rightarrow> string \<Rightarrow> ctxvals" where
  "WithUserID c userID = c\<lparr>cv_user := Some userID\<rparr>"

definition UserID :: "ctxvals \<Rightarrow> string \<times> bool" where
  "UserID c = (case cv_user c of None \<Rightarrow> ([], False) | Some u \<Rightarrow> (u, True))"

definition WithRoles :: "ctxvals \<Rightarrow> string list \<Rightarrow> ctxvals" where
  "WithRoles c roles = c\<lparr>cv_roles := Some ([] @ roles)\<rparr>"

definition Roles :: "ctxvals \<Rightarrow> string list" where
  "Roles c = [] @ (case cv_roles c of None \<Rightarrow> [] | Some rs \<Rightarrow> rs)"

section \<open>Middleware\<close>

definition writeAuthError :: "int \<Rightarrow> string \<Rightarrow> rw \<Rightarrow> outcome" where
  "writeAuthError code message w =
     (let w = set_header ''Content-Type'' ''application/json; charset=utf-8'' w
      in and_then (WriteHeader code w)
           (\<lambda>w. Returned (Write (''{\"error\":{\"message\":\"'' @ message @ ''\"}}'') w)))"

definition RequireAuth :: "(request \<Rightarrow> string \<times> string list \<times> 'e option) \<Rightarrow> handler \<Rightarrow> handler" where
  "RequireAuth parse next r w =
     (let (userID, roles, err) = parse r
      in if err \<noteq> None \<or> userID = [] then writeAuthError 401 ''unauthorized'' w
         else (let ctx = WithRoles (WithUserID (r_ctx r) userID) roles
               in next (r\<lparr>r_ctx := ctx\<rparr>) w))"

fun role_loop :: "string \<Rightarrow> string list \<Rightarrow> bool" where
  "role_loop role [] = False"
| "role_loop role (candidate # cs) = (if candidate = role then True else role_loop role cs)"

definition RequireRole :: "string \<Rightarrow> handler \<Rightarrow> handler" where
  "RequireRole role next r w =
     (if role_loop role (Roles (r_ctx r)) then next r w else writeAuthError 403 ''forbidden'' w)"

lemma role_loop_iff [simp]: "role_loop role rs \<longleftrightarrow> role \<in> set rs"
  by (induction rs) auto

lemma Roles_WithRoles [simp]: "Roles (WithRoles c rs) = rs"
  by (simp add: Roles_def WithRoles_def)

lemma UserID_WithRoles [simp]: "UserID (WithRoles (WithUserID c u) rs) = (u, True)"
  by (simp add: UserID_def WithRoles_def WithUserID_def)

lemma writeAuthError_status:
  "\<lbrakk>w_status w = None; 400 \<le> code; code \<le> 999\<rbrakk> \<Longrightarrow>
   \<exists>w'. writeAuthError code m w = Returned w' \<and> w_status w' = Some code
      \<and> w_body w' = w_body w @ ''{\"error\":{\"message\":\"'' @ m @ ''\"}}''"
  by (simp add: writeAuthError_def WriteHeader_final Write_def body_allowed_def)

section \<open>Properties\<close>

text \<open>Authorization: behind both middlewares a handler runs only for a request that the parser
  authenticated with a non-empty user and that has the required role, and it then sees exactly that
  identity; any other request gets 401 or 403 and its outcome does not depend on the handler.\<close>

theorem require_auth_role:
  assumes "parse r = (u, rs, err)" "w_status w = None"
  shows "if err = None \<and> u \<noteq> [] \<and> role \<in> set rs
         then (\<exists>c. RequireAuth parse (RequireRole role nxt) r w = nxt (r\<lparr>r_ctx := c\<rparr>) w
                \<and> UserID c = (u, True) \<and> Roles c = rs \<and> cv_request_id c = cv_request_id (r_ctx r))
         else (\<exists>w'. (\<forall>nxt'. RequireAuth parse (RequireRole role nxt') r w = Returned w')
                \<and> w_status w' = Some (if err \<noteq> None \<or> u = [] then 401 else 403))"
proof -
  have frame: "cv_request_id (WithRoles (WithUserID c u) rs) = cv_request_id c" for c
    by (simp add: WithRoles_def WithUserID_def)
  show ?thesis
  proof (cases "err = None \<and> u \<noteq> []")
    case True
    with assms writeAuthError_status [OF assms(2), of 403 "''forbidden''"] frame show ?thesis
      by (auto simp: RequireAuth_def RequireRole_def Let_def)
  next
    case False
    with assms writeAuthError_status [OF assms(2), of 401 "''unauthorized''"] show ?thesis
      by (auto simp: RequireAuth_def Let_def)
  qed
qed

definition demo_req :: request where
  "demo_req = \<lparr>r_method = ''GET'', r_path = ''/'', r_query = (\<lambda>_. []), r_header = (\<lambda>_. []),
     r_ctx = \<lparr>cv_user = None, cv_roles = None, cv_request_id = None\<rparr>\<rparr>"

theorem require_auth_role_witness:
  "\<exists>w'. RequireAuth (\<lambda>_. (''user-1'', [''viewer''], None :: unit option)) (RequireRole ''admin'' (\<lambda>r w. Panicked ''ran'' w))
      demo_req new_rw = Returned w' \<and> w_status w' = Some 403"
  using require_auth_role [of "\<lambda>_. (''user-1'', [''viewer''], None :: unit option)" demo_req "''user-1''"
      "[''viewer'']" None new_rw "''admin''" "\<lambda>r w. Returned w"]
  by (auto simp: new_rw_def)

text \<open>Bearer tokens: the header made of any capitalisation of \<^verbatim>\<open>Bearer\<close>, a space and a token of
  visible ASCII characters yields the token, and whatever header is accepted consists of two words
  of which the first is \<^verbatim>\<open>Bearer\<close> and the second the non-empty result.\<close>

theorem bearer_token:
  "(\<exists>scheme. Fields (Header_Get (r_header r) ''Authorization'') = [scheme, tok] \<and> EqualFold scheme ''Bearer'' \<and> tok \<noteq> [])
     = (BearerToken r = Inr tok)
   \<and> (\<forall>s t. Header_Get (r_header r) ''Authorization'' = s @ '' '' @ t \<and> EqualFold s ''Bearer''
        \<and> list_all graphic s \<and> list_all graphic t \<and> t \<noteq> [] \<longrightarrow> BearerToken r = Inr t)"
proof (intro conjI allI impI)
  let ?fs = "Fields (Header_Get (r_header r) ''Authorization'')"
  show main: "(\<exists>scheme. ?fs = [scheme, tok] \<and> EqualFold scheme ''Bearer'' \<and> tok \<noteq> []) = (BearerToken r = Inr tok)"
    for tok
    by (auto simp: BearerToken_def Let_def length_Suc_conv numeral_2_eq_2 split: if_splits)
  fix s t
  assume a: "Header_Get (r_header r) ''Authorization'' = s @ '' '' @ t \<and> EqualFold s ''Bearer''
        \<and> list_all graphic s \<and> list_all graphic t \<and> t \<noteq> []"
  then have "s \<noteq> []" by (auto simp: EqualFold_def)
  with a have "?fs = [s, t]" by (auto simp: list_all_iff intro!: Fields_two)
  with a show "BearerToken r = Inr t" by (auto simp flip: main)
qed

theorem bearer_token_witness:
  "BearerToken (demo_req\<lparr>r_header := (\<lambda>_. [''bEaReR abc''])\<rparr>) = Inr ''abc''"
proof -
  have "Header_Get (r_header (demo_req\<lparr>r_header := (\<lambda>_. [''bEaReR abc''])\<rparr>)) ''Authorization'' = ''bEaReR'' @ '' '' @ ''abc''"
    by (simp add: Header_Get_def)
  moreover have "EqualFold ''bEaReR'' ''Bearer''" "list_all graphic ''bEaReR''" "list_all graphic ''abc''"
    by code_simp+
  ultimately show ?thesis
    using bearer_token [of "demo_req\<lparr>r_header := (\<lambda>_. [''bEaReR abc''])\<rparr>"] by blast
qed

text \<open>What the library promises about an accepted token: its signature was checked with the key the
  key function gave for the token's own method, and that method is among the accepted names.\<close>

definition jwt_lib ::
  "(string \<Rightarrow> signing_method) \<Rightarrow> (signing_method \<Rightarrow> bytes \<Rightarrow> string \<Rightarrow> bool) \<Rightarrow> 'c jwt_parse \<Rightarrow> bool" where
  "jwt_lib method sig_ok parse \<longleftrightarrow>
     (\<forall>token kf names c. parse token kf names = (c, True, None) \<longrightarrow>
        Alg (method token) \<in> set names \<and> (\<exists>key. kf (method token) = Inr key \<and> sig_ok (method token) key token))"

text \<open>C36. No algorithm confusion: a token is accepted only if it names HMAC SHA-256 as its own method
  and its signature verifies under that method with the caller's secret; every rejection carries the
  package's error and the library's.\<close>

theorem parse_jwt_hs256_only:
  assumes "jwt_lib method sig_ok parse"
  shows "(ParseJWT parse token secret = Inr claims \<longrightarrow> method token = HS256 \<and> sig_ok HS256 secret token)
    \<and> (ParseJWT parse token secret = Inl x \<longrightarrow>
         x = Joined (Invalid ''invalid JWT'' # (case snd (snd (parse token (key_func secret) [Alg HS256])) of None \<Rightarrow> [] | Some e \<Rightarrow> [e])))"
proof (intro conjI impI)
  obtain c v e where p: "parse token (key_func secret) [Alg HS256] = (c, v, e)" by (cases rule: prod_cases3)
  {
    assume "ParseJWT parse token secret = Inr claims"
    with p have "v = True" "e = None" by (auto simp: ParseJWT_def split: if_splits)
    with p assms have "\<exists>key. key_func secret (method token) = Inr key \<and> sig_ok (method token) key token"
      unfolding jwt_lib_def by metis
    then show "method token = HS256" "sig_ok HS256 secret token" by (auto simp: key_func_def split: if_splits)
  }
  assume "ParseJWT parse token secret = Inl x"
  with p show "x = Joined (Invalid ''invalid JWT'' # (case snd (snd (parse token (key_func secret) [Alg HS256])) of None \<Rightarrow> [] | Some e \<Rightarrow> [e]))"
    by (auto simp: ParseJWT_def split: if_splits)
qed

definition demo_parse :: "unit jwt_parse" where
  "demo_parse token kf names =
     (let m = (if take 2 token = ''hs'' then HS256 else OtherMethod ''none'')
      in (\<lparr>UserID_claim = drop 2 token, Roles_claim = [], RegisteredClaims = ()\<rparr>,
          Alg m \<in> set names \<and> kf m = Inr [1], if Alg m \<in> set names \<and> kf m = Inr [1] then None else Some Missing))"

theorem parse_jwt_hs256_only_witness:
  "\<exists>c. ParseJWT demo_parse ''hsbob'' [1] = Inr c \<and> (\<lambda>t. if take 2 t = ''hs'' then HS256 else OtherMethod ''none'') ''hsbob'' = HS256"
proof -
  let ?m = "\<lambda>t :: string. if take 2 t = ''hs'' then HS256 else OtherMethod ''none''"
  have lib: "jwt_lib ?m (\<lambda>m key t. key = [1]) demo_parse"
    by (auto simp: jwt_lib_def demo_parse_def Let_def split: if_splits)
  obtain c where c: "ParseJWT demo_parse ''hsbob'' [1] = Inr c"
    by (simp add: ParseJWT_def demo_parse_def key_func_def)
  from parse_jwt_hs256_only [OF lib, THEN conjunct1, THEN mp, OF c] c show ?thesis by simp
qed

end
