(* ===== verification/Cachex.thy ===== *)
theory Cachex
  imports Gox_Prelude
begin

text \<open>
  Package \<^verbatim>\<open>cachex\<close>: the \<^verbatim>\<open>Cache\<close> interface as the locale \<open>cache\<close>, the in-memory cache
  (\<^verbatim>\<open>memory.go\<close>, \<^verbatim>\<open>testing.go\<close>) and the JSON helpers (\<^verbatim>\<open>encoding.go\<close>), which are clients of the
  interface. The Redis adapter is in theory \<open>Cachex_Redis\<close>.

  An operation takes the reading \<open>now\<close> of the clock and the state, and returns its result
  and the new state. \<open>view t s k\<close>, the abstraction, is what the cache holds under \<open>k\<close> for a
  reader at time \<open>t\<close>. Bytes are values here; that the code copies them wherever a caller could
  keep a reference is the subject of theory \<open>Cachex_Alias\<close>.
\<close>

text \<open>The errors of code outside the package: JSON coding, and the Redis client.\<close>

datatype cache_cause = JSONError string | RedisNil | RedisOther string

type_synonym cache_error = "cache_cause goerr"

definition ErrMiss :: cache_error where
  "ErrMiss = Sentinel ''cachex: cache miss''"

section \<open>The interface\<close>

text \<open>What a \<^verbatim>\<open>Set\<close> at time \<open>now\<close> leaves for a reader at time \<open>t\<close>: nothing for a negative TTL,
  the value for ever for TTL zero, the value until it expires otherwise.\<close>

definition stored :: "time \<Rightarrow> duration \<Rightarrow> bytes \<Rightarrow> time \<Rightarrow> bytes option" where
  "stored now ttl v t =
     (if ttl < 0 then None else if ttl = 0 \<or> t < now + ttl then Some v else None)"

locale cache =
  fixes Get :: "time \<Rightarrow> ctx \<Rightarrow> string \<Rightarrow> 's \<Rightarrow> (cache_error + bytes) \<times> 's"
    and Set :: "time \<Rightarrow> ctx \<Rightarrow> string \<Rightarrow> bytes \<Rightarrow> duration \<Rightarrow> 's \<Rightarrow> cache_error option \<times> 's"
    and Delete :: "time \<Rightarrow> ctx \<Rightarrow> string \<Rightarrow> 's \<Rightarrow> cache_error option \<times> 's"
    and view :: "time \<Rightarrow> 's \<Rightarrow> string \<Rightarrow> bytes option"
    and ttl_ok :: "duration \<Rightarrow> bool"
  assumes get_result:
      "k \<noteq> [] \<Longrightarrow> fst (Get now Background k s) =
         (case view now s k of None \<Rightarrow> Inl ErrMiss | Some v \<Rightarrow> Inr v)"
    and get_keeps: "now \<le> t \<Longrightarrow> view t (snd (Get now Background k s)) = view t s"
    and set_ok: "\<lbrakk>k \<noteq> []; ttl_ok ttl\<rbrakk> \<Longrightarrow> fst (Set now Background k v ttl s) = None"
    and set_view: "\<lbrakk>k \<noteq> []; ttl_ok ttl; 0 < now; now \<le> t\<rbrakk> \<Longrightarrow>
         view t (snd (Set now Background k v ttl s)) = (view t s)(k := stored now ttl v t)"
    and delete_ok: "k \<noteq> [] \<Longrightarrow> fst (Delete now Background k s) = None"
    and delete_view: "\<lbrakk>k \<noteq> []; now \<le> t\<rbrakk> \<Longrightarrow>
         view t (snd (Delete now Background k s)) = (view t s)(k := None)"

section \<open>Memory\<close>

record entry =
  "value" :: bytes
  expiresAt :: time

record Memory =
  entries :: "string \<rightharpoonup> entry"

definition NewMemory :: Memory where
  "NewMemory = \<lparr>entries = Map.empty\<rparr>"

text \<open>The second critical section of \<^verbatim>\<open>Get\<close>: an expired item is removed unless another one, with
  another expiry, has taken its place.\<close>

definition evict :: "string \<Rightarrow> entry \<Rightarrow> Memory \<Rightarrow> Memory" where
  "evict key item c =
     (case entries c key of
        Some current \<Rightarrow>
          if expiresAt current = expiresAt item
          then c\<lparr>entries := (entries c)(key := None)\<rparr> else c
      | None \<Rightarrow> c)"

definition Memory_Get :: "time \<Rightarrow> ctx \<Rightarrow> string \<Rightarrow> Memory \<Rightarrow> (cache_error + bytes) \<times> Memory" where
  "Memory_Get now ctx key c =
     (case ctx 0 of
        Some e \<Rightarrow> (Inl (CtxErr e), c)
      | None \<Rightarrow>
          (case entries c key of
             None \<Rightarrow> (Inl ErrMiss, c)
           | Some item \<Rightarrow>
               if \<not> IsZero (expiresAt item) \<and> \<not> now < expiresAt item then
                 (Inl ErrMiss, evict key item c)
               else (Inr (value item), c)))"

definition Memory_Delete :: "time \<Rightarrow> ctx \<Rightarrow> string \<Rightarrow> Memory \<Rightarrow> cache_error option \<times> Memory" where
  "Memory_Delete now ctx key c =
     (case ctx 0 of
        Some e \<Rightarrow> (Some (CtxErr e), c)
      | None \<Rightarrow>
          if key = [] then (Some (New ''cachex: key is empty''), c)
          else (None, c\<lparr>entries := (entries c)(key := None)\<rparr>))"

definition Memory_Set ::
  "time \<Rightarrow> ctx \<Rightarrow> string \<Rightarrow> bytes \<Rightarrow> duration \<Rightarrow> Memory \<Rightarrow> cache_error option \<times> Memory" where
  "Memory_Set now ctx key v ttl c =
     (case ctx 0 of
        Some e \<Rightarrow> (Some (CtxErr e), c)
      | None \<Rightarrow>
          if key = [] then (Some (New ''cachex: key is empty''), c)
          else if ttl < 0 then Memory_Delete now (ctx_from 1 ctx) key c
          else
            (let item = \<lparr>value = v, expiresAt = 0\<rparr>;
                 item = (if 0 < ttl then item\<lparr>expiresAt := now + ttl\<rparr> else item)
             in (None, c\<lparr>entries := (entries c)(key \<mapsto> item)\<rparr>)))"

text \<open>\<^verbatim>\<open>Fake\<close> embeds a \<^verbatim>\<open>*Memory\<close> and inherits its methods.\<close>

record Fake =
  Fake_Memory :: Memory

definition NewFake :: Fake where
  "NewFake = \<lparr>Fake_Memory = NewMemory\<rparr>"

text \<open>What a reader at time \<open>t\<close> finds.\<close>

definition live :: "time \<Rightarrow> entry \<Rightarrow> bool" where
  "live t e \<longleftrightarrow> IsZero (expiresAt e) \<or> t < expiresAt e"

definition memory_view :: "time \<Rightarrow> Memory \<Rightarrow> string \<Rightarrow> bytes option" where
  "memory_view t c k =
     (case entries c k of None \<Rightarrow> None | Some e \<Rightarrow> if live t e then Some (value e) else None)"

lemma live_later: "live t e \<Longrightarrow> s \<le> t \<Longrightarrow> live s e"
  by (auto simp: live_def)

lemma memory_view_New [simp]: "memory_view t NewMemory k = None"
  by (simp add: memory_view_def NewMemory_def)

lemma memory_view_update [simp]:
  "memory_view t (c\<lparr>entries := (entries c)(k \<mapsto> e)\<rparr>) =
   (memory_view t c)(k := (if live t e then Some (value e) else None))"
  "memory_view t (c\<lparr>entries := (entries c)(k := None)\<rparr>) = (memory_view t c)(k := None)"
  by (auto simp: memory_view_def)

lemma memory_view_remove_dead:
  "\<lbrakk>entries c k = Some e; \<not> live t e\<rbrakk> \<Longrightarrow>
   memory_view t (c\<lparr>entries := (entries c)(k := None)\<rparr>) = memory_view t c"
  by (auto simp: memory_view_def)

lemma Memory_Get_cases:
  "Memory_Get now ctx key c =
     (case ctx 0 of
        Some e \<Rightarrow> (Inl (CtxErr e), c)
      | None \<Rightarrow>
          (case entries c key of
             None \<Rightarrow> (Inl ErrMiss, c)
           | Some e \<Rightarrow> if live now e then (Inr (value e), c)
                       else (Inl ErrMiss, c\<lparr>entries := (entries c)(key := None)\<rparr>)))"
  by (auto simp: Memory_Get_def evict_def live_def split: option.splits)

lemma Memory_Get_keeps: "now \<le> t \<Longrightarrow> memory_view t (snd (Memory_Get now ctx k s)) = memory_view t s"
proof (cases "ctx 0 = None \<and> (\<exists>e. entries s k = Some e \<and> \<not> live now e)")
  case True
  then obtain e where e: "ctx 0 = None" "entries s k = Some e" "\<not> live now e" by blast
  moreover assume "now \<le> t"
  ultimately have "\<not> live t e" using live_later by blast
  with e show ?thesis by (simp add: Memory_Get_cases memory_view_remove_dead del: memory_view_update)
qed (auto simp: Memory_Get_cases split: option.splits)

interpretation memory: cache Memory_Get Memory_Set Memory_Delete memory_view "\<lambda>_. True"
proof
  fix k :: string and now t :: time and s :: Memory and v :: bytes and ttl :: duration
  show "fst (Memory_Get now Background k s) =
      (case memory_view now s k of None \<Rightarrow> Inl ErrMiss | Some v \<Rightarrow> Inr v)"
    by (simp add: Memory_Get_cases memory_view_def split: option.split)
  show "now \<le> t \<Longrightarrow> memory_view t (snd (Memory_Get now Background k s)) = memory_view t s"
    by (rule Memory_Get_keeps)
  assume k: "k \<noteq> []"
  then show "fst (Memory_Set now Background k v ttl s) = None"
    and "fst (Memory_Delete now Background k s) = None"
    and "memory_view t (snd (Memory_Delete now Background k s)) = (memory_view t s)(k := None)"
    by (simp_all add: Memory_Set_def Memory_Delete_def Let_def)
  show "0 < now \<Longrightarrow> memory_view t (snd (Memory_Set now Background k v ttl s)) =
      (memory_view t s)(k := stored now ttl v t)"
    using k by (auto simp: Memory_Set_def Memory_Delete_def Let_def stored_def live_def IsZero_def)
qed

section \<open>JSON helpers\<close>

text \<open>Clients of any cache: \<open>marshal\<close> and \<open>unmarshal\<close> are \<^verbatim>\<open>encoding/json\<close> at the type in hand.\<close>

definition SetJSON ::
  "(time \<Rightarrow> ctx \<Rightarrow> string \<Rightarrow> bytes \<Rightarrow> duration \<Rightarrow> 's \<Rightarrow> cache_error option \<times> 's) \<Rightarrow> ('v \<Rightarrow> cache_cause + bytes)
   \<Rightarrow> time \<Rightarrow> ctx \<Rightarrow> string \<Rightarrow> 'v \<Rightarrow> duration \<Rightarrow> 's \<Rightarrow> cache_error option \<times> 's" where
  "SetJSON Set marshal now ctx key v ttl s =
     (case marshal v of
        Inl e \<Rightarrow> (Some (Wrap ''cachex: encode JSON'' (Ext e)), s)
      | Inr data \<Rightarrow>
          (case Set now ctx key data ttl s of
             (Some e, s') \<Rightarrow> (Some (Wrap (''cachex: set JSON '' @ key) e), s')
           | (None, s') \<Rightarrow> (None, s')))"

definition GetJSON ::
  "(time \<Rightarrow> ctx \<Rightarrow> string \<Rightarrow> 's \<Rightarrow> (cache_error + bytes) \<times> 's) \<Rightarrow> (bytes \<Rightarrow> cache_cause + 'v)
   \<Rightarrow> time \<Rightarrow> ctx \<Rightarrow> string \<Rightarrow> 's \<Rightarrow> (cache_error + 'v) \<times> 's" where
  "GetJSON Get unmarshal now ctx key s =
     (case Get now ctx key s of
        (Inl e, s') \<Rightarrow> (Inl e, s')
      | (Inr data, s') \<Rightarrow>
          (case unmarshal data of
             Inl e \<Rightarrow> (Inl (Wrap (''cachex: decode JSON '' @ key) (Ext e)), s')
           | Inr v \<Rightarrow> (Inr v, s')))"

context cache
begin

lemma get_after_set:
  "\<lbrakk>k \<noteq> []; j \<noteq> []; ttl_ok ttl; 0 < now; now \<le> t\<rbrakk> \<Longrightarrow>
   fst (Get t Background j (snd (Set now Background k v ttl s))) =
     (case (if j = k then stored now ttl v t else view t s j) of
        None \<Rightarrow> Inl ErrMiss | Some w \<Rightarrow> Inr w)"
  by (simp add: get_result set_view)

lemma json_roundtrip:
  assumes "k \<noteq> []" "ttl_ok ttl" "0 < now" "now \<le> t" "ttl = 0 \<or> t < now + ttl" "0 \<le> ttl"
    and "marshal x = Inr data" "unmarshal data = Inr x"
  shows "\<exists>s'. SetJSON Set marshal now Background k x ttl s = (None, s') \<and>
              fst (GetJSON Get unmarshal t Background k s') = Inr x"
proof -
  obtain s' where s': "Set now Background k data ttl s = (None, s')"
    using set_ok [OF assms(1,2)] by (metis prod.collapse)
  have "fst (Get t Background k s') = Inr data"
    using get_after_set [OF assms(1,1-4), of data s] assms(5,6) s' by (simp add: stored_def)
  with s' assms(7,8) show ?thesis
    by (auto simp: SetJSON_def GetJSON_def split: prod.splits)
qed

lemma json_miss:
  assumes "k \<noteq> []" "view now s k = None"
  shows "fst (GetJSON Get unmarshal now Background k s) = Inl ErrMiss"
  using get_result [OF assms(1), of now s] assms(2)
  by (auto simp: GetJSON_def split: prod.splits)

end

section \<open>Properties\<close>

text \<open>Reading after writing: after a \<^verbatim>\<open>Set\<close> at time \<open>now\<close>, a \<^verbatim>\<open>Get\<close> at any later time finds the
  value until the TTL has passed (for ever with TTL zero, never with a negative one), and any
  other key reads as if the \<^verbatim>\<open>Set\<close> had not happened.\<close>

theorem memory_get_after_set:
  assumes "k \<noteq> []" "j \<noteq> []" "0 < now" "now \<le> t"
  shows "fst (Memory_Get t Background j (snd (Memory_Set now Background k v ttl s))) =
     (case (if j = k then stored now ttl v t else memory_view t s j) of
        None \<Rightarrow> Inl ErrMiss | Some w \<Rightarrow> Inr w)"
  using assms by (intro memory.get_after_set) simp_all

theorem memory_get_after_set_witness:
  "fst (Memory_Get 150 Background ''a'' (snd (Memory_Set 100 Background ''a'' [1, 2] 60 NewMemory))) = Inr [1, 2]
   \<and> fst (Memory_Get 160 Background ''a'' (snd (Memory_Set 100 Background ''a'' [1, 2] 60 NewMemory))) = Inl ErrMiss"
  using memory_get_after_set [of "''a''" "''a''" 100 150 "[1, 2]" 60 NewMemory]
        memory_get_after_set [of "''a''" "''a''" 100 160 "[1, 2]" 60 NewMemory]
  by (simp add: stored_def)

text \<open>Errors leave the cache alone: an operation that returns an error changes no entry (a
  \<^verbatim>\<open>Get\<close> that reports a miss may drop the dead entry it found, which no later reader could see),
  a cancelled context is reported as itself, and an empty key is refused.\<close>

theorem memory_errors_change_nothing:
  "(fst (Memory_Set now ctx k v ttl s) \<noteq> None \<longrightarrow> snd (Memory_Set now ctx k v ttl s) = s)
   \<and> (fst (Memory_Delete now ctx k s) \<noteq> None \<longrightarrow> snd (Memory_Delete now ctx k s) = s)
   \<and> (now \<le> t \<longrightarrow> memory_view t (snd (Memory_Get now ctx k s)) = memory_view t s)
   \<and> (ctx 0 = Some e \<longrightarrow>
        Memory_Set now ctx k v ttl s = (Some (CtxErr e), s) \<and>
        Memory_Delete now ctx k s = (Some (CtxErr e), s) \<and>
        Memory_Get now ctx k s = (Inl (CtxErr e), s))
   \<and> (ctx 0 = None \<longrightarrow>
        Memory_Set now ctx [] v ttl s = (Some (New ''cachex: key is empty''), s) \<and>
        Memory_Delete now ctx [] s = (Some (New ''cachex: key is empty''), s))"
  using Memory_Get_keeps [of now t ctx k s]
  by (auto simp: Memory_Set_def Memory_Delete_def Memory_Get_def Let_def split: option.splits if_splits)

theorem memory_errors_change_nothing_witness:
  "Memory_Set 5 (\<lambda>i. if i = 0 then None else Some Canceled) ''k'' [1] (-1)
     (snd (Memory_Set 1 Background ''k'' [7] 0 NewMemory)) =
   (Some (CtxErr Canceled), snd (Memory_Set 1 Background ''k'' [7] 0 NewMemory))"
proof -
  let ?s = "snd (Memory_Set 1 Background ''k'' [7] 0 NewMemory)"
  let ?ctx = "\<lambda>i :: nat. if i = 0 then None else Some Canceled"
  have err: "fst (Memory_Set 5 ?ctx ''k'' [1] (-1) ?s) = Some (CtxErr Canceled)"
    by (simp add: Memory_Set_def Memory_Delete_def)
  with memory_errors_change_nothing [of 5 ?ctx "''k''" "[1]" "-1" ?s 5 Canceled]
  have "snd (Memory_Set 5 ?ctx ''k'' [1] (-1) ?s) = ?s" by simp
  with err show ?thesis by (metis prod.collapse)
qed

text \<open>JSON through the cache: a value stored with \<^verbatim>\<open>SetJSON\<close> is returned by \<^verbatim>\<open>GetJSON\<close> while
  it lives, for every type whose JSON encoding decodes to the value encoded.\<close>

theorem memory_json_roundtrip:
  assumes "k \<noteq> []" "0 < now" "now \<le> t" "ttl = 0 \<or> t < now + ttl" "0 \<le> ttl"
    and "marshal x = Inr data" "unmarshal data = Inr x"
  shows "\<exists>s'. SetJSON Memory_Set marshal now Background k x ttl s = (None, s') \<and>
              fst (GetJSON Memory_Get unmarshal t Background k s') = Inr x"
  using memory.json_roundtrip [OF assms(1) TrueI assms(2-5), of marshal x data unmarshal s] assms(6,7)
  by simp

theorem memory_json_roundtrip_witness:
  "\<exists>s'. SetJSON Memory_Set (\<lambda>b. Inr (if b then [116] else [102])) 1 Background ''flag'' True 0 NewMemory = (None, s') \<and>
        fst (GetJSON Memory_Get (\<lambda>d. if d = [116] then Inr True else if d = [102] then Inr False else Inl (JSONError ''syntax''))
               9 Background ''flag'' s') = Inr True"
  by (rule memory_json_roundtrip [where data = "[116]"]) simp_all

end
