(* ===== verification/Cachex_Redis.thy ===== *)
theory Cachex_Redis
  imports Cachex
begin

text \<open>
  \<^verbatim>\<open>cachex/redis.go\<close>. The Redis client is not in the repository: it is a record of three
  operations on a server state, and \<open>redis_server\<close> is what its documentation promises. The
  adapter prefixes keys, maps the client's nil reply to \<^verbatim>\<open>ErrMiss\<close> and wraps other errors.
\<close>

record 's redis_client =
  rget :: "time \<Rightarrow> ctx \<Rightarrow> string \<Rightarrow> 's \<Rightarrow> (cache_cause + bytes) \<times> 's"
  rset :: "time \<Rightarrow> ctx \<Rightarrow> string \<Rightarrow> bytes \<Rightarrow> duration \<Rightarrow> 's \<Rightarrow> cache_cause option \<times> 's"
  rdel :: "time \<Rightarrow> ctx \<Rightarrow> string \<Rightarrow> 's \<Rightarrow> cache_cause option \<times> 's"

record RedisOptions =
  KeyPrefix :: string

record 's RedisCache =
  client :: "'s redis_client"
  prefix :: string

definition NewRedis :: "'s redis_client option \<Rightarrow> RedisOptions \<Rightarrow> cache_error + 's RedisCache" where
  "NewRedis cl opts =
     (case cl of
        None \<Rightarrow> Inl (New ''cachex/redis: client is required'')
      | Some cl \<Rightarrow> Inr \<lparr>client = cl, prefix = KeyPrefix opts\<rparr>)"

definition redis_key :: "'s RedisCache \<Rightarrow> string \<Rightarrow> string" where
  "redis_key c key = prefix c @ key"

definition Redis_Get ::
  "'s RedisCache \<Rightarrow> time \<Rightarrow> ctx \<Rightarrow> string \<Rightarrow> 's \<Rightarrow> (cache_error + bytes) \<times> 's" where
  "Redis_Get c now ctx key s =
     (if key = [] then (Inl (New ''cachex/redis: key is empty''), s)
      else (case rget (client c) now ctx (redis_key c key) s of
              (Inl e, s') \<Rightarrow>
                if errors_Is (Ext e) (Ext RedisNil) then (Inl ErrMiss, s')
                else (Inl (Wrap (''cachex/redis: get '' @ key) (Ext e)), s')
            | (Inr data, s') \<Rightarrow> (Inr data, s')))"

definition Redis_Delete ::
  "'s RedisCache \<Rightarrow> time \<Rightarrow> ctx \<Rightarrow> string \<Rightarrow> 's \<Rightarrow> cache_error option \<times> 's" where
  "Redis_Delete c now ctx key s =
     (if key = [] then (Some (New ''cachex/redis: key is empty''), s)
      else (case rdel (client c) now ctx (redis_key c key) s of
              (Some e, s') \<Rightarrow> (Some (Wrap (''cachex/redis: delete '' @ key) (Ext e)), s')
            | (None, s') \<Rightarrow> (None, s')))"

definition Redis_Set ::
  "'s RedisCache \<Rightarrow> time \<Rightarrow> ctx \<Rightarrow> string \<Rightarrow> bytes \<Rightarrow> duration \<Rightarrow> 's \<Rightarrow> cache_error option \<times> 's" where
  "Redis_Set c now ctx key v ttl s =
     (if key = [] then (Some (New ''cachex/redis: key is empty''), s)
      else if ttl < 0 then Redis_Delete c now ctx key s
      else (case rset (client c) now ctx (redis_key c key) v ttl s of
              (Some e, s') \<Rightarrow> (Some (Wrap (''cachex/redis: set '' @ key) (Ext e)), s')
            | (None, s') \<Rightarrow> (None, s')))"

section \<open>The client's documented behaviour\<close>

text \<open>A TTL the protocol expresses exactly: whole milliseconds.\<close>

definition redis_ttl :: "duration \<Rightarrow> bool" where
  "redis_ttl ttl \<longleftrightarrow> ttl mod 1000000 = 0"

text \<open>A reachable server under an uncancelled context: GET answers the live value or nil and
  changes nothing, SET and DEL succeed; DEL of a missing key is no error.\<close>

definition redis_server :: "'s redis_client \<Rightarrow> (time \<Rightarrow> 's \<Rightarrow> string \<Rightarrow> bytes option) \<Rightarrow> bool" where
  "redis_server cl sview \<longleftrightarrow>
     (\<forall>now t k v ttl s.
        rget cl now Background k s =
          ((case sview now s k of None \<Rightarrow> Inl RedisNil | Some v \<Rightarrow> Inr v), s)
      \<and> (0 \<le> ttl \<and> redis_ttl ttl \<longrightarrow>
           fst (rset cl now Background k v ttl s) = None
         \<and> (now \<le> t \<longrightarrow> sview t (snd (rset cl now Background k v ttl s)) =
                          (sview t s)(k := stored now ttl v t)))
      \<and> fst (rdel cl now Background k s) = None
      \<and> (now \<le> t \<longrightarrow> sview t (snd (rdel cl now Background k s)) = (sview t s)(k := None)))"

text \<open>What the adapter's user sees of the server.\<close>

definition redis_view :: "'s RedisCache \<Rightarrow> (time \<Rightarrow> 's \<Rightarrow> string \<Rightarrow> bytes option) \<Rightarrow> time \<Rightarrow> 's \<Rightarrow> string \<Rightarrow> bytes option" where
  "redis_view c sview t s k = sview t s (redis_key c k)"

lemma redis_key_inj [simp]: "redis_key c j = redis_key c k \<longleftrightarrow> j = k"
  by (simp add: redis_key_def)

lemma redis_view_upd:
  "sview t s' = (sview t s)(redis_key c k := x) \<Longrightarrow>
   redis_view c sview t s' = (redis_view c sview t s)(k := x)"
  by (auto simp: redis_view_def fun_eq_iff)

lemma redis_serverD:
  assumes "redis_server cl sview"
  shows "rget cl now Background k s = ((case sview now s k of None \<Rightarrow> Inl RedisNil | Some v \<Rightarrow> Inr v), s)"
    and "\<lbrakk>0 \<le> ttl; redis_ttl ttl\<rbrakk> \<Longrightarrow> fst (rset cl now Background k v ttl s) = None"
    and "\<lbrakk>0 \<le> ttl; redis_ttl ttl; now \<le> t\<rbrakk> \<Longrightarrow>
         sview t (snd (rset cl now Background k v ttl s)) = (sview t s)(k := stored now ttl v t)"
    and "fst (rdel cl now Background k s) = None"
    and "now \<le> t \<Longrightarrow> sview t (snd (rdel cl now Background k s)) = (sview t s)(k := None)"
  using assms unfolding redis_server_def by blast+

section \<open>Results of the adapter\<close>

lemma Redis_Get_result:
  assumes "redis_server (client c) sview" "k \<noteq> []"
  shows "Redis_Get c now Background k s =
    ((case redis_view c sview now s k of None \<Rightarrow> Inl ErrMiss | Some v \<Rightarrow> Inr v), s)"
  using assms(2)
  by (simp add: Redis_Get_def redis_serverD(1) [OF assms(1)] redis_view_def split: option.split)

lemma Redis_Get_empty [simp]: "snd (Redis_Get c now ctx [] s) = s"
  by (simp add: Redis_Get_def)

lemma Redis_Delete_result:
  assumes "k \<noteq> []" "fst (rdel (client c) now ctx (redis_key c k) s) = None"
  shows "Redis_Delete c now ctx k s = (None, snd (rdel (client c) now ctx (redis_key c k) s))"
  using assms by (auto simp: Redis_Delete_def split: prod.splits)

lemma Redis_Set_result:
  assumes "k \<noteq> []" "0 \<le> ttl" "fst (rset (client c) now ctx (redis_key c k) v ttl s) = None"
  shows "Redis_Set c now ctx k v ttl s = (None, snd (rset (client c) now ctx (redis_key c k) v ttl s))"
  using assms by (auto simp: Redis_Set_def split: prod.splits)

lemma Redis_Set_negative: "\<lbrakk>k \<noteq> []; ttl < 0\<rbrakk> \<Longrightarrow> Redis_Set c now ctx k v ttl s = Redis_Delete c now ctx k s"
  by (simp add: Redis_Set_def)

lemma redis_cache:
  assumes srv: "redis_server (client c) sview"
  shows "cache (Redis_Get c) (Redis_Set c) (Redis_Delete c) (redis_view c sview) redis_ttl"
proof
  fix k :: string and now t :: time and s and v :: bytes and ttl :: duration
  show "fst (Redis_Get c now Background k s) =
      (case redis_view c sview now s k of None \<Rightarrow> Inl ErrMiss | Some v \<Rightarrow> Inr v)" if "k \<noteq> []"
    using that by (simp add: Redis_Get_result [OF srv])
  show "redis_view c sview t (snd (Redis_Get c now Background k s)) = redis_view c sview t s"
    by (cases "k = []") (simp_all add: Redis_Get_result [OF srv])
  assume k: "k \<noteq> []"
  note del = Redis_Delete_result [OF k redis_serverD(4) [OF srv]]
  show "fst (Redis_Delete c now Background k s) = None" by (simp add: del)
  show dv: "redis_view c sview t (snd (Redis_Delete c now Background k s)) =
      (redis_view c sview t s)(k := None)" if "now \<le> t"
    using that by (simp add: del redis_view_upd redis_serverD(5) [OF srv])
  assume ttl: "redis_ttl ttl"
  show "fst (Redis_Set c now Background k v ttl s) = None"
  proof (cases "ttl < 0")
    case True
    then show ?thesis by (simp add: Redis_Set_negative k del)
  next
    case False
    with k ttl show ?thesis by (simp add: Redis_Set_result redis_serverD(2) [OF srv])
  qed
  show "redis_view c sview t (snd (Redis_Set c now Background k v ttl s)) =
      (redis_view c sview t s)(k := stored now ttl v t)" if "now \<le> t"
  proof (cases "ttl < 0")
    case True
    then show ?thesis using dv [OF that] by (simp add: Redis_Set_negative k stored_def)
  next
    case False
    with k ttl that show ?thesis
      by (simp add: Redis_Set_result redis_serverD(2,3) [OF srv] redis_view_upd)
  qed
qed

section \<open>Properties\<close>

text \<open>C8. Given a server that behaves as documented, the Redis adapter implements the cache
  interface: reads return the live value or \<^verbatim>\<open>ErrMiss\<close>, writes and deletes change exactly their
  key, negative TTLs delete; TTLs are those the protocol expresses.\<close>

theorem redis_implements_cache:
  assumes "redis_server (client c) sview"
  shows "cache (Redis_Get c) (Redis_Set c) (Redis_Delete c) (redis_view c sview) redis_ttl"
  using assms by (rule redis_cache)

text \<open>A server that keeps each value with an optional expiry satisfies the hypothesis.\<close>

type_synonym demo_server = "string \<rightharpoonup> bytes \<times> time option"

definition demo_view :: "time \<Rightarrow> demo_server \<Rightarrow> string \<Rightarrow> bytes option" where
  "demo_view t s k =
     (case s k of
        None \<Rightarrow> None
      | Some (v, None) \<Rightarrow> Some v
      | Some (v, Some x) \<Rightarrow> if t < x then Some v else None)"

definition demo_client :: "demo_server redis_client" where
  "demo_client = \<lparr>
     rget = (\<lambda>now ctx k s. ((case demo_view now s k of None \<Rightarrow> Inl RedisNil | Some v \<Rightarrow> Inr v), s)),
     rset = (\<lambda>now ctx k v ttl s. (None, s(k \<mapsto> (v, if ttl = 0 then None else Some (now + ttl))))),
     rdel = (\<lambda>now ctx k s. (None, s(k := None)))\<rparr>"

lemma demo_client_ok: "redis_server demo_client demo_view"
  by (auto simp: redis_server_def demo_client_def demo_view_def stored_def fun_eq_iff)

theorem redis_implements_cache_witness:
  "redis_server demo_client demo_view \<and>
   cache (Redis_Get \<lparr>client = demo_client, prefix = ''app:''\<rparr>) (Redis_Set \<lparr>client = demo_client, prefix = ''app:''\<rparr>)
         (Redis_Delete \<lparr>client = demo_client, prefix = ''app:''\<rparr>)
         (redis_view \<lparr>client = demo_client, prefix = ''app:''\<rparr> demo_view) redis_ttl"
  using redis_implements_cache [of "\<lparr>client = demo_client, prefix = ''app:''\<rparr>" demo_view] demo_client_ok
  by simp

text \<open>No failure of the provider is ever reported as a cache miss, whatever the client does:
  \<^verbatim>\<open>Get\<close> answers \<^verbatim>\<open>ErrMiss\<close> exactly when the client answered nil, every other client error is
  found in the returned chain, and \<^verbatim>\<open>Set\<close> and \<^verbatim>\<open>Delete\<close> never answer \<^verbatim>\<open>ErrMiss\<close>.\<close>

theorem redis_failure_not_miss:
  "(\<exists>e. fst (Redis_Get c now ctx k s) = Inl e \<and> errors_Is e ErrMiss) =
     (k \<noteq> [] \<and> fst (rget (client c) now ctx (redis_key c k) s) = Inl RedisNil)
   \<and> (\<forall>m. k \<noteq> [] \<and> fst (rget (client c) now ctx (redis_key c k) s) = Inl (RedisOther m) \<longrightarrow>
        (\<exists>e. fst (Redis_Get c now ctx k s) = Inl e \<and> errors_Is e (Ext (RedisOther m))))
   \<and> (\<forall>e. fst (Redis_Set c now ctx k v ttl s) = Some e \<longrightarrow> \<not> errors_Is e ErrMiss)
   \<and> (\<forall>e. fst (Redis_Delete c now ctx k s) = Some e \<longrightarrow> \<not> errors_Is e ErrMiss)"
proof (intro conjI)
  show "(\<exists>e. fst (Redis_Get c now ctx k s) = Inl e \<and> errors_Is e ErrMiss) =
     (k \<noteq> [] \<and> fst (rget (client c) now ctx (redis_key c k) s) = Inl RedisNil)"
    by (cases "rget (client c) now ctx (redis_key c k) s")
       (auto simp: Redis_Get_def ErrMiss_def split: sum.splits if_splits)
  show "\<forall>m. k \<noteq> [] \<and> fst (rget (client c) now ctx (redis_key c k) s) = Inl (RedisOther m) \<longrightarrow>
        (\<exists>e. fst (Redis_Get c now ctx k s) = Inl e \<and> errors_Is e (Ext (RedisOther m)))"
    by (auto simp: Redis_Get_def split: prod.splits)
  show del: "\<forall>e. fst (Redis_Delete c now ctx k s) = Some e \<longrightarrow> \<not> errors_Is e ErrMiss"
    by (auto simp: Redis_Delete_def ErrMiss_def split: prod.splits option.splits if_splits)
  show "\<forall>e. fst (Redis_Set c now ctx k v ttl s) = Some e \<longrightarrow> \<not> errors_Is e ErrMiss"
    using del by (auto simp: Redis_Set_def ErrMiss_def split: prod.splits option.splits if_splits)
qed

theorem redis_failure_not_miss_witness:
  "\<not> errors_Is (the (fst (Redis_Delete \<lparr>client = demo_client\<lparr>rdel := \<lambda>now ctx k s. (Some (RedisOther ''down''), s)\<rparr>,
      prefix = ''app:''\<rparr> 1 Background ''k'' Map.empty))) ErrMiss"
proof -
  let ?c = "\<lparr>client = demo_client\<lparr>rdel := \<lambda>now ctx k s. (Some (RedisOther ''down''), s)\<rparr>, prefix = ''app:''\<rparr>"
  have "fst (Redis_Delete ?c 1 Background ''k'' Map.empty) =
        Some (Wrap ''cachex/redis: delete k'' (Ext (RedisOther ''down'')))"
    by (simp add: Redis_Delete_def)
  then show ?thesis
    using redis_failure_not_miss [of ?c 1 Background "''k''" Map.empty "[]" 0] by simp
qed

end
