(* ===== verification/Cachex_Alias.thy ===== *)
theory Cachex_Alias
  imports Cachex
begin

text \<open>
  Ownership of byte slices in \<^verbatim>\<open>cachex/memory.go\<close>, and the cache interface over slices that the
  contract suite uses (locale \<open>slice_cache\<close>). Here slices are references into a store of
  arrays that caller and cache share, as in Go, and \<^verbatim>\<open>bytes.Clone\<close> is an allocation. The callers
  may write, at any time, to every array they allocated or were given by \<^verbatim>\<open>Get\<close> (the ghost set
  \<open>owned\<close>). The theorems are that the cache never hands out or keeps an array a caller can write
  to, and that the operations therefore behave as the value-level operations of theory
  \<open>Cachex\<close>.
\<close>

record slices =
  heap :: "nat \<Rightarrow> bytes"
  fresh :: nat
  owned :: "nat set"

record hstate = slices +
  hentries :: "string \<rightharpoonup> nat \<times> time"

text \<open>\<^verbatim>\<open>bytes.Clone\<close>: a new array with the same bytes.\<close>

definition Clone :: "nat \<Rightarrow> 'x slices_scheme \<Rightarrow> nat \<times> 'x slices_scheme" where
  "Clone l st = (fresh st, st\<lparr>heap := (heap st)(fresh st := heap st l), fresh := Suc (fresh st)\<rparr>)"

definition hMemory_Get :: "time \<Rightarrow> ctx \<Rightarrow> string \<Rightarrow> hstate \<Rightarrow> (cache_error + nat) \<times> hstate" where
  "hMemory_Get now ctx key st =
     (case ctx 0 of
        Some e \<Rightarrow> (Inl (CtxErr e), st)
      | None \<Rightarrow>
          (case hentries st key of
             None \<Rightarrow> (Inl ErrMiss, st)
           | Some (l, x) \<Rightarrow>
               if \<not> IsZero x \<and> \<not> now < x then
                 (Inl ErrMiss, st\<lparr>hentries := (hentries st)(key := None)\<rparr>)
               else (let (l', st') = Clone l st
                     in (Inr l', st'\<lparr>owned := insert l' (owned st')\<rparr>))))"

definition hMemory_Delete :: "time \<Rightarrow> ctx \<Rightarrow> string \<Rightarrow> hstate \<Rightarrow> cache_error option \<times> hstate" where
  "hMemory_Delete now ctx key st =
     (case ctx 0 of
        Some e \<Rightarrow> (Some (CtxErr e), st)
      | None \<Rightarrow>
          if key = [] then (Some (New ''cachex: key is empty''), st)
          else (None, st\<lparr>hentries := (hentries st)(key := None)\<rparr>))"

definition hMemory_Set ::
  "time \<Rightarrow> ctx \<Rightarrow> string \<Rightarrow> nat \<Rightarrow> duration \<Rightarrow> hstate \<Rightarrow> cache_error option \<times> hstate" where
  "hMemory_Set now ctx key v ttl st =
     (case ctx 0 of
        Some e \<Rightarrow> (Some (CtxErr e), st)
      | None \<Rightarrow>
          if key = [] then (Some (New ''cachex: key is empty''), st)
          else if ttl < 0 then hMemory_Delete now (ctx_from 1 ctx) key st
          else (let (l', st') = Clone v st
                in (None, st'\<lparr>hentries := (hentries st')(key \<mapsto> (l', if 0 < ttl then now + ttl else 0))\<rparr>)))"

text \<open>What callers do with memory: allocate an array, and write to one they own.\<close>

definition caller_alloc :: "bytes \<Rightarrow> 'x slices_scheme \<Rightarrow> 'x slices_scheme" where
  "caller_alloc bs st =
     st\<lparr>heap := (heap st)(fresh st := bs), fresh := Suc (fresh st), owned := insert (fresh st) (owned st)\<rparr>"

definition caller_write :: "nat \<Rightarrow> bytes \<Rightarrow> 'x slices_scheme \<Rightarrow> 'x slices_scheme" where
  "caller_write l bs st = st\<lparr>heap := (heap st)(l := bs)\<rparr>"

inductive alias_step :: "hstate \<Rightarrow> hstate \<Rightarrow> bool" where
  alloc: "alias_step st (caller_alloc bs st)"
| mutate: "l \<in> owned st \<Longrightarrow> alias_step st (caller_write l bs st)"
| get: "alias_step st (snd (hMemory_Get now ctx k st))"
| set: "v \<in> owned st \<Longrightarrow> alias_step st (snd (hMemory_Set now ctx k v ttl st))"
| del: "alias_step st (snd (hMemory_Delete now ctx k st))"

definition alias_init :: hstate where
  "alias_init = \<lparr>heap = (\<lambda>_. []), fresh = 0, owned = {}, hentries = Map.empty\<rparr>"

inductive alias_reach :: "hstate \<Rightarrow> bool" where
  start: "alias_reach alias_init"
| step: "alias_reach st \<Longrightarrow> alias_step st st' \<Longrightarrow> alias_reach st'"

section \<open>The invariant\<close>

definition alias_inv :: "hstate \<Rightarrow> bool" where
  "alias_inv st \<longleftrightarrow>
     (\<forall>k l x. hentries st k = Some (l, x) \<longrightarrow> l < fresh st \<and> l \<notin> owned st)
     \<and> (\<forall>l\<in>owned st. l < fresh st)"

lemmas alias_ops = hMemory_Get_def hMemory_Set_def hMemory_Delete_def caller_alloc_def caller_write_def
  Clone_def Let_def

lemma alias_step_inv: "alias_step st st' \<Longrightarrow> alias_inv st \<Longrightarrow> alias_inv st'"
  by (induction rule: alias_step.induct)
     (fastforce simp: alias_inv_def alias_ops less_Suc_eq split: option.splits if_splits)+

lemma alias_reach_inv: "alias_reach st \<Longrightarrow> alias_inv st"
proof (induction rule: alias_reach.induct)
  case start
  show ?case by (simp add: alias_inv_def alias_init_def)
qed (rule alias_step_inv)

section \<open>The contents as values\<close>

definition deref :: "hstate \<Rightarrow> Memory" where
  "deref st =
     \<lparr>entries = (\<lambda>k. case hentries st k of
                        None \<Rightarrow> None
                      | Some (l, x) \<Rightarrow> Some \<lparr>value = heap st l, expiresAt = x\<rparr>)\<rparr>"

lemma entries_deref:
  "entries (deref st) k =
     (case hentries st k of None \<Rightarrow> None | Some (l, x) \<Rightarrow> Some \<lparr>value = heap st l, expiresAt = x\<rparr>)"
  by (simp add: deref_def)

lemma deref_eqI:
  "(\<And>k. entries (deref st) k = entries m k) \<Longrightarrow> deref st = m"
  by (cases m) (auto simp: deref_def)

lemma alias_inv_fresh: "alias_inv st \<Longrightarrow> hentries st k \<noteq> Some (fresh st, x)"
  by (auto simp: alias_inv_def)

lemma deref_write: "\<lbrakk>alias_inv st; l \<in> owned st\<rbrakk> \<Longrightarrow> deref (caller_write l bs st) = deref st"
  by (rule deref_eqI) (auto simp: entries_deref caller_write_def alias_inv_def split: option.split)

lemma deref_alloc: "alias_inv st \<Longrightarrow> deref (caller_alloc bs st) = deref st"
  by (rule deref_eqI) (auto simp: entries_deref caller_alloc_def alias_inv_def split: option.split)

lemma deref_drop: "deref (st\<lparr>hentries := (hentries st)(k := None)\<rparr>) = (deref st)\<lparr>entries := (entries (deref st))(k := None)\<rparr>"
  by (rule deref_eqI) (auto simp: entries_deref split: option.split)

lemma deref_delete: "deref (snd (hMemory_Delete now ctx k st)) = snd (Memory_Delete now ctx k (deref st))
    \<and> fst (hMemory_Delete now ctx k st) = fst (Memory_Delete now ctx k (deref st))"
  by (simp add: hMemory_Delete_def Memory_Delete_def deref_drop split: option.split)

lemma deref_clone_entry:
  assumes "alias_inv st" "Clone v st = (l', st')"
  shows "deref (st'\<lparr>hentries := (hentries st')(k \<mapsto> (l', x))\<rparr>) =
         (deref st)\<lparr>entries := (entries (deref st))(k \<mapsto> \<lparr>value = heap st v, expiresAt = x\<rparr>)\<rparr>"
  using assms by (intro deref_eqI) (auto simp: entries_deref Clone_def alias_inv_fresh split: option.split)

lemma deref_set:
  assumes "alias_inv st"
  shows "deref (snd (hMemory_Set now ctx k v ttl st)) = snd (Memory_Set now ctx k (heap st v) ttl (deref st))
    \<and> fst (hMemory_Set now ctx k v ttl st) = fst (Memory_Set now ctx k (heap st v) ttl (deref st))"
proof (cases "ctx 0 = None \<and> k \<noteq> [] \<and> 0 \<le> ttl")
  case True
  obtain l' st' where "Clone v st = (l', st')" by fastforce
  with True deref_clone_entry [OF assms this, of k] show ?thesis
    by (auto simp: hMemory_Set_def Memory_Set_def Let_def)
next
  case False
  then show ?thesis
    by (auto simp: hMemory_Set_def Memory_Set_def deref_delete split: option.split)
qed

lemma deref_get:
  assumes "alias_inv st" "hMemory_Get now ctx k st = (r, st')"
  shows "deref st' = snd (Memory_Get now ctx k (deref st))
    \<and> (case r of Inl e \<Rightarrow> fst (Memory_Get now ctx k (deref st)) = Inl e
              | Inr l \<Rightarrow> fst (Memory_Get now ctx k (deref st)) = Inr (heap st' l) \<and> l \<in> owned st')"
proof (cases "ctx 0 = None \<and> (\<exists>l x. hentries st k = Some (l, x) \<and> (IsZero x \<or> now < x))")
  case True
  then obtain l x where lx: "ctx 0 = None" "hentries st k = Some (l, x)" "IsZero x \<or> now < x" by blast
  have "deref st' = deref st"
    using assms lx by (intro deref_eqI) (auto simp: alias_ops entries_deref alias_inv_fresh split: option.split)
  with assms lx show ?thesis
    by (auto simp: alias_ops Memory_Get_def entries_deref)
next
  case False
  with assms(2) show ?thesis
    by (auto simp: hMemory_Get_def Memory_Get_def evict_def entries_deref deref_drop split: option.splits if_splits)
qed

section \<open>The interface over slices\<close>

text \<open>The laws of a cache whose users hold references: \<open>inv\<close> is its invariant on the shared store,
  which the users' allocations and their writes to arrays they own keep, and these do not change what
  the cache holds. \<^verbatim>\<open>Get\<close> answers an array with the stored bytes that belongs to the caller, \<^verbatim>\<open>Set\<close>
  stores the bytes its argument has now.\<close>

locale slice_cache =
  fixes Get :: "time \<Rightarrow> ctx \<Rightarrow> string \<Rightarrow> 'x slices_scheme \<Rightarrow> (cache_error + nat) \<times> 'x slices_scheme"
    and Set :: "time \<Rightarrow> ctx \<Rightarrow> string \<Rightarrow> nat \<Rightarrow> duration \<Rightarrow> 'x slices_scheme \<Rightarrow> cache_error option \<times> 'x slices_scheme"
    and Delete :: "time \<Rightarrow> ctx \<Rightarrow> string \<Rightarrow> 'x slices_scheme \<Rightarrow> cache_error option \<times> 'x slices_scheme"
    and view :: "time \<Rightarrow> 'x slices_scheme \<Rightarrow> string \<Rightarrow> bytes option"
    and inv :: "'x slices_scheme \<Rightarrow> bool"
    and ttl_ok :: "duration \<Rightarrow> bool"
  assumes inv_alloc: "inv st \<Longrightarrow> inv (caller_alloc bs st)"
    and view_alloc: "inv st \<Longrightarrow> view t (caller_alloc bs st) = view t st"
    and inv_write: "\<lbrakk>inv st; l \<in> owned st\<rbrakk> \<Longrightarrow> inv (caller_write l bs st)"
    and view_write: "\<lbrakk>inv st; l \<in> owned st\<rbrakk> \<Longrightarrow> view t (caller_write l bs st) = view t st"
    and inv_get: "inv st \<Longrightarrow> inv (snd (Get now Background k st))"
    and inv_set: "\<lbrakk>inv st; v \<in> owned st; ttl_ok ttl\<rbrakk> \<Longrightarrow> inv (snd (Set now Background k v ttl st))"
    and inv_delete: "inv st \<Longrightarrow> inv (snd (Delete now Background k st))"
    and owned_get: "inv st \<Longrightarrow> owned st \<subseteq> owned (snd (Get now Background k st))"
    and owned_set: "\<lbrakk>inv st; v \<in> owned st; ttl_ok ttl\<rbrakk> \<Longrightarrow> owned st \<subseteq> owned (snd (Set now Background k v ttl st))"
    and get_miss: "\<lbrakk>inv st; k \<noteq> []; view now st k = None\<rbrakk> \<Longrightarrow> fst (Get now Background k st) = Inl ErrMiss"
    and get_hit: "\<lbrakk>inv st; k \<noteq> []; view now st k = Some bs\<rbrakk> \<Longrightarrow>
         \<exists>l. fst (Get now Background k st) = Inr l \<and> l \<in> owned (snd (Get now Background k st))
             \<and> heap (snd (Get now Background k st)) l = bs"
    and get_keeps: "\<lbrakk>inv st; now \<le> t\<rbrakk> \<Longrightarrow> view t (snd (Get now Background k st)) = view t st"
    and set_ok: "\<lbrakk>inv st; v \<in> owned st; k \<noteq> []; ttl_ok ttl\<rbrakk> \<Longrightarrow> fst (Set now Background k v ttl st) = None"
    and set_view: "\<lbrakk>inv st; v \<in> owned st; k \<noteq> []; ttl_ok ttl; 0 < now; now \<le> t\<rbrakk> \<Longrightarrow>
         view t (snd (Set now Background k v ttl st)) = (view t st)(k := stored now ttl (heap st v) t)"
    and delete_ok: "\<lbrakk>inv st; k \<noteq> []\<rbrakk> \<Longrightarrow> fst (Delete now Background k st) = None"
    and delete_view: "\<lbrakk>inv st; k \<noteq> []; now \<le> t\<rbrakk> \<Longrightarrow>
         view t (snd (Delete now Background k st)) = (view t st)(k := None)"
begin

text \<open>A stored value is what the argument held, whatever the caller writes to it afterwards.\<close>

lemma set_then_write:
  assumes "inv st" "v \<in> owned st" "k \<noteq> []" "ttl_ok ttl" "0 < now" "now \<le> t"
  shows "view t (caller_write v bs (snd (Set now Background k v ttl st))) = (view t st)(k := stored now ttl (heap st v) t)"
  using view_write [OF inv_set [OF assms(1,2,4)] subsetD [OF owned_set [OF assms(1,2,4)] assms(2)]] set_view [OF assms] by simp

text \<open>Writing to a slice that \<^verbatim>\<open>Get\<close> returned does not change the cache.\<close>

lemma get_then_write:
  assumes "inv st" "k \<noteq> []" "view now st k = Some v" "now \<le> t" "fst (Get now Background k st) = Inr l"
  shows "view t (caller_write l bs (snd (Get now Background k st))) = view t st"
  using view_write [OF inv_get [OF assms(1)]] get_hit [OF assms(1-3)] get_keeps [OF assms(1,4)] assms(5) by auto

end

lemmas alias_inv_steps = alias_step.intros [THEN alias_step_inv]

lemma hMemory_Get_owned: "owned st \<subseteq> owned (snd (hMemory_Get now ctx k st))"
  by (auto simp: alias_ops split: option.split)

lemma hMemory_Set_owned: "owned (snd (hMemory_Set now ctx k v ttl st)) = owned st"
  by (auto simp: alias_ops split: option.split)

interpretation hmemory: slice_cache hMemory_Get hMemory_Set hMemory_Delete "\<lambda>t st. memory_view t (deref st)" alias_inv "\<lambda>_. True"
proof
  fix st :: hstate and k :: string and now t :: time and ttl :: duration and v bs l
  assume inv: "alias_inv st"
  show "alias_inv (caller_alloc bs st)" "alias_inv (snd (hMemory_Get now Background k st))"
    "alias_inv (snd (hMemory_Delete now Background k st))"
    using inv by (blast intro: alias_inv_steps)+
  show "memory_view t (deref (caller_alloc bs st)) = memory_view t (deref st)"
    using inv by (simp add: deref_alloc)
  show "alias_inv (caller_write l bs st)" "memory_view t (deref (caller_write l bs st)) = memory_view t (deref st)"
    if "l \<in> owned st" using alias_inv_steps(2) [OF that inv] deref_write [OF inv that] by simp_all
  show "alias_inv (snd (hMemory_Set now Background k v ttl st))" if "v \<in> owned st"
    using that by (rule alias_inv_steps(4) [OF _ inv])
  show "owned st \<subseteq> owned (snd (hMemory_Get now Background k st))" by (rule hMemory_Get_owned)
  show "owned st \<subseteq> owned (snd (hMemory_Set now Background k v ttl st))" by (simp add: hMemory_Set_owned)
  obtain r st' where g: "hMemory_Get now Background k st = (r, st')" by fastforce
  note get = deref_get [OF inv g]
  show "memory_view t (deref (snd (hMemory_Get now Background k st))) = memory_view t (deref st)" if "now \<le> t"
    using get g memory.get_keeps [OF that] by simp
  assume k: "k \<noteq> []"
  show "fst (hMemory_Get now Background k st) = Inl ErrMiss" if "memory_view now (deref st) k = None"
    using get g memory.get_result [OF k, of now "deref st"] that by (simp split: sum.splits)
  show "\<exists>l. fst (hMemory_Get now Background k st) = Inr l \<and> l \<in> owned (snd (hMemory_Get now Background k st))
      \<and> heap (snd (hMemory_Get now Background k st)) l = b" if "memory_view now (deref st) k = Some b" for b
    using get g memory.get_result [OF k, of now "deref st"] that by (auto split: sum.splits)
  show "fst (hMemory_Set now Background k v ttl st) = None"
    using deref_set [OF inv, of now Background k v ttl] memory.set_ok [OF k] by simp
  show "memory_view t (deref (snd (hMemory_Set now Background k v ttl st))) =
      (memory_view t (deref st))(k := stored now ttl (heap st v) t)" if "0 < now" "now \<le> t"
    using deref_set [OF inv, of now Background k v ttl] memory.set_view [OF k _ that] by simp
  show "fst (hMemory_Delete now Background k st) = None"
    "now \<le> t \<Longrightarrow> memory_view t (deref (snd (hMemory_Delete now Background k st))) = (memory_view t (deref st))(k := None)"
    using deref_delete [of now Background k st] memory.delete_ok [OF k] memory.delete_view [OF k] by simp_all
qed

section \<open>Properties\<close>

text \<open>C7. Copies are defensive: in every reachable state of callers and cache, a caller's write to
  an array it owns leaves the contents of the cache as they are, \<^verbatim>\<open>Set\<close> stores the bytes the argument
  has at the time of the call, and \<^verbatim>\<open>Get\<close> returns an array, owned by the caller, with the stored
  bytes; contents and errors are those of the value-level operations.\<close>

theorem memory_defensive_copies:
  assumes "alias_reach st"
  shows "(l \<in> owned st \<longrightarrow> deref (caller_write l bs st) = deref st)
    \<and> deref (snd (hMemory_Set now ctx k v ttl st)) = snd (Memory_Set now ctx k (heap st v) ttl (deref st))
    \<and> fst (hMemory_Set now ctx k v ttl st) = fst (Memory_Set now ctx k (heap st v) ttl (deref st))
    \<and> deref (snd (hMemory_Get now ctx k st)) = snd (Memory_Get now ctx k (deref st))
    \<and> (case fst (hMemory_Get now ctx k st) of
         Inl e \<Rightarrow> fst (Memory_Get now ctx k (deref st)) = Inl e
       | Inr l' \<Rightarrow> fst (Memory_Get now ctx k (deref st)) = Inr (heap (snd (hMemory_Get now ctx k st)) l')
                \<and> l' \<in> owned (snd (hMemory_Get now ctx k st)))"
proof -
  have inv: "alias_inv st" using assms by (rule alias_reach_inv)
  obtain r st' where g: "hMemory_Get now ctx k st = (r, st')" by fastforce
  show ?thesis
    using deref_write [OF inv] deref_set [OF inv, of now ctx k v ttl] deref_get [OF inv g] g by (cases r) simp_all
qed

text \<open>The contract test's scenario: store an array, overwrite it, read, overwrite the result,
  read again.\<close>

definition demo_alias :: hstate where
  "demo_alias = caller_write 0 [88] (snd (hMemory_Set 1 Background ''key'' 0 0 (caller_alloc [118] alias_init)))"

lemma demo_alias_reach: "alias_reach demo_alias"
proof -
  have "alias_reach (caller_alloc [118] alias_init)" by (rule alias_reach.step [OF alias_reach.start alias_step.alloc])
  then have "alias_reach (snd (hMemory_Set 1 Background ''key'' 0 0 (caller_alloc [118] alias_init)))"
    by (rule alias_reach.step) (rule alias_step.set, simp add: caller_alloc_def alias_init_def)
  then show ?thesis unfolding demo_alias_def
    by (rule alias_reach.step) (rule alias_step.mutate, simp add: alias_ops alias_init_def)
qed

theorem memory_defensive_copies_witness:
  "deref (caller_write 0 [99] demo_alias) = deref demo_alias
   \<and> fst (Memory_Get 5 Background ''key'' (deref demo_alias)) = Inr [118]"
  using memory_defensive_copies [OF demo_alias_reach, of 0 "[99]"]
  by (simp add: demo_alias_def alias_ops alias_init_def Memory_Get_def entries_deref IsZero_def)

end
