(* ===== verification/Cachex_Redis_Alias.thy ===== *)
theory Cachex_Redis_Alias
  imports Cachex_Redis Cachex_Alias
begin

text \<open>
  Ownership of byte slices in \<^verbatim>\<open>cachex/redis.go\<close>. The client is handed slices and hands out slices;
  what it does with them is its business: it may keep the array of a value it was given and return an
  array it keeps. The copies of the adapter make its users independent of that, which is what the
  interpretation of \<open>slice_cache\<close> for such a client shows.
\<close>

record 's rstate = slices +
  server :: 's

record 's hredis_client =
  hrget :: "time \<Rightarrow> ctx \<Rightarrow> string \<Rightarrow> 's rstate \<Rightarrow> (cache_cause + nat) \<times> 's rstate"
  hrset :: "time \<Rightarrow> ctx \<Rightarrow> string \<Rightarrow> nat \<Rightarrow> duration \<Rightarrow> 's rstate \<Rightarrow> cache_cause option \<times> 's rstate"
  hrdel :: "time \<Rightarrow> ctx \<Rightarrow> string \<Rightarrow> 's rstate \<Rightarrow> cache_cause option \<times> 's rstate"

record 's hRedisCache =
  hclient :: "'s hredis_client"
  hprefix :: string

definition hredis_key :: "'s hRedisCache \<Rightarrow> string \<Rightarrow> string" where
  "hredis_key c key = hprefix c @ key"

text \<open>\<^verbatim>\<open>append([]byte(nil), data...)\<close> is \<open>Clone\<close>; the copy that \<^verbatim>\<open>Get\<close> returns belongs to the caller.\<close>

definition hRedis_Get :: "'s hRedisCache \<Rightarrow> time \<Rightarrow> ctx \<Rightarrow> string \<Rightarrow> 's rstate \<Rightarrow> (cache_error + nat) \<times> 's rstate" where
  "hRedis_Get c now ctx key s =
     (if key = [] then (Inl (New ''cachex/redis: key is empty''), s)
      else (case hrget (hclient c) now ctx (hredis_key c key) s of
              (Inl e, s') \<Rightarrow>
                if errors_Is (Ext e) (Ext RedisNil) then (Inl ErrMiss, s')
                else (Inl (Wrap (''cachex/redis: get '' @ key) (Ext e)), s')
            | (Inr data, s') \<Rightarrow>
                (let (l, s'') = Clone data s'
                 in (Inr l, s''\<lparr>owned := insert l (owned s'')\<rparr>))))"

definition hRedis_Delete :: "'s hRedisCache \<Rightarrow> time \<Rightarrow> ctx \<Rightarrow> string \<Rightarrow> 's rstate \<Rightarrow> cache_error option \<times> 's rstate" where
  "hRedis_Delete c now ctx key s =
     (if key = [] then (Some (New ''cachex/redis: key is empty''), s)
      else (case hrdel (hclient c) now ctx (hredis_key c key) s of
              (Some e, s') \<Rightarrow> (Some (Wrap (''cachex/redis: delete '' @ key) (Ext e)), s')
            | (None, s') \<Rightarrow> (None, s')))"

definition hRedis_Set ::
  "'s hRedisCache \<Rightarrow> time \<Rightarrow> ctx \<Rightarrow> string \<Rightarrow> nat \<Rightarrow> duration \<Rightarrow> 's rstate \<Rightarrow> cache_error option \<times> 's rstate" where
  "hRedis_Set c now ctx key v ttl s =
     (if key = [] then (Some (New ''cachex/redis: key is empty''), s)
      else if ttl < 0 then hRedis_Delete c now ctx key s
      else (let (l, s') = Clone v s in
            case hrset (hclient c) now ctx (hredis_key c key) l ttl s' of
              (Some e, s'') \<Rightarrow> (Some (Wrap (''cachex/redis: set '' @ key) (Ext e)), s'')
            | (None, s'') \<Rightarrow> (None, s'')))"

section \<open>A client over a reachable server\<close>

text \<open>The arrays \<open>kept s\<close> are those the client refers to in state \<open>s\<close>. They are the client's own: no
  caller may write to them.\<close>

definition hredis_inv :: "('s \<Rightarrow> nat set) \<Rightarrow> 's rstate \<Rightarrow> bool" where
  "hredis_inv kept st \<longleftrightarrow>
     (\<forall>l\<in>kept (server st). l < fresh st \<and> l \<notin> owned st) \<and> (\<forall>l\<in>owned st. l < fresh st)"

text \<open>What a call of the client may do to memory: allocate arrays and keep them, keep the arrays in
  \<open>new\<close>, but neither write to an array that existed before nor change who owns one.\<close>

definition client_frame :: "('s \<Rightarrow> nat set) \<Rightarrow> nat set \<Rightarrow> 's rstate \<Rightarrow> 's rstate \<Rightarrow> bool" where
  "client_frame kept new st st' \<longleftrightarrow>
     fresh st \<le> fresh st' \<and> owned st' = owned st \<and> (\<forall>l<fresh st. heap st' l = heap st l)
     \<and> kept (server st') \<subseteq> kept (server st) \<union> new \<union> {fresh st..<fresh st'}"

text \<open>The documented answers, as in \<open>redis_server\<close>, for values in memory: \<open>sview t s h\<close> is what is
  stored at time \<open>t\<close> in server state \<open>s\<close> when memory is \<open>h\<close>, and depends only on the arrays kept.\<close>

definition hredis_server ::
  "'s hredis_client \<Rightarrow> (time \<Rightarrow> 's \<Rightarrow> (nat \<Rightarrow> bytes) \<Rightarrow> string \<Rightarrow> bytes option) \<Rightarrow> ('s \<Rightarrow> nat set) \<Rightarrow> bool" where
  "hredis_server cl sview kept \<longleftrightarrow>
     (\<forall>t s h h'. (\<forall>l\<in>kept s. h l = h' l) \<longrightarrow> sview t s h = sview t s h')
     \<and> (\<forall>now t k v ttl st. hredis_inv kept st \<longrightarrow>
         (let (r, st') = hrget cl now Background k st in
            client_frame kept {} st st'
          \<and> (case sview now (server st) (heap st) k of
               None \<Rightarrow> r = Inl RedisNil
             | Some bs \<Rightarrow> (\<exists>l. r = Inr l \<and> heap st' l = bs))
          \<and> (now \<le> t \<longrightarrow> sview t (server st') (heap st') = sview t (server st) (heap st)))
       \<and> (v < fresh st \<and> 0 \<le> ttl \<and> redis_ttl ttl \<longrightarrow>
           (let (r, st') = hrset cl now Background k v ttl st in
              client_frame kept {v} st st' \<and> r = None
            \<and> (now \<le> t \<longrightarrow> sview t (server st') (heap st') =
                             (sview t (server st) (heap st))(k := stored now ttl (heap st v) t))))
       \<and> (let (r, st') = hrdel cl now Background k st in
            client_frame kept {} st st' \<and> r = None
          \<and> (now \<le> t \<longrightarrow> sview t (server st') (heap st') = (sview t (server st) (heap st))(k := None))))"

lemma hredis_serverD:
  assumes "hredis_server cl sview kept"
  shows "(\<And>l. l \<in> kept s \<Longrightarrow> h l = h' l) \<Longrightarrow> sview t s h = sview t s h'"
    and "\<lbrakk>hredis_inv kept st; hrget cl now Background k st = (r, st')\<rbrakk> \<Longrightarrow>
         client_frame kept {} st st'
       \<and> (case sview now (server st) (heap st) k of
            None \<Rightarrow> r = Inl RedisNil
          | Some bs \<Rightarrow> (\<exists>l. r = Inr l \<and> heap st' l = bs))
       \<and> (now \<le> t \<longrightarrow> sview t (server st') (heap st') = sview t (server st) (heap st))"
    and "\<lbrakk>hredis_inv kept st; hrset cl now Background k v ttl st = (q, st'); v < fresh st; 0 \<le> ttl; redis_ttl ttl\<rbrakk> \<Longrightarrow>
         client_frame kept {v} st st' \<and> q = None
       \<and> (now \<le> t \<longrightarrow> sview t (server st') (heap st') =
            (sview t (server st) (heap st))(k := stored now ttl (heap st v) t))"
    and "\<lbrakk>hredis_inv kept st; hrdel cl now Background k st = (q, st')\<rbrakk> \<Longrightarrow>
         client_frame kept {} st st' \<and> q = None
       \<and> (now \<le> t \<longrightarrow> sview t (server st') (heap st') = (sview t (server st) (heap st))(k := None))"
proof -
  show "(\<And>l. l \<in> kept s \<Longrightarrow> h l = h' l) \<Longrightarrow> sview t s h = sview t s h'"
    using assms unfolding hredis_server_def by blast
  note laws = assms [unfolded hredis_server_def, THEN conjunct2, rule_format]
  show "client_frame kept {} st st'
       \<and> (case sview now (server st) (heap st) k of
            None \<Rightarrow> r = Inl RedisNil
          | Some bs \<Rightarrow> (\<exists>l. r = Inr l \<and> heap st' l = bs))
       \<and> (now \<le> t \<longrightarrow> sview t (server st') (heap st') = sview t (server st) (heap st))"
    if "hredis_inv kept st" "hrget cl now Background k st = (r, st')"
    using laws [OF that(1), THEN conjunct1, of now k t] that(2) by simp
  show "client_frame kept {v} st st' \<and> q = None
       \<and> (now \<le> t \<longrightarrow> sview t (server st') (heap st') =
            (sview t (server st) (heap st))(k := stored now ttl (heap st v) t))"
    if "hredis_inv kept st" "hrset cl now Background k v ttl st = (q, st')" "v < fresh st" "0 \<le> ttl" "redis_ttl ttl"
    using laws [OF that(1), THEN conjunct2, THEN conjunct1, of v ttl now k t] that(2-) by simp
  show "client_frame kept {} st st' \<and> q = None
       \<and> (now \<le> t \<longrightarrow> sview t (server st') (heap st') = (sview t (server st) (heap st))(k := None))"
    if "hredis_inv kept st" "hrdel cl now Background k st = (q, st')"
    using laws [OF that(1), THEN conjunct2, THEN conjunct2, of now k t] that(2) by simp
qed

section \<open>The adapter over slices\<close>

lemma hredis_inv_frame:
  assumes "hredis_inv kept st" "client_frame kept new st st'" "\<And>l. l \<in> new \<Longrightarrow> l < fresh st \<and> l \<notin> owned st"
  shows "hredis_inv kept st'"
proof -
  have "l < fresh st' \<and> l \<notin> owned st'" if "l \<in> kept (server st')" for l
  proof -
    have "l \<in> kept (server st) \<or> l \<in> new \<or> fresh st \<le> l \<and> l < fresh st'"
      using that assms(2) by (auto simp: client_frame_def)
    then show ?thesis using assms by (force simp: hredis_inv_def client_frame_def)
  qed
  then show ?thesis using assms(1,2) by (force simp: hredis_inv_def client_frame_def)
qed

lemma hredis_inv_Clone:
  "hredis_inv kept st \<Longrightarrow> hredis_inv kept (snd (Clone v st))
   \<and> hredis_inv kept ((snd (Clone v st))\<lparr>owned := insert (fresh st) (owned st)\<rparr>)"
  by (force simp: hredis_inv_def Clone_def)

lemma hredis_view_fresh:
  assumes "hredis_server cl sview kept" "hredis_inv kept st"
  shows "sview t (server st) ((heap st)(fresh st := bs)) = sview t (server st) (heap st)"
  using assms(2) by (intro hredis_serverD(1) [OF assms(1)]) (auto simp: hredis_inv_def)

lemma hRedis_Get_spec:
  assumes srv: "hredis_server (hclient c) sview kept" and inv: "hredis_inv kept st" and k: "k \<noteq> []"
    and get: "hRedis_Get c now Background k st = (r, st')"
  shows "hredis_inv kept st'" "owned st \<subseteq> owned st'"
    and "now \<le> t \<Longrightarrow> sview t (server st') (heap st') = sview t (server st) (heap st)"
    and "case sview now (server st) (heap st) (hredis_key c k) of
           None \<Rightarrow> r = Inl ErrMiss
         | Some bs \<Rightarrow> (\<exists>l. r = Inr l \<and> l \<in> owned st' \<and> heap st' l = bs)"
proof -
  obtain q st1 where call: "hrget (hclient c) now Background (hredis_key c k) st = (q, st1)" by fastforce
  note laws = hredis_serverD(2) [OF srv inv call]
  have inv1: "hredis_inv kept st1" by (rule hredis_inv_frame [OF inv laws [THEN conjunct1]]) simp
  have owned1: "owned st1 = owned st" using laws by (simp add: client_frame_def)
  show "hredis_inv kept st'" "owned st \<subseteq> owned st'"
    "now \<le> t \<Longrightarrow> sview t (server st') (heap st') = sview t (server st) (heap st)"
    "case sview now (server st) (heap st) (hredis_key c k) of
           None \<Rightarrow> r = Inl ErrMiss
         | Some bs \<Rightarrow> (\<exists>l. r = Inr l \<and> l \<in> owned st' \<and> heap st' l = bs)"
    using get laws k call inv1 owned1 hredis_inv_Clone [OF inv1] hredis_view_fresh [OF srv inv1]
    by (auto simp: hRedis_Get_def Clone_def split: option.splits sum.splits if_splits)
qed

lemma hRedis_Delete_spec:
  assumes srv: "hredis_server (hclient c) sview kept" and inv: "hredis_inv kept st" and k: "k \<noteq> []"
    and del: "hRedis_Delete c now Background k st = (r, st')"
  shows "hredis_inv kept st'" "owned st' = owned st" "r = None"
    and "now \<le> t \<Longrightarrow> sview t (server st') (heap st') = (sview t (server st) (heap st))(hredis_key c k := None)"
proof -
  obtain q st1 where call: "hrdel (hclient c) now Background (hredis_key c k) st = (q, st1)" by fastforce
  note laws = hredis_serverD(4) [OF srv inv call]
  have "hredis_inv kept st1" by (rule hredis_inv_frame [OF inv laws [THEN conjunct1]]) simp
  then show "hredis_inv kept st'" "owned st' = owned st" "r = None"
    "now \<le> t \<Longrightarrow> sview t (server st') (heap st') = (sview t (server st) (heap st))(hredis_key c k := None)"
    using del laws k call by (auto simp: hRedis_Delete_def client_frame_def)
qed

lemma hRedis_Set_spec:
  assumes srv: "hredis_server (hclient c) sview kept" and inv: "hredis_inv kept st" and k: "k \<noteq> []"
    and ttl: "redis_ttl ttl" and set: "hRedis_Set c now Background k v ttl st = (r, st')"
  shows "hredis_inv kept st'" "owned st' = owned st" "r = None"
    and "now \<le> t \<Longrightarrow> sview t (server st') (heap st') =
           (sview t (server st) (heap st))(hredis_key c k := stored now ttl (heap st v) t)"
proof -
  have "hredis_inv kept st' \<and> owned st' = owned st \<and> r = None
    \<and> (now \<le> t \<longrightarrow> sview t (server st') (heap st') =
           (sview t (server st) (heap st))(hredis_key c k := stored now ttl (heap st v) t))"
  proof (cases "ttl < 0")
    case True
    then have "hRedis_Delete c now Background k st = (r, st')" using set k by (simp add: hRedis_Set_def)
    from hRedis_Delete_spec [OF srv inv k this] True show ?thesis by (simp add: stored_def)
  next
    case False
    obtain st1 where clone: "Clone v st = (fresh st, st1)" by (simp add: Clone_def)
    obtain q st2 where call: "hrset (hclient c) now Background (hredis_key c k) (fresh st) ttl st1 = (q, st2)" by fastforce
    have inv1: "hredis_inv kept st1" using hredis_inv_Clone [OF inv, of v] clone by simp
    have st1: "owned st1 = owned st" "fresh st1 = Suc (fresh st)" "server st1 = server st"
      "heap st1 = (heap st)(fresh st := heap st v)" using clone by (auto simp: Clone_def)
    have lt: "fresh st < fresh st1" and own: "fresh st \<notin> owned st1" using st1 inv by (auto simp: hredis_inv_def)
    note laws = hredis_serverD(3) [OF srv inv1 call lt _ ttl]
    have "hredis_inv kept st2"
      by (rule hredis_inv_frame [OF inv1 laws [THEN conjunct1]]) (use False lt own in auto)
    moreover have "q = None \<longrightarrow> r = None \<and> st' = st2"
      using set k False clone call by (auto simp: hRedis_Set_def)
    ultimately show ?thesis
      using laws False st1 hredis_view_fresh [OF srv inv] by (auto simp: client_frame_def)
  qed
  then show "hredis_inv kept st'" "owned st' = owned st" "r = None"
    "now \<le> t \<Longrightarrow> sview t (server st') (heap st') =
           (sview t (server st) (heap st))(hredis_key c k := stored now ttl (heap st v) t)" by simp_all
qed

text \<open>What the adapter's user sees of server and memory.\<close>

definition hredis_view ::
  "'s hRedisCache \<Rightarrow> (time \<Rightarrow> 's \<Rightarrow> (nat \<Rightarrow> bytes) \<Rightarrow> string \<Rightarrow> bytes option) \<Rightarrow> time \<Rightarrow> 's rstate \<Rightarrow> string \<Rightarrow> bytes option" where
  "hredis_view c sview t st k = sview t (server st) (heap st) (hredis_key c k)"

lemma hredis_key_inj [simp]: "hredis_key c j = hredis_key c k \<longleftrightarrow> j = k"
  by (simp add: hredis_key_def)

lemma hredis_view_upd:
  "sview t (server st') (heap st') = (sview t (server st) (heap st))(hredis_key c k := x) \<Longrightarrow>
   hredis_view c sview t st' = (hredis_view c sview t st)(k := x)"
  by (auto simp: hredis_view_def fun_eq_iff)

lemma hredis_empty_key [simp]:
  "hRedis_Get c now ctx [] st = (Inl (New ''cachex/redis: key is empty''), st)"
  "hRedis_Delete c now ctx [] st = (Some (New ''cachex/redis: key is empty''), st)"
  "hRedis_Set c now ctx [] v ttl st = (Some (New ''cachex/redis: key is empty''), st)"
  by (simp_all add: hRedis_Get_def hRedis_Delete_def hRedis_Set_def)

lemma hredis_slice_cache:
  assumes srv: "hredis_server (hclient c) sview kept"
  shows "slice_cache (hRedis_Get c) (hRedis_Set c) (hRedis_Delete c) (hredis_view c sview) (hredis_inv kept) redis_ttl"
proof
  fix st :: "'a rstate" and k :: string and now t :: time and ttl :: duration and v l bs
  assume inv: "hredis_inv kept st"
  show "hredis_inv kept (caller_alloc bs st)"
    using inv by (force simp: hredis_inv_def caller_alloc_def)
  show "hredis_view c sview t (caller_alloc bs st) = hredis_view c sview t st"
    using hredis_view_fresh [OF srv inv] by (simp add: hredis_view_def caller_alloc_def fun_eq_iff)
  show "hredis_inv kept (caller_write l bs st)" using inv by (simp add: hredis_inv_def caller_write_def)
  show "hredis_view c sview t (caller_write l bs st) = hredis_view c sview t st" if "l \<in> owned st"
  proof -
    have "sview t (server st) ((heap st)(l := bs)) = sview t (server st) (heap st)"
      using inv that by (intro hredis_serverD(1) [OF srv]) (auto simp: hredis_inv_def)
    then show ?thesis by (simp add: hredis_view_def caller_write_def fun_eq_iff)
  qed
  obtain r st' where get: "hRedis_Get c now Background k st = (r, st')" by fastforce
  obtain e st1 where set: "hRedis_Set c now Background k v ttl st = (e, st1)" by fastforce
  obtain d st2 where del: "hRedis_Delete c now Background k st = (d, st2)" by fastforce
  show "hredis_inv kept (snd (hRedis_Get c now Background k st))" "owned st \<subseteq> owned (snd (hRedis_Get c now Background k st))"
    using hRedis_Get_spec(1,2) [OF srv inv _ get] get inv by (cases "k = []"; simp)+
  show "hredis_inv kept (snd (hRedis_Delete c now Background k st))"
    using hRedis_Delete_spec(1) [OF srv inv _ del] del inv by (cases "k = []"; simp)
  show "hredis_view c sview t (snd (hRedis_Get c now Background k st)) = hredis_view c sview t st" if "now \<le> t"
    using hRedis_Get_spec(3) [OF srv inv _ get that] get by (cases "k = []") (simp_all add: hredis_view_def fun_eq_iff)
  show "hredis_inv kept (snd (hRedis_Set c now Background k v ttl st))"
    "owned st \<subseteq> owned (snd (hRedis_Set c now Background k v ttl st))" if "redis_ttl ttl"
    using hRedis_Set_spec(1,2) [OF srv inv _ that set] set inv by (cases "k = []"; simp)+
  assume k: "k \<noteq> []"
  show "fst (hRedis_Get c now Background k st) = Inl ErrMiss" if "hredis_view c sview now st k = None"
    using hRedis_Get_spec(4) [OF srv inv k get] get that by (simp add: hredis_view_def)
  show "\<exists>l. fst (hRedis_Get c now Background k st) = Inr l \<and> l \<in> owned (snd (hRedis_Get c now Background k st))
      \<and> heap (snd (hRedis_Get c now Background k st)) l = b" if "hredis_view c sview now st k = Some b" for b
    using hRedis_Get_spec(4) [OF srv inv k get] get that by (simp add: hredis_view_def)
  show "fst (hRedis_Delete c now Background k st) = None"
    "now \<le> t \<Longrightarrow> hredis_view c sview t (snd (hRedis_Delete c now Background k st)) = (hredis_view c sview t st)(k := None)"
    using hRedis_Delete_spec(3,4) [OF srv inv k del] del by (simp_all add: hredis_view_upd)
  assume ttl: "redis_ttl ttl"
  show "fst (hRedis_Set c now Background k v ttl st) = None"
    "now \<le> t \<Longrightarrow> hredis_view c sview t (snd (hRedis_Set c now Background k v ttl st)) =
      (hredis_view c sview t st)(k := stored now ttl (heap st v) t)"
    using hRedis_Set_spec(3,4) [OF srv inv k ttl set] set by (simp_all add: hredis_view_upd)
qed

section \<open>A client that keeps and hands out its arrays\<close>

text \<open>It stores the very slice it is given and returns the very slice it stores; over it the copies of
  the adapter are all that separates cache and callers.\<close>

type_synonym alias_server = "string \<rightharpoonup> nat \<times> time option"

definition alias_view :: "time \<Rightarrow> alias_server \<Rightarrow> (nat \<Rightarrow> bytes) \<Rightarrow> string \<Rightarrow> bytes option" where
  "alias_view t s h k =
     (case s k of
        None \<Rightarrow> None
      | Some (l, None) \<Rightarrow> Some (h l)
      | Some (l, Some x) \<Rightarrow> if t < x then Some (h l) else None)"

definition alias_kept :: "alias_server \<Rightarrow> nat set" where
  "alias_kept s = {l. \<exists>k x. s k = Some (l, x)}"

definition alias_client :: "alias_server hredis_client" where
  "alias_client = \<lparr>
     hrget = (\<lambda>now ctx k st. ((case server st k of
                                  Some (l, None) \<Rightarrow> Inr l
                                | Some (l, Some x) \<Rightarrow> if now < x then Inr l else Inl RedisNil
                                | None \<Rightarrow> Inl RedisNil), st)),
     hrset = (\<lambda>now ctx k v ttl st.
        (None, st\<lparr>server := (server st)(k \<mapsto> (v, if ttl = 0 then None else Some (now + ttl)))\<rparr>)),
     hrdel = (\<lambda>now ctx k st. (None, st\<lparr>server := (server st)(k := None)\<rparr>))\<rparr>"

lemma alias_client_ok: "hredis_server alias_client alias_view alias_kept"
proof -
  have "alias_view t s h = alias_view t s h'" if "\<forall>l\<in>alias_kept s. h l = h' l" for t s h h'
    using that by (auto simp: alias_view_def alias_kept_def fun_eq_iff split: option.split)
  moreover have "client_frame alias_kept {} st st" for st by (simp add: client_frame_def)
  moreover have "client_frame alias_kept {v} st (st\<lparr>server := (server st)(k \<mapsto> (v, x))\<rparr>)" for v k x st
    by (auto simp: client_frame_def alias_kept_def split: if_splits)
  moreover have "client_frame alias_kept {} st (st\<lparr>server := (server st)(k := None)\<rparr>)" for k st
    by (auto simp: client_frame_def alias_kept_def split: if_splits)
  ultimately show ?thesis
    unfolding hredis_server_def Let_def alias_client_def
    by (auto simp: alias_view_def stored_def fun_eq_iff split: option.split)
qed

end
