(* ===== verification/Cachex_Contract.thy ===== *)
theory Cachex_Contract
  imports Cachex_Redis_Alias
begin

text \<open>
  \<^verbatim>\<open>cachex/internal/cachetest\<close>: the contract suite that every cache is tested with, over slices as the
  suite handles them: it allocates the slice it stores, writes to it after the call, writes to the
  slice it got, and compares what is in memory. It passes on every cache that satisfies the laws of
  the interface over slices, so on the in-memory cache and, over a server that behaves as documented
  and a client that may keep and hand out its own arrays, on the Redis adapter.
\<close>

definition misses :: "(cache_error + nat) \<Rightarrow> bool" where
  "misses r = (case r of Inl e \<Rightarrow> errors_Is e ErrMiss | Inr _ \<Rightarrow> False)"

text \<open>\<^verbatim>\<open>err != nil || !bytes.Equal(got, want)\<close> fails the test.\<close>

definition holds :: "(cache_error + nat) \<Rightarrow> bytes \<Rightarrow> 'x slices_scheme \<Rightarrow> bool" where
  "holds r want st = (case r of Inl _ \<Rightarrow> False | Inr l \<Rightarrow> heap st l = want)"

text \<open>\<^verbatim>\<open>s[0] = b\<close>, for a slice that is not empty.\<close>

definition set_first :: "nat \<Rightarrow> byte \<Rightarrow> 'x slices_scheme \<Rightarrow> 'x slices_scheme" where
  "set_first l b st = caller_write l ((heap st l)[0 := b]) st"

text \<open>The suite, with the readings of the clock at its calls: the result says whether it passes.\<close>

definition cachetest_Run ::
  "(time \<Rightarrow> ctx \<Rightarrow> string \<Rightarrow> 'x slices_scheme \<Rightarrow> (cache_error + nat) \<times> 'x slices_scheme)
   \<Rightarrow> (time \<Rightarrow> ctx \<Rightarrow> string \<Rightarrow> nat \<Rightarrow> duration \<Rightarrow> 'x slices_scheme \<Rightarrow> cache_error option \<times> 'x slices_scheme)
   \<Rightarrow> (time \<Rightarrow> ctx \<Rightarrow> string \<Rightarrow> 'x slices_scheme \<Rightarrow> cache_error option \<times> 'x slices_scheme)
   \<Rightarrow> (nat \<Rightarrow> time) \<Rightarrow> 'x slices_scheme \<Rightarrow> bool" where
  "cachetest_Run Get Set Delete clock st =
     (let (r, st) = Get (clock 0) Background ''missing'' st in
      if \<not> misses r then False else
      let input = fresh st; st = caller_alloc (bytes_of ''value'') st;
          (e, st) = Set (clock 1) Background ''key'' input 0 st in
      if e \<noteq> None then False else
      let st = set_first input (of_char CHR ''X'') st;
          (first, st) = Get (clock 2) Background ''key'' st in
      if \<not> holds first (bytes_of ''value'') st then False else
      let st = set_first (projr first) (of_char CHR ''Y'') st;
          (second, st) = Get (clock 3) Background ''key'' st in
      if \<not> holds second (bytes_of ''value'') st then False else
      let (e, st) = Delete (clock 4) Background ''key'' st in
      if e \<noteq> None then False else
      let (r, st) = Get (clock 5) Background ''key'' st in
      if \<not> misses r then False else
      let (e, st) = Delete (clock 6) Background ''key'' st in
      if e \<noteq> None then False else
      let deleted = fresh st; st = caller_alloc (bytes_of ''deleted'') st;
          (e, st) = Set (clock 7) Background ''key'' deleted (-1000000000) st in
      if e \<noteq> None then False else
      let (r, st) = Get (clock 8) Background ''key'' st in
      misses r)"

lemma misses_ErrMiss [simp]: "misses (Inl ErrMiss)"
  by (simp add: misses_def ErrMiss_def)

lemma caller_alloc_slice [simp]:
  "fresh st \<in> owned (caller_alloc bs st)" "heap (caller_alloc bs st) (fresh st) = bs"
  by (simp_all add: caller_alloc_def)

context slice_cache
begin

text \<open>One lemma per group of calls of the suite.\<close>

lemma run_set:
  fixes bs :: bytes
  assumes "inv st" "0 < now" "ttl_ok ttl" "k \<noteq> []"
  defines "st' \<equiv> caller_alloc bs st"
  defines "st1 \<equiv> snd (Set now Background k (fresh st) ttl st')"
  shows "fst (Set now Background k (fresh st) ttl st') = None" "inv st1" "inv (set_first (fresh st) b st1)"
    and "now \<le> t \<Longrightarrow> view t st1 k = stored now ttl bs t"
    and "now \<le> t \<Longrightarrow> view t (set_first (fresh st) b st1) k = stored now ttl bs t"
proof -
  have inv': "inv st'" and own: "fresh st \<in> owned st'" and bs: "heap st' (fresh st) = bs"
    using assms by (simp_all add: inv_alloc)
  show "fst (Set now Background k (fresh st) ttl st') = None" by (rule set_ok [OF inv' own assms(4,3)])
  show inv1: "inv st1" unfolding st1_def by (rule inv_set [OF inv' own assms(3)])
  have own1: "fresh st \<in> owned st1" unfolding st1_def by (rule subsetD [OF owned_set [OF inv' own assms(3)] own])
  show "inv (set_first (fresh st) b st1)" unfolding set_first_def by (rule inv_write [OF inv1 own1])
  show v: "view t st1 k = stored now ttl bs t" if "now \<le> t"
    using set_view [OF inv' own assms(4,3,2) that] bs by (simp add: st1_def)
  show "view t (set_first (fresh st) b st1) k = stored now ttl bs t" if "now \<le> t"
    using v [OF that] view_write [OF inv1 own1] by (simp add: set_first_def)
qed

lemma run_get:
  fixes bs :: bytes
  assumes "inv st" "k \<noteq> []" "view now st k = Some bs"
  defines "st1 \<equiv> snd (Get now Background k st)" and "r \<equiv> fst (Get now Background k st)"
  shows "holds r bs st1" "inv st1" "inv (set_first (projr r) b st1)"
    and "now \<le> t \<Longrightarrow> view t (set_first (projr r) b st1) k = view t st k"
proof -
  obtain l where r: "r = Inr l" and own: "l \<in> owned st1" and bs: "heap st1 l = bs"
    using get_hit [OF assms(1-3)] unfolding st1_def r_def by blast
  then show "holds r bs st1" by (simp add: holds_def)
  show inv1: "inv st1" unfolding st1_def by (rule inv_get [OF assms(1)])
  show "inv (set_first (projr r) b st1)" using inv_write [OF inv1 own] by (simp add: r set_first_def)
  show "view t (set_first (projr r) b st1) k = view t st k" if "now \<le> t"
    using view_write [OF inv1 own] get_keeps [OF assms(1) that] by (simp add: r set_first_def st1_def)
qed

lemma contract_passes:
  assumes "mono clock" "0 < clock 0" "inv st" "view (clock 0) st ''missing'' = None" "ttl_ok 0" "ttl_ok (-1000000000)"
  shows "cachetest_Run Get Set Delete clock st"
proof -
  have t: "clock i \<le> clock j" if "i \<le> j" for i j using monoD [OF assms(1) that] .
  have pos: "0 < clock 1" "0 < clock 7" using assms(2) t [of 0 1] t [of 0 7] by auto
  let ?k = "''key''" and ?v = "bytes_of ''value''"
  let ?st1 = "snd (Get (clock 0) Background ''missing'' st)"
  let ?set = "Set (clock 1) Background ?k (fresh ?st1) 0 (caller_alloc ?v ?st1)"
  let ?st2 = "set_first (fresh ?st1) (of_char CHR ''X'') (snd ?set)"
  let ?get = "Get (clock 2) Background ?k ?st2"
  let ?st3 = "set_first (projr (fst ?get)) (of_char CHR ''Y'') (snd ?get)"
  let ?st4 = "snd (Get (clock 3) Background ?k ?st3)"
  let ?st5 = "snd (Delete (clock 4) Background ?k ?st4)"
  let ?st6 = "snd (Get (clock 5) Background ?k ?st5)"
  let ?st7 = "snd (Delete (clock 6) Background ?k ?st6)"
  let ?st8 = "snd (Set (clock 7) Background ?k (fresh ?st7) (-1000000000) (caller_alloc (bytes_of ''deleted'') ?st7))"
  have i1: "inv ?st1" by (rule inv_get [OF assms(3)])
  note set = run_set [where k = ?k and bs = ?v, OF i1 pos(1) assms(5)]
  have v2: "view (clock j) ?st2 ?k = Some ?v" if "1 \<le> j" for j
    using set(5) [OF _ t [OF that]] by (simp add: stored_def)
  have i2: "inv ?st2" by (rule set(3)) simp
  note get = run_get [OF i2 _ v2 [of 2]]
  have v3: "view (clock 3) ?st3 ?k = Some ?v" using get(4) [OF _ _ t [of 2 3]] v2 [of 3] by simp
  have i3: "inv ?st3" by (rule get(3)) simp_all
  note get' = run_get [OF i3 _ v3]
  have i4: "inv ?st4" by (rule get'(2)) simp
  have i5: "inv ?st5" by (rule inv_delete [OF i4])
  have i6: "inv ?st6" by (rule inv_get [OF i5])
  have i7: "inv ?st7" by (rule inv_delete [OF i6])
  note set' = run_set [where k = ?k and bs = "bytes_of ''deleted''", OF i7 pos(2) assms(6)]
  have "misses (fst (Get (clock 0) Background ''missing'' st))" using get_miss [OF assms(3) _ assms(4)] by simp
  moreover have "fst ?set = None" by (rule set(1)) simp
  moreover have "holds (fst ?get) ?v (snd ?get)" by (rule get(1)) simp_all
  moreover have "holds (fst (Get (clock 3) Background ?k ?st3)) ?v ?st4" by (rule get'(1)) simp
  moreover have "fst (Delete (clock 4) Background ?k ?st4) = None" "fst (Delete (clock 6) Background ?k ?st6) = None"
    using delete_ok [OF i4] delete_ok [OF i6] by simp_all
  moreover have "misses (fst (Get (clock 5) Background ?k ?st5))"
    using get_miss [OF i5] delete_view [OF i4 _ t [of 4 5]] by simp
  moreover have "fst (Set (clock 7) Background ?k (fresh ?st7) (-1000000000) (caller_alloc (bytes_of ''deleted'') ?st7)) = None"
    by (rule set'(1)) simp
  moreover have "misses (fst (Get (clock 8) Background ?k ?st8))"
    using get_miss [OF set'(2)] set'(4) [OF _ t [of 7 8]] by (simp add: stored_def)
  ultimately show ?thesis unfolding cachetest_Run_def Let_def case_prod_beta by simp
qed

end

text \<open>C9. The suite passes, its writes to the slices it stored and got included, on the in-memory cache and,
  over a server that behaves as documented, on the Redis adapter, whatever the client does with the
  arrays it is given: in every state that has nothing under the key the suite expects to be absent,
  whatever time passes between its calls.\<close>

theorem cache_contract:
  assumes "mono clock" "0 < clock 0"
  shows "(alias_inv st \<and> memory_view (clock 0) (deref st) ''missing'' = None \<longrightarrow>
          cachetest_Run hMemory_Get hMemory_Set hMemory_Delete clock st)
     \<and> (hredis_server (hclient c) sview kept \<and> hredis_inv kept r
        \<and> sview (clock 0) (server r) (heap r) (hredis_key c ''missing'') = None \<longrightarrow>
          cachetest_Run (hRedis_Get c) (hRedis_Set c) (hRedis_Delete c) clock r)"
  using hmemory.contract_passes [OF assms, of st] slice_cache.contract_passes [OF hredis_slice_cache assms, of c sview kept r]
  by (auto simp: redis_ttl_def hredis_view_def)

text \<open>A client that keeps the arrays it is given and hands them out satisfies the hypotheses.\<close>

definition demo_hredis :: "alias_server hRedisCache" where
  "demo_hredis = \<lparr>hclient = alias_client, hprefix = ''app:''\<rparr>"

definition demo_rstate :: "alias_server rstate" where
  "demo_rstate = \<lparr>heap = (\<lambda>_. []), fresh = 0, owned = {}, server = Map.empty\<rparr>"

theorem cache_contract_witness:
  "cachetest_Run hMemory_Get hMemory_Set hMemory_Delete (\<lambda>i. 5 + int i) alias_init
   \<and> cachetest_Run (hRedis_Get demo_hredis) (hRedis_Set demo_hredis) (hRedis_Delete demo_hredis) (\<lambda>i. 5 + int i) demo_rstate"
  using cache_contract [of "\<lambda>i. 5 + int i" alias_init demo_hredis alias_view alias_kept demo_rstate] alias_client_ok
  by (simp add: mono_def alias_init_def alias_inv_def memory_view_def deref_def demo_hredis_def demo_rstate_def
        hredis_inv_def alias_kept_def alias_view_def)

end
