(* ===== verification/Cachex_Concurrent.thy ===== *)
theory Cachex_Concurrent
  imports Cachex
begin

text \<open>
  The in-memory cache under concurrent use (\<^verbatim>\<open>cachex/memory.go\<close>). Any number of goroutines
  run \<^verbatim>\<open>Get\<close>, \<^verbatim>\<open>Set\<close> and \<^verbatim>\<open>Delete\<close>; a step is one critical section of the mutex or one piece of
  code between two of them, and the clock advances in between. \<^verbatim>\<open>Get\<close> has two critical sections,
  so an entry may be replaced between the read and the eviction: the comparison of expiry times
  is what makes the eviction harmless, and the theorem below is that it is.
\<close>

datatype outcome = Hit bytes | Miss | Ok | Failed

datatype pc =
    Idle
  | GetRead string
  | GetCheck string entry
  | GetEvict string entry
  | SetTime string bytes duration
  | SetWrite string entry
  | DelWrite string
  | Done outcome

record sys =
  mem :: Memory
  clock :: time
  pcs :: "nat \<Rightarrow> pc"

text \<open>What a step does to the contents: nothing, a write, an erasure, or only time passing.\<close>

datatype label = Tau | Tick | Write string entry | Erase string

definition at_pc :: "sys \<Rightarrow> nat \<Rightarrow> pc \<Rightarrow> sys" where
  "at_pc s i p = s\<lparr>pcs := (pcs s)(i := p)\<rparr>"

definition new_item :: "time \<Rightarrow> bytes \<Rightarrow> duration \<Rightarrow> entry" where
  "new_item now v ttl = \<lparr>value = v, expiresAt = (if 0 < ttl then now + ttl else 0)\<rparr>"

inductive mstep :: "sys \<Rightarrow> label \<Rightarrow> sys \<Rightarrow> bool" where
  tick: "clock s \<le> t \<Longrightarrow> mstep s Tick (s\<lparr>clock := t\<rparr>)"
| call_fails: "pcs s i = Idle \<Longrightarrow> mstep s Tau (at_pc s i (Done Failed))"
| get_call: "pcs s i = Idle \<Longrightarrow> mstep s Tau (at_pc s i (GetRead k))"
| get_absent: "\<lbrakk>pcs s i = GetRead k; entries (mem s) k = None\<rbrakk> \<Longrightarrow> mstep s Tau (at_pc s i (Done Miss))"
| get_item: "\<lbrakk>pcs s i = GetRead k; entries (mem s) k = Some e\<rbrakk> \<Longrightarrow> mstep s Tau (at_pc s i (GetCheck k e))"
| get_expired: "\<lbrakk>pcs s i = GetCheck k e; \<not> IsZero (expiresAt e); \<not> clock s < expiresAt e\<rbrakk>
    \<Longrightarrow> mstep s Tau (at_pc s i (GetEvict k e))"
| get_hit: "\<lbrakk>pcs s i = GetCheck k e; IsZero (expiresAt e) \<or> clock s < expiresAt e\<rbrakk>
    \<Longrightarrow> mstep s Tau (at_pc s i (Done (Hit (value e))))"
| get_evict: "pcs s i = GetEvict k e \<Longrightarrow> mstep s Tau (at_pc (s\<lparr>mem := evict k e (mem s)\<rparr>) i (Done Miss))"
| set_call: "\<lbrakk>pcs s i = Idle; k \<noteq> []; 0 \<le> ttl\<rbrakk> \<Longrightarrow> mstep s Tau (at_pc s i (SetTime k v ttl))"
| set_time: "pcs s i = SetTime k v ttl \<Longrightarrow> mstep s Tau (at_pc s i (SetWrite k (new_item (clock s) v ttl)))"
| set_write: "pcs s i = SetWrite k e \<Longrightarrow>
    mstep s (Write k e) (at_pc (s\<lparr>mem := (mem s)\<lparr>entries := (entries (mem s))(k \<mapsto> e)\<rparr>\<rparr>) i (Done Ok))"
| del_call: "\<lbrakk>pcs s i = Idle; k \<noteq> []\<rbrakk> \<Longrightarrow> mstep s Tau (at_pc s i (DelWrite k))"
| del_write: "pcs s i = DelWrite k \<Longrightarrow>
    mstep s (Erase k) (at_pc (s\<lparr>mem := (mem s)\<lparr>entries := (entries (mem s))(k := None)\<rparr>\<rparr>) i (Done Ok))"
| return: "pcs s i = Done r \<Longrightarrow> mstep s Tau (at_pc s i Idle)"

definition init :: "time \<Rightarrow> sys" where
  "init t = \<lparr>mem = NewMemory, clock = t, pcs = (\<lambda>_. Idle)\<rparr>"

text \<open>A run with the list of the states it visits, the last one first.\<close>

inductive run :: "sys \<Rightarrow> sys list \<Rightarrow> bool" where
  start: "run s [s]"
| step: "\<lbrakk>run s (u # tr); mstep u l u'\<rbrakk> \<Longrightarrow> run s (u' # u # tr)"

inductive_cases run_Nil: "run s []"

lemma at_pc_simps [simp]:
  "mem (at_pc s i p) = mem s" "clock (at_pc s i p) = clock s"
  "pcs (at_pc s i p) j = (if j = i then p else pcs s j)"
  by (simp_all add: at_pc_def)

text \<open>A goroutine about to evict has seen its item expired, and time does not go back.\<close>

definition evict_inv :: "sys \<Rightarrow> bool" where
  "evict_inv s \<longleftrightarrow> (\<forall>i k e. pcs s i = GetEvict k e \<longrightarrow> \<not> live (clock s) e)"

lemma evict_inv_init: "evict_inv (init t)"
  by (simp add: evict_inv_def init_def)

lemma mstep_evict_inv: "mstep s l s' \<Longrightarrow> evict_inv s \<Longrightarrow> evict_inv s'"
  by (induction rule: mstep.induct) (fastforce simp: evict_inv_def live_def split: if_splits)+

lemma run_evict_inv: "run s tr \<Longrightarrow> evict_inv s \<Longrightarrow> evict_inv (hd tr)"
  by (induction rule: run.induct) (auto dest: mstep_evict_inv)

lemma mstep_clock: "mstep s l s' \<Longrightarrow> clock s \<le> clock s'"
  by (induction rule: mstep.induct) auto

text \<open>Evicting an item that is dead removes only an entry that is dead.\<close>

lemma evict_view:
  assumes "\<not> live t e" "t \<le> t'"
  shows "memory_view t' (evict k e c) = memory_view t' c"
proof -
  have "\<not> live t' e" using assms live_later by blast
  then show ?thesis
    by (auto simp: evict_def memory_view_def live_def fun_eq_iff split: option.splits)
qed

fun spec_step :: "label \<Rightarrow> time \<Rightarrow> (string \<Rightarrow> bytes option) \<Rightarrow> (string \<Rightarrow> bytes option)" where
  "spec_step Tau t m = m"
| "spec_step Tick t m = m"
| "spec_step (Write k e) t m = m(k := if live t e then Some (value e) else None)"
| "spec_step (Erase k) t m = m(k := None)"

lemma mstep_view:
  assumes "mstep s l s'" "evict_inv s" "clock s \<le> t"
  shows "memory_view t (mem s') = spec_step l t (memory_view t (mem s))"
  using assms by (induction rule: mstep.induct) (auto simp: evict_inv_def intro: evict_view)

section \<open>Properties\<close>

text \<open>C5. Concurrent refinement: from an empty cache, however the goroutines interleave, every
  step acts on what present and future readers can see exactly as its label says on an abstract
  map with expiry: only the write section of a \<^verbatim>\<open>Set\<close> and the erase section of a \<^verbatim>\<open>Delete\<close> change
  it, and the eviction a \<^verbatim>\<open>Get\<close> performs after releasing the lock never removes a live value.\<close>

theorem memory_concurrent_refinement:
  assumes "run (init t0) (u # tr)" "mstep u l u'" "clock u \<le> t"
  shows "memory_view t (mem u') = spec_step l t (memory_view t (mem u))"
proof -
  have "evict_inv u" using run_evict_inv [OF assms(1) evict_inv_init] by simp
  from mstep_view [OF assms(2) this assms(3)] show ?thesis .
qed

text \<open>A concrete interleaving: goroutine 0 stores a value that expires at 15, goroutine 1 reads
  it, goroutine 2 replaces it by one that does not expire, the clock passes 15, and goroutine 1
  goes on to evict.\<close>

definition old_item :: entry where "old_item = \<lparr>value = [1], expiresAt = 15\<rparr>"
definition new_value :: entry where "new_value = \<lparr>value = [2], expiresAt = 0\<rparr>"

definition s_stored :: sys where
  "s_stored = at_pc ((init 10)\<lparr>mem := \<lparr>entries = [''a'' \<mapsto> old_item]\<rparr>\<rparr>) 0 (Done Ok)"

lemma run_stored: "\<exists>tr. run (init 10) (s_stored # tr)"
proof -
  have "run (init 10) [init 10]" by (rule run.start)
  from run.step [OF this set_call [of "init 10" 0 "''a''" 5 "[1]"]]
  have "run (init 10) [at_pc (init 10) 0 (SetTime ''a'' [1] 5), init 10]" by (simp add: init_def)
  from run.step [OF this set_time [of _ 0 "''a''" "[1]" 5]]
  have "run (init 10) [at_pc (init 10) 0 (SetWrite ''a'' old_item),
          at_pc (init 10) 0 (SetTime ''a'' [1] 5), init 10]"
    by (simp add: init_def new_item_def old_item_def at_pc_def)
  from run.step [OF this set_write [of _ 0 "''a''" old_item]] show ?thesis
    by (auto simp: s_stored_def init_def at_pc_def NewMemory_def)
qed

text \<open>The states of the interleaving, the last one first.\<close>

definition race :: "sys list" where
  "race =
    (let s1 = at_pc s_stored 1 (GetRead ''a'');
         s2 = at_pc s1 1 (GetCheck ''a'' old_item);
         s3 = at_pc s2 2 (SetTime ''a'' [2] 0);
         s4 = at_pc s3 2 (SetWrite ''a'' new_value);
         s5 = at_pc (s4\<lparr>mem := \<lparr>entries = [''a'' \<mapsto> new_value]\<rparr>\<rparr>) 2 (Done Ok);
         s6 = s5\<lparr>clock := 20\<rparr>;
         s7 = at_pc s6 1 (GetEvict ''a'' old_item);
         s8 = at_pc s7 1 (Done Miss)
     in [s8, s7, s6, s5, s4, s3, s2, s1])"

lemma run_stepI: "\<lbrakk>run s (u # tr); mstep u l u'; u' = v\<rbrakk> \<Longrightarrow> run s (v # u # tr)"
  using run.step by blast

lemma run_race: "run (last race) race"
  unfolding race_def Let_def
  apply simp
  apply (rule run_stepI, rule run_stepI, rule run_stepI, rule run_stepI, rule run_stepI,
         rule run_stepI, rule run_stepI, rule run.start)
        apply (rule get_item [of _ 1 "''a''" old_item], simp, simp add: s_stored_def, simp)
      apply (rule set_call [of _ 2 "''a''" 0 "[2]"], simp add: s_stored_def init_def, simp, simp, simp)
     apply (rule set_time [of _ 2 "''a''" "[2]" 0], simp, simp add: at_pc_def new_item_def new_value_def)
    apply (rule set_write [of _ 2 "''a''" new_value], simp, simp add: at_pc_def s_stored_def)
   apply (rule tick [of _ 20], simp add: s_stored_def init_def, simp)
  apply (rule get_expired [of _ 1 "''a''" old_item], simp, simp add: old_item_def IsZero_def, simp add: old_item_def, simp)
  apply (rule get_evict [of _ 1 "''a''" old_item], simp, simp add: at_pc_def evict_def old_item_def new_value_def)
  done

lemma run_hd: "run s tr \<Longrightarrow> tr \<noteq> [] \<and> last tr = s"
  by (induction rule: run.induct) auto

lemma run_trans: "run u tr \<Longrightarrow> run s (u # us) \<Longrightarrow> run s (tr @ us)"
  by (induction rule: run.induct) (auto intro: run.step)

lemma run_race_from_init: "\<exists>us. run (init 10) (race @ us)"
proof -
  obtain us where us: "run (init 10) (s_stored # us)" using run_stored by blast
  have "mstep s_stored Tau (last race)"
    by (auto simp: race_def Let_def s_stored_def init_def intro: get_call)
  from run.step [OF us this] have "run (init 10) (last race # s_stored # us)" .
  from run_trans [OF run_race this] show ?thesis by blast
qed

theorem memory_concurrent_refinement_witness:
  "memory_view 20 (mem (race ! 0)) = spec_step Tau 20 (memory_view 20 (mem (race ! 1)))
   \<and> (\<exists>e. pcs (race ! 1) 1 = GetEvict ''a'' e) \<and> memory_view 20 (mem (race ! 0)) ''a'' = Some [2]"
proof -
  obtain us where us: "run (init 10) (race @ us)" using run_race_from_init by blast
  define u u' where "u = race ! 1" and "u' = race ! 0"
  have split: "race = u' # u # drop 2 race" by (simp add: u_def u'_def race_def Let_def)
  have "run (init 10) (u' # u # drop 2 race @ us)" using us split by (metis append_Cons)
  then have r: "run (init 10) (u # drop 2 race @ us)" by (auto elim: run.cases)
  have "clock u \<le> 20" and pc: "pcs u 1 = GetEvict ''a'' old_item" and v: "memory_view 20 (mem u') ''a'' = Some [2]"
    by (simp_all add: u_def u'_def race_def Let_def s_stored_def init_def memory_view_def live_def new_value_def IsZero_def)
  have "u' = at_pc (u\<lparr>mem := evict ''a'' old_item (mem u)\<rparr>) 1 (Done Miss)"
    by (simp add: u_def u'_def race_def Let_def at_pc_def evict_def old_item_def new_value_def)
  then have l: "mstep u Tau u'" using get_evict [OF pc] by simp
  from memory_concurrent_refinement [OF r l \<open>clock u \<le> 20\<close>] pc v show ?thesis
    by (auto simp: u_def u'_def)
qed

text \<open>Where a \<^verbatim>\<open>Get\<close> of key \<open>k\<close> by goroutine \<open>i\<close> can be, given the states visited since its call.\<close>

definition get_progress :: "nat \<Rightarrow> string \<Rightarrow> sys list \<Rightarrow> bool" where
  "get_progress i k tr \<longleftrightarrow>
     (case pcs (hd tr) i of
        GetRead k' \<Rightarrow> k' = k
      | GetCheck k' e \<Rightarrow> k' = k \<and> (\<exists>u\<in>set tr. entries (mem u) k = Some e \<and> clock u \<le> clock (hd tr))
      | GetEvict k' e \<Rightarrow> k' = k
      | Done (Hit v) \<Rightarrow> \<exists>u\<in>set tr. memory_view (clock u) (mem u) k = Some v
      | Done Miss \<Rightarrow> True
      | _ \<Rightarrow> False)"

lemma get_progress_step:
  assumes "get_progress i k (u # tr)" "mstep u l u'" "pcs u' i \<noteq> Idle"
  shows "get_progress i k (u' # u # tr)"
  using assms(2,1,3)
proof (cases rule: mstep.cases)
  case (get_hit j k' e)
  show ?thesis
  proof (cases "j = i")
    case True
    with get_hit assms(1) obtain w where w: "w \<in> set (u # tr)" "entries (mem w) k = Some e" "clock w \<le> clock u"
      by (auto simp: get_progress_def)
    moreover have "live (clock w) e" using get_hit w(3) by (auto simp: live_def)
    ultimately have "memory_view (clock w) (mem w) k = Some (value e)" by (simp add: memory_view_def)
    with True get_hit w(1) show ?thesis by (auto simp: get_progress_def)
  next
    case False
    with get_hit assms(1) show ?thesis
      by (auto simp: get_progress_def split: pc.splits outcome.splits)
  qed
qed (auto simp: get_progress_def split: pc.splits outcome.splits if_splits)

lemma get_progress_run:
  "\<lbrakk>run s tr; pcs s i = GetRead k; \<forall>u\<in>set tr. pcs u i \<noteq> Idle\<rbrakk> \<Longrightarrow> get_progress i k tr"
proof (induction rule: run.induct)
  case (start s)
  then show ?case by (simp add: get_progress_def)
next
  case (step s u tr l u')
  then show ?case by (intro get_progress_step) auto
qed

text \<open>C6. Hits are linearizable: if a \<^verbatim>\<open>Get\<close> returns a value, then at some moment between its call
  and its return the cache held that value, unexpired, under the key, whatever the other
  goroutines did.\<close>

theorem memory_hit_linearizable:
  assumes "run s tr" "pcs s i = GetRead k" "\<forall>u\<in>set tr. pcs u i \<noteq> Idle" "pcs (hd tr) i = Done (Hit v)"
  shows "\<exists>u\<in>set tr. memory_view (clock u) (mem u) k = Some v"
  using get_progress_run [OF assms(1-3)] assms(4) by (simp add: get_progress_def)

theorem memory_hit_linearizable_witness:
  "\<exists>tr. run (at_pc s_stored 1 (GetRead ''a'')) tr \<and> pcs (hd tr) 1 = Done (Hit [1]) \<and>
     (\<exists>u\<in>set tr. memory_view (clock u) (mem u) ''a'' = Some [1])"
proof -
  let ?s1 = "at_pc s_stored 1 (GetRead ''a'')"
  let ?s2 = "at_pc ?s1 1 (GetCheck ''a'' old_item)"
  let ?s3 = "at_pc ?s2 1 (Done (Hit (value old_item)))"
  have 1: "mstep ?s1 Tau ?s2" by (rule get_item) (simp_all add: s_stored_def)
  have 2: "mstep ?s2 Tau ?s3"
    by (rule get_hit) (simp_all add: s_stored_def init_def old_item_def)
  have r: "run ?s1 [?s3, ?s2, ?s1]"
    by (rule run.step [OF run.step [OF run.start 1] 2])
  have pc: "pcs ?s1 1 = GetRead ''a''" "\<forall>u\<in>set [?s3, ?s2, ?s1]. pcs u 1 \<noteq> Idle"
    "pcs (hd [?s3, ?s2, ?s1]) 1 = Done (Hit [1])"
    by (simp_all add: old_item_def)
  from memory_hit_linearizable [OF r pc] r pc(3) show ?thesis by blast
qed

text \<open>Misses are not: there is an interleaving, reachable from an empty cache, in which a \<^verbatim>\<open>Get\<close>
  reports a miss although the key held an unexpired value in every state from its call to its
  return (the item it read expired after being replaced).\<close>

theorem memory_spurious_miss:
  "\<exists>tr us. run (init 10) (tr @ us) \<and> run (last tr) tr
     \<and> pcs (last tr) 1 = GetRead ''a'' \<and> pcs (hd tr) 1 = Done Miss
     \<and> list_all (\<lambda>u. memory_view (clock u) (mem u) ''a'' \<noteq> None) tr"
proof -
  obtain us where "run (init 10) (race @ us)" using run_race_from_init by blast
  moreover have "pcs (last race) 1 = GetRead ''a''" "pcs (hd race) 1 = Done Miss"
    by (simp_all add: race_def Let_def)
  moreover have "list_all (\<lambda>u. memory_view (clock u) (mem u) ''a'' \<noteq> None) race"
    by (simp add: race_def Let_def s_stored_def init_def memory_view_def live_def old_item_def new_value_def IsZero_def)
  ultimately show ?thesis using run_race by blast
qed

end
