(* ===== verification/Go_Float.thy ===== *)
theory Go_Float
  imports Complex_Main Go_Strconv
begin

text \<open>
  IEEE double precision as Go's \<^verbatim>\<open>float64\<close> uses it: a value is not-a-number, an infinity or a
  rational (the two zeros are one value, since no modelled code can tell them apart), and an
  operation rounds its exact result to the nearest representable value, ties to even, and to
  infinity beyond the range. Operations are not fused.
\<close>

datatype f64 = NaN | PInf | NInf | Fin rat

definition round_half_even :: "rat \<Rightarrow> int" where
  "round_half_even q =
     (let n = \<lfloor>q\<rfloor>; d = q - of_int n
      in if d < 1 / 2 then n else if 1 / 2 < d then n + 1 else if even n then n else n + 1)"

text \<open>The binary exponent: \<open>2 powi ilog2 x \<le> x < 2 powi (ilog2 x + 1)\<close> for positive \<open>x\<close>.\<close>

fun bits :: "nat \<Rightarrow> nat" where
  "bits n = (if n = 0 then 0 else Suc (bits (n div 2)))"

declare bits.simps [simp del]

definition ilog2 :: "rat \<Rightarrow> int" where
  "ilog2 x =
     (let (p, q) = quotient_of x; e = int (bits (nat p)) - int (bits (nat q))
      in if 2 powi e \<le> x then e else e - 1)"

text \<open>The weight of the last of the 53 digits, not below the weight of the least subnormal.\<close>

definition ulp :: "rat \<Rightarrow> rat" where
  "ulp x = 2 powi (max (ilog2 x - 52) (- 1074))"

definition round_mag :: "rat \<Rightarrow> rat" where
  "round_mag x = (if x = 0 then 0 else of_int (round_half_even (x / ulp x)) * ulp x)"

definition rnd :: "rat \<Rightarrow> f64" where
  "rnd x =
     (let r = round_mag \<bar>x\<bar>
      in if 2 ^ 1024 \<le> r then (if x < 0 then NInf else PInf) else Fin (if x < 0 then - r else r))"

definition f_of_int :: "int \<Rightarrow> f64" where
  "f_of_int n = rnd (of_int n)"

section \<open>Arithmetic and comparison\<close>

fun sgn_of :: "f64 \<Rightarrow> int" where
  "sgn_of NaN = 0" | "sgn_of PInf = 1" | "sgn_of NInf = - 1" | "sgn_of (Fin x) = (if 0 < x then 1 else if x < 0 then - 1 else 0)"

fun f_add :: "f64 \<Rightarrow> f64 \<Rightarrow> f64" where
  "f_add (Fin x) (Fin y) = rnd (x + y)"
| "f_add PInf (Fin y) = PInf" | "f_add (Fin x) PInf = PInf" | "f_add PInf PInf = PInf"
| "f_add NInf (Fin y) = NInf" | "f_add (Fin x) NInf = NInf" | "f_add NInf NInf = NInf"
| "f_add _ _ = NaN"

fun f_neg :: "f64 \<Rightarrow> f64" where
  "f_neg NaN = NaN" | "f_neg PInf = NInf" | "f_neg NInf = PInf" | "f_neg (Fin x) = Fin (- x)"

definition f_sub :: "f64 \<Rightarrow> f64 \<Rightarrow> f64" where
  "f_sub x y = f_add x (f_neg y)"

fun f_mul :: "f64 \<Rightarrow> f64 \<Rightarrow> f64" where
  "f_mul NaN _ = NaN"
| "f_mul _ NaN = NaN"
| "f_mul (Fin x) (Fin y) = rnd (x * y)"
| "f_mul x y = (let s = sgn_of x * sgn_of y in if s = 0 then NaN else if 0 < s then PInf else NInf)"

fun f_less :: "f64 \<Rightarrow> f64 \<Rightarrow> bool" where
  "f_less (Fin x) (Fin y) \<longleftrightarrow> x < y"
| "f_less NInf (Fin _) \<longleftrightarrow> True" | "f_less NInf PInf \<longleftrightarrow> True" | "f_less (Fin _) PInf \<longleftrightarrow> True"
| "f_less _ _ \<longleftrightarrow> False"

definition f_le :: "f64 \<Rightarrow> f64 \<Rightarrow> bool" where
  "f_le x y \<longleftrightarrow> f_less x y \<or> (x = y \<and> x \<noteq> NaN)"

text \<open>
  Conversion to a 64-bit integer drops the fraction. When the value is not representable the
  result is implementation-dependent (Go specification, conversions): the parameter \<open>impl\<close>.
\<close>

definition trunc_rat :: "rat \<Rightarrow> int" where
  "trunc_rat x = (if x < 0 then \<lceil>x\<rceil> else \<lfloor>x\<rfloor>)"

definition to_int64 :: "(f64 \<Rightarrow> int) \<Rightarrow> f64 \<Rightarrow> int" where
  "to_int64 impl f =
     (case f of
        Fin x \<Rightarrow> if min_int64 \<le> trunc_rat x \<and> trunc_rat x \<le> max_int64 then trunc_rat x else impl f
      | _ \<Rightarrow> impl f)"

section \<open>Laws of rounding\<close>

lemma ulp_pos [simp]: "0 < ulp x"
  by (simp add: ulp_def)

lemma round_half_even_nonneg: "0 \<le> q \<Longrightarrow> 0 \<le> round_half_even q"
  by (auto simp: round_half_even_def Let_def)

lemma round_mag_nonneg: "0 \<le> x \<Longrightarrow> 0 \<le> round_mag x"
  using ulp_pos [of x]
  by (auto simp: round_mag_def less_imp_le intro!: mult_nonneg_nonneg round_half_even_nonneg divide_nonneg_pos)

lemma round_half_even_int [simp]: "round_half_even (of_int n) = n"
  by (simp add: round_half_even_def)

lemma bits_bounds: "0 < n \<Longrightarrow> 2 ^ (bits n - 1) \<le> n \<and> n < 2 ^ bits n \<and> 0 < bits n"
proof (induction n rule: bits.induct)
  case (1 n)
  show ?case
  proof (cases "n div 2 = 0")
    case True
    with 1(2) have "n = 1" by auto
    then show ?thesis by (simp add: bits.simps)
  next
    case False
    with 1 have IH: "2 ^ (bits (n div 2) - 1) \<le> n div 2" "n div 2 < 2 ^ bits (n div 2)" "0 < bits (n div 2)"
      by auto
    have b: "bits n = Suc (bits (n div 2))" using 1(2) by (subst bits.simps) simp
    obtain m where m: "bits (n div 2) = Suc m" using IH(3) by (cases "bits (n div 2)") auto
    with IH b show ?thesis by auto
  qed
qed

text \<open>Rounding keeps the sign.\<close>

lemma rnd_nonneg: "0 \<le> x \<Longrightarrow> rnd x = PInf \<or> (\<exists>r. rnd x = Fin r \<and> 0 \<le> r)"
  using round_mag_nonneg [of x] by (auto simp: rnd_def Let_def)

lemma rnd_not_NaN [simp]: "rnd x \<noteq> NaN"
  by (simp add: rnd_def Let_def)

text \<open>Integers of at most 53 binary digits are exact.\<close>

lemma ilog2_int: "0 < n \<Longrightarrow> ilog2 (of_int n) = int (bits (nat n)) - 1"
proof -
  assume n: "0 < n"
  then have b: "2 ^ (bits (nat n) - 1) \<le> nat n" "0 < bits (nat n)"
    using bits_bounds [of "nat n"] by auto
  have one: "bits 1 = 1" by (simp add: bits.simps)
  have "(2::rat) powi (int (bits (nat n)) - 1) = of_nat (2 ^ (bits (nat n) - 1))"
    using b(2) by (simp add: power_int_def nat_diff_distrib)
  also have "\<dots> \<le> of_nat (nat n)" using b(1) by (simp only: of_nat_le_iff)
  also have "\<dots> = of_int n" using n by simp
  finally show ?thesis using one n by (simp add: ilog2_def quotient_of_int)
qed

lemma round_mag_multiple: "\<lbrakk>0 < x; x = of_int m * ulp x\<rbrakk> \<Longrightarrow> round_mag x = x"
proof -
  assume "0 < x" and x: "x = of_int m * ulp x"
  then have "x / ulp x = of_int m" by (metis nonzero_eq_divide_eq order_less_irrefl ulp_pos)
  then show ?thesis using x \<open>0 < x\<close> by (simp add: round_mag_def)
qed

lemma round_mag_int:
  assumes "0 \<le> n" "n \<le> 2 ^ 53"
  shows "round_mag (of_int n) = of_int n"
proof -
  consider "n = 0" | "0 < n" "n < 2 ^ 53" | "n = 2 ^ 53" using assms by linarith
  then show ?thesis
  proof cases
    case 1
    then show ?thesis by (simp add: round_mag_def)
  next
    case 2
    then have "2 ^ (bits (nat n) - 1) \<le> nat n" "0 < bits (nat n)"
      using bits_bounds [of "nat n"] by auto
    moreover have "nat n < 2 ^ 53" using 2 by (simp add: nat_less_iff)
    ultimately have "(2::nat) ^ (bits (nat n) - 1) < 2 ^ 53" by linarith
    then have "bits (nat n) - 1 < 53" by (rule power_less_imp_less_exp [rotated]) simp
    then have "bits (nat n) \<le> 53" by simp
    define k where "k = nat (- max (ilog2 (of_int n) - 52) (- 1074))"
    have "max (ilog2 (of_int n) - 52) (- 1074) = - int k"
      using \<open>bits (nat n) \<le> 53\<close> 2 by (simp add: k_def ilog2_int)
    then have u: "ulp (of_int n) = inverse (2 ^ k)" by (simp add: ulp_def power_int_minus)
    have "(of_int n :: rat) = of_int (n * 2 ^ k) * ulp (of_int n)" by (simp add: u)
    with 2 show ?thesis by (intro round_mag_multiple [of _ "n * 2 ^ k"]) simp_all
  next
    case 3
    have b: "bits (nat n) = 54" unfolding 3 by (simp add: bits.simps)
    have "0 < n" using 3 by simp
    then have "ilog2 (of_int n) = 53" by (simp only: ilog2_int b)
    then have "ulp (of_int n) = 2" by (simp add: ulp_def)
    then show ?thesis unfolding 3 by (intro round_mag_multiple [of _ "2 ^ 52"]) simp_all
  qed
qed

lemma f_of_int_exact:
  assumes "0 \<le> n" "n \<le> 2 ^ 53"
  shows "f_of_int n = Fin (of_int n)"
proof -
  have "(of_int n :: rat) \<le> of_int (2 ^ 53)" using assms(2) by (simp only: of_int_le_iff)
  also have "\<dots> < 2 ^ 1024" by simp
  finally show ?thesis using assms by (simp add: f_of_int_def rnd_def round_mag_int not_le)
qed

lemma round_half_even_error: "\<bar>of_int (round_half_even q) - q\<bar> \<le> 1 / 2"
proof -
  have "of_int \<lfloor>q\<rfloor> \<le> q" "q < of_int \<lfloor>q\<rfloor> + 1" by linarith+
  then show ?thesis by (auto simp: round_half_even_def Let_def abs_le_iff)
qed

lemma ulp_int: "0 < n \<Longrightarrow> ulp (of_int n) * 2 ^ 52 \<le> of_int n"
proof -
  assume n: "0 < n"
  define b where "b = bits (nat n)"
  have b: "2 ^ (b - 1) \<le> nat n" "0 < b" using bits_bounds [of "nat n"] n by (auto simp: b_def)
  have "ulp (of_int n) = 2 powi (int b - 53)" using b(2) n by (simp add: ulp_def ilog2_int b_def)
  then have "ulp (of_int n) * 2 ^ 52 = 2 powi (int b - 53) * 2 powi 52" by (simp add: power_int_def)
  also have "\<dots> = 2 powi (int b - 53 + 52)" by (rule power_int_add [symmetric]) simp
  also have "\<dots> = 2 powi int (b - 1)" using b(2) by (simp add: of_nat_diff)
  also have "\<dots> = of_nat (2 ^ (b - 1))" by simp
  also have "\<dots> \<le> of_nat (nat n)" using b(1) by (simp only: of_nat_le_iff)
  finally show ?thesis using n by simp
qed

text \<open>The relative error of rounding an integer is at most 2^-53.\<close>

lemma round_mag_int_error:
  assumes "0 < n"
  shows "\<bar>round_mag (of_int n) - of_int n\<bar> * 2 ^ 53 \<le> of_int n"
proof -
  let ?x = "of_int n :: rat" and ?u = "ulp (of_int n)"
  have u: "0 < ?u" by simp
  have "round_mag ?x - ?x = (of_int (round_half_even (?x / ?u)) - ?x / ?u) * ?u"
    using assms less_imp_neq [OF u] by (simp add: round_mag_def left_diff_distrib)
  then have "\<bar>round_mag ?x - ?x\<bar> = \<bar>of_int (round_half_even (?x / ?u)) - ?x / ?u\<bar> * ?u"
    using abs_of_pos [OF u] by (simp add: abs_mult)
  also have "\<dots> \<le> 1 / 2 * ?u" by (intro mult_right_mono round_half_even_error) (simp add: less_imp_le)
  finally have "\<bar>round_mag ?x - ?x\<bar> * 2 ^ 53 \<le> 1 / 2 * ?u * 2 ^ 53" by (rule mult_right_mono) simp
  then show ?thesis using ulp_int [OF assms] by simp
qed

lemma f_of_int_error:
  assumes "0 < n"
  shows "f_of_int n = PInf \<and> 2 ^ 63 \<le> n \<or> (\<exists>m. f_of_int n = Fin m \<and> \<bar>m - of_int n\<bar> * 2 ^ 53 \<le> of_int n)"
proof (cases "2 ^ 1024 \<le> round_mag (of_int n)")
  case True
  have "\<bar>round_mag (of_int n) - of_int n\<bar> \<le> \<bar>round_mag (of_int n) - of_int n\<bar> * 2 ^ 53" by simp
  then have "\<bar>round_mag (of_int n) - of_int n\<bar> \<le> of_int n" using round_mag_int_error [OF assms] by (rule order_trans)
  then have "round_mag (of_int n) \<le> 2 * of_int n" by (simp add: abs_le_iff)
  then have "(of_int (2 ^ 63) :: rat) \<le> of_int n" using True by simp
  then have "2 ^ 63 \<le> n" by (simp only: of_int_le_iff)
  with True assms show ?thesis by (simp add: f_of_int_def rnd_def)
next
  case False
  then show ?thesis using round_mag_int_error [OF assms] assms by (simp add: f_of_int_def rnd_def)
qed

lemma f_of_int_max_int64: "f_of_int max_int64 = Fin (2 ^ 63)"
proof -
  have b: "bits (nat max_int64) = 63" by (simp add: max_int64_def bits.simps)
  have "0 < max_int64" by (simp add: max_int64_def)
  then have "ilog2 (of_int max_int64) = 62" by (simp add: ilog2_int b)
  then have u: "ulp (of_int max_int64) = 1024" by (simp add: ulp_def)
  have "round_half_even (of_int max_int64 / 1024) = 2 ^ 53"
    by (simp add: round_half_even_def max_int64_def floor_divide_of_int_eq [of 9223372036854775807 1024, simplified])
  then show ?thesis by (simp add: f_of_int_def rnd_def round_mag_def u) (simp add: max_int64_def)
qed

section \<open>Laws of arithmetic on non-negative values\<close>

definition f_nonneg :: "f64 \<Rightarrow> bool" where
  "f_nonneg f \<longleftrightarrow> f = PInf \<or> (\<exists>r. f = Fin r \<and> 0 \<le> r)"

lemma f_nonneg_simps [simp]:
  "f_nonneg PInf" "f_nonneg (Fin r) \<longleftrightarrow> 0 \<le> r" "\<not> f_nonneg NaN" "\<not> f_nonneg NInf"
  by (auto simp: f_nonneg_def)

lemma f_nonneg_rnd: "0 \<le> x \<Longrightarrow> f_nonneg (rnd x)"
  using rnd_nonneg [of x] by (auto simp: f_nonneg_def)

lemma f_nonneg_of_int: "0 \<le> n \<Longrightarrow> f_nonneg (f_of_int n)"
  by (simp add: f_of_int_def f_nonneg_rnd)

lemma f_nonneg_add: "\<lbrakk>f_nonneg x; f_nonneg y\<rbrakk> \<Longrightarrow> f_nonneg (f_add x y)"
  by (cases x; cases y) (simp_all add: f_nonneg_rnd)

lemma f_nonneg_mul: "\<lbrakk>f_nonneg x; f_nonneg y\<rbrakk> \<Longrightarrow> f_nonneg (f_mul x y) \<or> f_mul x y = NaN"
  by (cases x; cases y) (simp_all add: f_nonneg_rnd Let_def)

lemma trunc_rat_nonneg: "0 \<le> x \<Longrightarrow> 0 \<le> trunc_rat x"
  by (simp add: trunc_rat_def)

end
