(* ===== verification/Retryx.thy ===== *)
theory Retryx
  imports Go_Float
begin

text \<open>
  \<^verbatim>\<open>retryx/retryx.go\<close>: the exponential backoff calculation. Durations are 64-bit integers, the
  computation is in double precision, and \<^verbatim>\<open>math.Pow\<close> is the parameter \<open>pow\<close>: the result of a
  library routine whose last digit is not specified. The random source is absent or the value
  it returns.
\<close>

record Config =
  BaseDelay :: duration
  Factor :: f64
  MaxDelay :: duration
  Jitter :: f64

text \<open>The multiplier \<^verbatim>\<open>1 - cfg.Jitter + (2 * cfg.Jitter * sample)\<close>.\<close>

definition jitter_mult :: "f64 \<Rightarrow> f64 \<Rightarrow> f64" where
  "jitter_mult j sample = f_add (f_sub (Fin 1) j) (f_mul (f_mul (Fin 2) j) sample)"

definition clamp_delay :: "Config \<Rightarrow> f64 \<Rightarrow> f64" where
  "clamp_delay cfg d =
     (if 0 < MaxDelay cfg \<and> f_less (f_of_int (MaxDelay cfg)) d then f_of_int (MaxDelay cfg) else d)"

definition to_duration :: "(f64 \<Rightarrow> int) \<Rightarrow> f64 \<Rightarrow> duration" where
  "to_duration impl d =
     (if f_less (f_of_int max_int64) d then max_int64 else to_int64 impl d)"

definition Delay ::
  "(f64 \<Rightarrow> f64 \<Rightarrow> f64) \<Rightarrow> (f64 \<Rightarrow> int) \<Rightarrow> Config \<Rightarrow> int \<Rightarrow> f64 option \<Rightarrow> unit goerr + duration" where
  "Delay pow impl cfg attempt random =
     (if BaseDelay cfg < 0 \<or> MaxDelay cfg < 0 then Inl (New ''retryx: delays must be non-negative'')
      else if f_le (Factor cfg) (Fin 0) then Inl (New ''retryx: factor must be positive'')
      else if f_less (Jitter cfg) (Fin 0) \<or> f_less (Fin 1) (Jitter cfg) then
        Inl (New ''retryx: jitter must be between 0 and 1'')
      else if attempt < 0 then Inl (New ''retryx: attempt must be non-negative'')
      else
        (let delay = f_mul (f_of_int (BaseDelay cfg)) (pow (Factor cfg) (f_of_int attempt))
         in if f_less (Fin 0) (Jitter cfg) then
              (let sample = (case random of None \<Rightarrow> Fin (1 / 2) | Some r \<Rightarrow> r)
               in if f_less sample (Fin 0) \<or> f_less (Fin 1) sample then
                    Inl (New ''retryx: random value must be between 0 and 1'')
                  else Inr (to_duration impl (clamp_delay cfg (f_mul delay (jitter_mult (Jitter cfg) sample)))))
            else Inr (to_duration impl (clamp_delay cfg delay))))"

section \<open>Lemmas\<close>

text \<open>The value before the clamp, where the arguments are accepted.\<close>

definition raw_delay :: "(f64 \<Rightarrow> f64 \<Rightarrow> f64) \<Rightarrow> Config \<Rightarrow> int \<Rightarrow> f64 option \<Rightarrow> f64" where
  "raw_delay pow cfg attempt random =
     (let delay = f_mul (f_of_int (BaseDelay cfg)) (pow (Factor cfg) (f_of_int attempt))
      in if f_less (Fin 0) (Jitter cfg)
         then f_mul delay (jitter_mult (Jitter cfg) (case random of None \<Rightarrow> Fin (1 / 2) | Some r \<Rightarrow> r))
         else delay)"

definition args_ok :: "Config \<Rightarrow> int \<Rightarrow> f64 option \<Rightarrow> bool" where
  "args_ok cfg attempt random \<longleftrightarrow>
     0 \<le> BaseDelay cfg \<and> 0 \<le> MaxDelay cfg \<and> \<not> f_le (Factor cfg) (Fin 0) \<and>
     \<not> f_less (Jitter cfg) (Fin 0) \<and> \<not> f_less (Fin 1) (Jitter cfg) \<and> 0 \<le> attempt \<and>
     (f_less (Fin 0) (Jitter cfg) \<longrightarrow>
        (\<forall>r. random = Some r \<longrightarrow> \<not> f_less r (Fin 0) \<and> \<not> f_less (Fin 1) r))"

lemma Delay_Inr [result_iff]:
  "Delay pow impl cfg attempt random = Inr d \<longleftrightarrow>
   args_ok cfg attempt random \<and> d = to_duration impl (clamp_delay cfg (raw_delay pow cfg attempt random))"
  by (cases random) (auto simp: Delay_def args_ok_def raw_delay_def Let_def)







lemma to_duration_Fin:
  assumes "0 \<le> x" "x \<noteq> 2 ^ 63"
  shows "to_duration impl (Fin x) = (if x < 2 ^ 63 then \<lfloor>x\<rfloor> else max_int64)"
proof (cases "x < 2 ^ 63")
  case True
  have "\<lfloor>x\<rfloor> < 2 ^ 63" using True by (simp add: floor_less_iff)
  moreover have "0 \<le> \<lfloor>x\<rfloor>" using assms by simp
  ultimately have "to_int64 impl (Fin x) = \<lfloor>x\<rfloor>"
    using assms by (simp add: to_int64_def trunc_rat_def min_int64_def max_int64_def)
  moreover have "\<not> f_less (f_of_int max_int64) (Fin x)" using True by (simp add: f_of_int_max_int64)
  ultimately show ?thesis using True by (simp add: to_duration_def)
next
  case False
  with assms have "2 ^ 63 < x" by simp
  then show ?thesis using False by (simp add: to_duration_def f_of_int_max_int64)
qed


lemma to_duration_NaN: "to_duration impl NaN = impl NaN"
  by (simp add: to_duration_def f_of_int_max_int64 to_int64_def)

lemma to_duration_limit: "to_duration impl (Fin (2 ^ 63)) = impl (Fin (2 ^ 63))"
  unfolding to_duration_def f_of_int_max_int64 by (simp add: to_int64_def trunc_rat_def max_int64_def)








section \<open>Properties\<close>


definition demo_pow :: "f64 \<Rightarrow> f64 \<Rightarrow> f64" where
  "demo_pow x y =
     (case (x, y) of (Fin a, Fin b) \<Rightarrow> if 0 < a \<and> 0 \<le> b then rnd (a ^ nat \<lfloor>b\<rfloor>) else NaN | _ \<Rightarrow> NaN)"



lemma rnd_int: "\<lbrakk>0 \<le> n; n \<le> 2 ^ 53\<rbrakk> \<Longrightarrow> rnd (of_int n) = Fin (of_int n)"
  using f_of_int_exact by (simp add: f_of_int_def)



text \<open>Exponential growth: without jitter, for an integer factor, while the product stays within
  53 binary digits and the power is computed exactly, the delay of an attempt is
  \<open>base * factor ^ attempt\<close>, or the maximum if one is set and it is smaller.\<close>

theorem retry_delay_growth:
  assumes "0 \<le> base" "1 \<le> f" "base * f ^ n \<le> 2 ^ 53" "0 \<le> mx" "mx \<le> 2 ^ 53"
    and "pow (Fin (of_int f)) (f_of_int (int n)) = Fin (of_int (f ^ n))"
  shows "Delay pow impl \<lparr>BaseDelay = base, Factor = Fin (of_int f), MaxDelay = mx, Jitter = Fin 0\<rparr> (int n) random =
         Inr (if mx = 0 then base * f ^ n else min (base * f ^ n) mx)"
proof -
  let ?cfg = "\<lparr>BaseDelay = base, Factor = Fin (of_int f), MaxDelay = mx, Jitter = Fin 0\<rparr>"
  have "1 \<le> f ^ n" using assms(2) by simp
  then have "base * 1 \<le> base * f ^ n" using assms(1) by (rule mult_left_mono)
  then have b: "base \<le> 2 ^ 53" using assms(3) by simp
  have p: "0 \<le> base * f ^ n" using assms(1,2) by simp
  have "(of_int base * of_int (f ^ n) :: rat) = of_int (base * f ^ n)" by simp
  then have raw: "raw_delay pow ?cfg (int n) random = Fin (of_int (base * f ^ n))"
    using assms(6) f_of_int_exact [OF assms(1) b] rnd_int [OF p assms(3)]
    by (simp add: raw_delay_def del: of_int_mult of_int_power)
  define c where "c = (if mx = 0 then base * f ^ n else min (base * f ^ n) mx)"
  have c: "0 \<le> c" "c \<le> 2 ^ 53" using p assms(3-5) by (auto simp: c_def)
  have "clamp_delay ?cfg (Fin (of_int (base * f ^ n))) = Fin (of_int c)"
    using assms(4,5) f_of_int_exact [OF assms(4,5)]
    by (auto simp: clamp_delay_def c_def min_def simp del: of_int_mult of_int_power)
  moreover have "(of_int c :: rat) < 2 ^ 63"
  proof -
    have "(of_int c :: rat) \<le> of_int (2 ^ 53)" using c(2) by (simp only: of_int_le_iff)
    then show ?thesis by simp
  qed
  then have "to_duration impl (Fin (of_int c)) = c"
    using to_duration_Fin [of "of_int c" impl] c by simp
  moreover have "args_ok ?cfg (int n) random"
    using assms(1,2,4) by (simp add: args_ok_def f_le_def)
  ultimately show ?thesis using raw by (simp add: Delay_Inr c_def [symmetric])
qed

theorem retry_delay_growth_witness:
  "Delay demo_pow (\<lambda>_. min_int64) \<lparr>BaseDelay = 100, Factor = Fin (of_int 2), MaxDelay = 5000, Jitter = Fin 0\<rparr>
     (int 3) None = Inr 800"
  using retry_delay_growth [of 100 2 3 5000 demo_pow "\<lambda>_. min_int64" None] rnd_int [of 8] f_of_int_exact [of 3]
  by (simp add: demo_pow_def)

text \<open>The range test misses its boundary: a delay of exactly 2^63 nanoseconds (base 1, factor 2,
  attempt 63, no maximum; or a maximum of the greatest duration, which rounds to 2^63) passes the
  test \<^verbatim>\<open>delay > float64(math.MaxInt64)\<close>, and a zero base with an infinite power is NaN: in all three
  cases the duration is the implementation-dependent result of an unrepresentable conversion.\<close>

theorem retry_delay_unrepresentable:
  assumes "pow (Fin 2) (f_of_int 63) = Fin (2 ^ 63)" "pow (Fin 2) (f_of_int 2000) = PInf"
  shows "Delay pow impl \<lparr>BaseDelay = 1, Factor = Fin 2, MaxDelay = 0, Jitter = Fin 0\<rparr> 63 random
           = Inr (impl (Fin (2 ^ 63)))
    \<and> Delay pow impl \<lparr>BaseDelay = 1, Factor = Fin 2, MaxDelay = max_int64, Jitter = Fin 0\<rparr> 2000 random
           = Inr (impl (Fin (2 ^ 63)))
    \<and> Delay pow impl \<lparr>BaseDelay = 0, Factor = Fin 2, MaxDelay = 0, Jitter = Fin 0\<rparr> 2000 random
           = Inr (impl NaN)"
proof -
  have "rnd (2 ^ 63) = Fin (2 ^ 63)"
  proof -
    have b: "bits (nat (2 ^ 63)) = 64" by (simp add: bits.simps)
    have "ilog2 (of_int (2 ^ 63)) = 63" by (subst ilog2_int) (simp_all only: b, simp_all)
    then have "ulp (2 ^ 63) = 2048" by (simp add: ulp_def)
    then have "round_mag (2 ^ 63) = 2 ^ 63" by (intro round_mag_multiple [of _ "2 ^ 52"]) simp_all
    then show ?thesis by (simp add: rnd_def)
  qed
  moreover note to_duration_limit to_duration_NaN
  moreover have "0 < max_int64" "0 \<le> max_int64" by (simp_all add: max_int64_def)
  moreover have "f_of_int 1 = Fin 1" "f_of_int 0 = Fin 0"
    using f_of_int_exact [of 1] f_of_int_exact [of 0] by simp_all
  ultimately show ?thesis
    using assms
    by (simp add: Delay_Inr args_ok_def raw_delay_def f_le_def clamp_delay_def f_of_int_max_int64 Let_def)
qed

theorem retry_delay_unrepresentable_witness:
  "Delay (\<lambda>x y. if y = f_of_int 63 then Fin (2 ^ 63) else PInf) (\<lambda>_. min_int64)
     \<lparr>BaseDelay = 1, Factor = Fin 2, MaxDelay = 0, Jitter = Fin 0\<rparr> 63 None = Inr min_int64"
proof -
  have "f_of_int 2000 \<noteq> f_of_int 63" using f_of_int_exact [of 2000] f_of_int_exact [of 63] by simp
  then show ?thesis
    using retry_delay_unrepresentable [of "\<lambda>x y. if y = f_of_int 63 then Fin (2 ^ 63) else PInf" "\<lambda>_. min_int64" None]
    by simp
qed

end
