(* ===== verification/Httpx_Middleware.thy ===== *)
theory Httpx_Middleware
  imports Go_Http Go_Float Go_Hex
begin

text \<open>
  \<^verbatim>\<open>httpx/middleware/middleware.go\<close>: CORS, request IDs, panic recovery and request logging as
  functions from handlers to handlers.
\<close>

section \<open>CORS\<close>

record CORSConfig =
  AllowedOrigins :: "string list"
  AllowedMethods :: "string list"
  AllowedHeaders :: "string list"
  ExposedHeaders :: "string list"
  AllowCredentials :: bool
  MaxAge :: duration

definition makeSet :: "string list \<Rightarrow> string \<Rightarrow> bool" where
  "makeSet values = foldl (\<lambda>m v. m(v := True)) (\<lambda>_. False) values"

text \<open>\<^verbatim>\<open>d.Seconds()\<close> for a non-negative duration: whole seconds plus the rest over 1e9, in double
  precision; \<^verbatim>\<open>int\<close> of it is always representable.\<close>

definition Seconds :: "duration \<Rightarrow> f64" where
  "Seconds d = f_add (f_of_int (d div 1000000000)) (rnd (of_int (d mod 1000000000) / 1000000000))"

definition int_seconds :: "duration \<Rightarrow> int" where
  "int_seconds d = to_int64 (\<lambda>_. 0) (Seconds d)"

definition cors_headers :: "CORSConfig \<Rightarrow> string list \<Rightarrow> string \<Rightarrow> rw \<Rightarrow> rw" where
  "cors_headers cfg methods origin w =
     (let allowedOrigin =
            (if makeSet (AllowedOrigins cfg) ''*'' \<and> \<not> AllowCredentials cfg then ''*'' else origin);
          w = set_header ''Access-Control-Allow-Origin'' allowedOrigin w;
          w = add_header ''Vary'' ''Origin'' w;
          w = set_header ''Access-Control-Allow-Methods'' (Join methods '', '') w;
          w = (if 0 < length (AllowedHeaders cfg)
               then set_header ''Access-Control-Allow-Headers'' (Join (AllowedHeaders cfg) '', '') w else w);
          w = (if 0 < length (ExposedHeaders cfg)
               then set_header ''Access-Control-Expose-Headers'' (Join (ExposedHeaders cfg) '', '') w else w);
          w = (if AllowCredentials cfg
               then set_header ''Access-Control-Allow-Credentials'' ''true'' w else w)
      in if 0 < MaxAge cfg
         then set_header ''Access-Control-Max-Age'' (dec_int (int_seconds (MaxAge cfg))) w else w)"

definition CORS :: "CORSConfig \<Rightarrow> handler \<Rightarrow> handler" where
  "CORS cfg next r w =
     (let origins = makeSet (AllowedOrigins cfg);
          methods = (if length (AllowedMethods cfg) = 0 then [''GET'', ''HEAD'', ''POST''] else AllowedMethods cfg);
          origin = Header_Get (r_header r) ''Origin''
      in if origin \<noteq> [] \<and> (origins ''*'' \<or> origins origin) then
           (let w' = cors_headers cfg methods origin w
            in if r_method r = ''OPTIONS'' then WriteHeader 204 w' else next r w')
         else next r w)"

section \<open>Request IDs\<close>

record RequestIDConfig =
  Header :: string
  Generate :: "string option"

text \<open>\<open>Generate\<close> is what the configured generator returns for this request, if one is configured;
  \<open>rand\<close> is the default generator's random data, or the clock reading if the source fails.\<close>

definition generateRequestID :: "time + (nat \<Rightarrow> byte) \<Rightarrow> string" where
  "generateRequestID rand =
     (case rand of Inl nanos \<Rightarrow> dec_int nanos | Inr src \<Rightarrow> hex (map src [0..<16]))"

definition RequestID :: "RequestIDConfig \<Rightarrow> time + (nat \<Rightarrow> byte) \<Rightarrow> handler \<Rightarrow> handler" where
  "RequestID cfg rand next r w =
     (let hdr = (if Header cfg = [] then ''X-Request-ID'' else Header cfg);
          generated = (case Generate cfg of None \<Rightarrow> generateRequestID rand | Some g \<Rightarrow> g);
          got = Header_Get (r_header r) hdr;
          rid = (if got = [] then generated else got)
      in next (r\<lparr>r_ctx := (r_ctx r)\<lparr>cv_request_id := Some rid\<rparr>\<rparr>) (set_header hdr rid w))"

definition RequestIDFromContext :: "ctxvals \<Rightarrow> string \<times> bool" where
  "RequestIDFromContext c = (case cv_request_id c of None \<Rightarrow> ([], False) | Some rid \<Rightarrow> (rid, True))"

section \<open>Recovery\<close>

text \<open>\<^verbatim>\<open>http.Error\<close>: drops \<^verbatim>\<open>Content-Length\<close>, sets the plain-text headers, sends status and text.\<close>

definition http_Error :: "string \<Rightarrow> int \<Rightarrow> rw \<Rightarrow> outcome" where
  "http_Error msg code w =
     (let w = w\<lparr>w_header := (w_header w)(canonical ''Content-Length'' := [])\<rparr>;
          w = set_header ''Content-Type'' ''text/plain; charset=utf-8'' w;
          w = set_header ''X-Content-Type-Options'' ''nosniff'' w
      in and_then (WriteHeader code w) (\<lambda>w. Returned (Write (msg @ [CHR 0x0A]) w)))"

record RecoveryConfig =
  Logger :: bool
  WriteError :: "(rw \<Rightarrow> request \<Rightarrow> string \<Rightarrow> outcome) option"

text \<open>The second component is the messages logged.\<close>

definition Recovery :: "RecoveryConfig \<Rightarrow> handler \<Rightarrow> request \<Rightarrow> rw \<Rightarrow> outcome \<times> string list" where
  "Recovery cfg next r w =
     (let writeError = (case WriteError cfg of
                          None \<Rightarrow> (\<lambda>w _ _. http_Error ''internal server error'' 500 w)
                        | Some f \<Rightarrow> f)
      in case next r w of
           Returned w' \<Rightarrow> (Returned w', [])
         | Panicked v w' \<Rightarrow>
             (let err = ''panic: '' @ v
              in (writeError w' r err, if Logger cfg then [''recovered panic''] else [])))"

section \<open>Request logging\<close>

text \<open>
  \<^verbatim>\<open>statusWriter\<close> stands between the handler and the writer, so here the handler is the sequence
  of calls it makes on its writer, with a panic at the end or not.
\<close>

datatype call = CSet string string | CWriteHeader int | CWrite string

record statusWriter =
  ResponseWriter :: rw
  status :: int
  wrote :: bool

definition sw_WriteHeader :: "int \<Rightarrow> statusWriter \<Rightarrow> string option \<times> statusWriter" where
  "sw_WriteHeader code w =
     (if wrote w then (None, w)
      else (let w = w\<lparr>wrote := True, status := code\<rparr>
            in case WriteHeader code (ResponseWriter w) of
                 Returned u \<Rightarrow> (None, w\<lparr>ResponseWriter := u\<rparr>)
               | Panicked v u \<Rightarrow> (Some v, w\<lparr>ResponseWriter := u\<rparr>)))"

definition sw_Write :: "string \<Rightarrow> statusWriter \<Rightarrow> string option \<times> statusWriter" where
  "sw_Write data w =
     (case (if \<not> wrote w then sw_WriteHeader 200 w else (None, w)) of
        (Some v, w') \<Rightarrow> (Some v, w')
      | (None, w') \<Rightarrow> (None, w'\<lparr>ResponseWriter := Write data (ResponseWriter w')\<rparr>))"

fun sw_call :: "call \<Rightarrow> statusWriter \<Rightarrow> string option \<times> statusWriter" where
  "sw_call (CSet k v) w = (None, w\<lparr>ResponseWriter := set_header k v (ResponseWriter w)\<rparr>)"
| "sw_call (CWriteHeader c) w = sw_WriteHeader c w"
| "sw_call (CWrite d) w = sw_Write d w"

fun sw_run :: "call list \<Rightarrow> statusWriter \<Rightarrow> string option \<times> statusWriter" where
  "sw_run [] w = (None, w)"
| "sw_run (c # cs) w = (case sw_call c w of (Some v, w') \<Rightarrow> (Some v, w') | (None, w') \<Rightarrow> sw_run cs w')"

datatype attr = AStr string string | AInt string int | ADur string duration

record RequestLogConfig =
  Enrich :: "(request \<Rightarrow> attr list) option"

text \<open>The result: what the writer holds, and the log record unless the handler panicked, which
  unwinds past the logging call.\<close>

definition RequestLogger ::
  "RequestLogConfig \<Rightarrow> (request \<Rightarrow> call list \<times> string option) \<Rightarrow> duration \<Rightarrow> request \<Rightarrow> rw
   \<Rightarrow> outcome \<times> attr list option" where
  "RequestLogger cfg next elapsed r w =
     (let (calls, pan) = next r
      in case sw_run calls \<lparr>ResponseWriter = w, status = 200, wrote = False\<rparr> of
           (Some v, rec) \<Rightarrow> (Panicked v (ResponseWriter rec), None)
         | (None, rec) \<Rightarrow>
             (case pan of
                Some v \<Rightarrow> (Panicked v (ResponseWriter rec), None)
              | None \<Rightarrow>
                  (let attrs = [AStr ''method'' (r_method r), AStr ''path'' (r_path r),
                                AInt ''status'' (status rec), ADur ''duration'' elapsed];
                       (rid, ok) = RequestIDFromContext (r_ctx r);
                       attrs = (if ok then attrs @ [AStr ''request_id'' rid] else attrs);
                       attrs = (case Enrich cfg of None \<Rightarrow> attrs | Some f \<Rightarrow> attrs @ f r)
                   in (Returned (ResponseWriter rec), Some attrs))))"

section \<open>Lemmas\<close>

lemma makeSet_iff [simp]: "makeSet vs v \<longleftrightarrow> v \<in> set vs"
proof -
  have "foldl (\<lambda>m v. m(v := True)) m vs v \<longleftrightarrow> m v \<or> v \<in> set vs" for m
    by (induction vs arbitrary: m) auto
  then show ?thesis by (simp add: makeSet_def)
qed

lemma cors_headers_frame [simp]:
  "w_status (cors_headers cfg ms org w) = w_status w" "w_body (cors_headers cfg ms org w) = w_body w"
  by (simp_all add: cors_headers_def Let_def)

lemma canonical_cors:
  "canonical ''Access-Control-Allow-Origin'' = ''Access-Control-Allow-Origin''"
  "canonical ''Access-Control-Allow-Methods'' = ''Access-Control-Allow-Methods''"
  "canonical ''Access-Control-Allow-Headers'' = ''Access-Control-Allow-Headers''"
  "canonical ''Access-Control-Expose-Headers'' = ''Access-Control-Expose-Headers''"
  "canonical ''Access-Control-Allow-Credentials'' = ''Access-Control-Allow-Credentials''"
  "canonical ''Access-Control-Max-Age'' = ''Access-Control-Max-Age''"
  "canonical ''Vary'' = ''Vary''"
  by code_simp+

lemma cors_headers_origin:
  "Header_Get (w_header (cors_headers cfg ms org w)) ''Access-Control-Allow-Origin'' =
   (if ''*'' \<in> set (AllowedOrigins cfg) \<and> \<not> AllowCredentials cfg then ''*'' else org)"
  by (simp add: cors_headers_def Let_def Header_Get_Set Header_Get_Add_other canonical_cors)

lemma cors_headers_credentials:
  "Header_Get (w_header (cors_headers cfg ms org w)) ''Access-Control-Allow-Credentials'' =
   (if AllowCredentials cfg then ''true'' else Header_Get (w_header w) ''Access-Control-Allow-Credentials'')"
  by (simp add: cors_headers_def Let_def Header_Get_Set Header_Get_Add_other canonical_cors)

lemma cors_headers_vary: "''Origin'' \<in> set (w_header (cors_headers cfg ms org w) ''Vary'')"
  by (simp add: cors_headers_def Let_def Header_Set_def Header_Add_def canonical_cors)

text \<open>The same calls made on the writer itself, without the logger in between.\<close>

fun rw_call :: "call \<Rightarrow> rw \<Rightarrow> outcome" where
  "rw_call (CSet k v) w = Returned (set_header k v w)"
| "rw_call (CWriteHeader c) w = WriteHeader c w"
| "rw_call (CWrite d) w = Returned (Write d w)"

fun rw_run :: "call list \<Rightarrow> rw \<Rightarrow> outcome" where
  "rw_run [] w = Returned w"
| "rw_run (c # cs) w = and_then (rw_call c w) (rw_run cs)"

text \<open>A final status the server accepts, and calls that send no other.\<close>

definition final_code :: "int \<Rightarrow> bool" where
  "final_code c \<longleftrightarrow> c = 101 \<or> 200 \<le> c \<and> c \<le> 999"

fun final_call :: "call \<Rightarrow> bool" where
  "final_call (CWriteHeader c) = final_code c"
| "final_call _ = True"

text \<open>The recorder and the writer agree on whether a status was sent, and on which.\<close>

definition sw_inv :: "statusWriter \<Rightarrow> bool" where
  "sw_inv s \<longleftrightarrow> (if wrote s then w_status (ResponseWriter s) = Some (status s)
                 else w_status (ResponseWriter s) = None \<and> status s = 200)"

lemma WriteHeader_final_code:
  "\<lbrakk>w_status w = None; final_code c\<rbrakk> \<Longrightarrow>
   WriteHeader c w = Returned (w\<lparr>w_status := Some c, w_sent := w_header w\<rparr>)"
  by (auto simp: WriteHeader_def final_code_def informational_def)

lemma Write_after_200:
  "w_status w = None \<Longrightarrow> Write d (w\<lparr>w_status := Some 200, w_sent := w_header w\<rparr>) = Write d w"
  by (simp add: Write_def)

lemma w_status_Write: "w_status w = Some c \<Longrightarrow> w_status (Write d w) = Some c"
  by (simp add: Write_status)

lemma sw_call_ok:
  assumes "sw_inv s" "final_call c"
  shows "\<exists>s'. sw_call c s = (None, s') \<and> sw_inv s' \<and> rw_call c (ResponseWriter s) = Returned (ResponseWriter s')"
proof (cases c)
  case (CSet k v)
  with assms show ?thesis by (auto simp: sw_inv_def)
next
  case (CWriteHeader n)
  with assms show ?thesis
    by (cases "wrote s") (auto simp: sw_inv_def sw_WriteHeader_def Let_def WriteHeader_again WriteHeader_final_code)
next
  case (CWrite d)
  show ?thesis
  proof (cases "wrote s")
    case True
    with assms CWrite show ?thesis by (simp add: sw_inv_def sw_Write_def w_status_Write)
  next
    case False
    with assms have "w_status (ResponseWriter s) = None" by (simp add: sw_inv_def)
    then show ?thesis using False CWrite assms
      by (simp add: sw_inv_def sw_Write_def sw_WriteHeader_def Let_def WriteHeader_final_code final_code_def
                    Write_after_200 w_status_Write Write_status)
  qed
qed

lemma sw_run_ok:
  "\<lbrakk>sw_inv s; list_all final_call cs\<rbrakk> \<Longrightarrow>
   \<exists>s'. sw_run cs s = (None, s') \<and> sw_inv s' \<and> rw_run cs (ResponseWriter s) = Returned (ResponseWriter s')"
proof (induction cs arbitrary: s)
  case (Cons c cs)
  from Cons.prems obtain s' where "sw_call c s = (None, s')" "sw_inv s'"
    "rw_call c (ResponseWriter s) = Returned (ResponseWriter s')"
    using sw_call_ok [of s c] by auto
  with Cons show ?case by auto
qed auto

section \<open>Properties\<close>

text \<open>C37. CORS policy: a request without an allowed origin passes through with the writer untouched;
  for an allowed origin the response names either every origin (wildcard without credentials) or
  exactly the request's origin, says that it varies with the origin, and allows credentials only
  when configured to; an \<^verbatim>\<open>OPTIONS\<close> request is answered 204 whatever the next handler is, and any
  other request reaches the next handler unchanged with those headers set.\<close>

theorem cors_policy:
  fixes cfg r w nxt
  defines "org \<equiv> Header_Get (r_header r) ''Origin''"
  defines "allowed \<equiv> org \<noteq> [] \<and> (''*'' \<in> set (AllowedOrigins cfg) \<or> org \<in> set (AllowedOrigins cfg))"
  shows "(\<not> allowed \<longrightarrow> CORS cfg nxt r w = nxt r w)
    \<and> (allowed \<longrightarrow> (\<exists>w'. w_status w' = w_status w \<and> w_body w' = w_body w
         \<and> Header_Get (w_header w') ''Access-Control-Allow-Origin'' =
             (if ''*'' \<in> set (AllowedOrigins cfg) \<and> \<not> AllowCredentials cfg then ''*'' else org)
         \<and> Header_Get (w_header w') ''Access-Control-Allow-Credentials'' =
             (if AllowCredentials cfg then ''true'' else Header_Get (w_header w) ''Access-Control-Allow-Credentials'')
         \<and> ''Origin'' \<in> set (w_header w' ''Vary'')
         \<and> CORS cfg nxt r w = (if r_method r = ''OPTIONS'' then WriteHeader 204 w' else nxt r w')))"
proof -
  let ?ms = "if length (AllowedMethods cfg) = 0 then [''GET'', ''HEAD'', ''POST''] else AllowedMethods cfg"
  have "allowed \<Longrightarrow> CORS cfg nxt r w =
      (if r_method r = ''OPTIONS'' then WriteHeader 204 (cors_headers cfg ?ms org w)
       else nxt r (cors_headers cfg ?ms org w))"
    unfolding allowed_def org_def by (simp add: CORS_def Let_def)
  moreover have "\<not> allowed \<Longrightarrow> CORS cfg nxt r w = nxt r w"
    unfolding allowed_def org_def by (auto simp: CORS_def Let_def)
  ultimately show ?thesis
    by (intro conjI impI exI [of _ "cors_headers cfg ?ms org w"])
       (assumption | simp only: cors_headers_origin cors_headers_credentials cors_headers_vary cors_headers_frame)+
qed

definition demo_request :: request where
  "demo_request = \<lparr>r_method = ''GET'', r_path = ''/'', r_query = (\<lambda>_. []),
     r_header = (\<lambda>_. [])(''Origin'' := [''https://a.example'']),
     r_ctx = \<lparr>cv_user = None, cv_roles = None, cv_request_id = None\<rparr>\<rparr>"

definition demo_cors :: CORSConfig where
  "demo_cors = \<lparr>AllowedOrigins = [''*''], AllowedMethods = [], AllowedHeaders = [], ExposedHeaders = [],
     AllowCredentials = True, MaxAge = 0\<rparr>"

lemma demo_origin: "Header_Get (r_header demo_request) ''Origin'' = ''https://a.example''"
  by code_simp

lemma demo_method: "r_method demo_request = ''GET''"
  by (simp add: demo_request_def)

theorem cors_policy_witness:
  "\<exists>w'. CORS demo_cors (\<lambda>r w. Returned w) demo_request new_rw = Returned w'
     \<and> Header_Get (w_header w') ''Access-Control-Allow-Origin'' = ''https://a.example''"
  using cors_policy [where cfg = demo_cors and nxt = "\<lambda>r w. Returned w" and r = demo_request and w = new_rw]
  unfolding demo_origin using demo_method by (auto simp: demo_cors_def)

text \<open>Request IDs: the next handler runs with the same ID in its context as in the response
  header; the ID is the client's when it sent one and a generated one otherwise, and the default
  generator never yields an empty ID (32 hexadecimal digits, or the clock reading).\<close>

theorem request_id_propagation:
  fixes cfg
  defines "hdr \<equiv> if Header cfg = [] then ''X-Request-ID'' else Header cfg"
  shows "\<exists>rid. RequestID cfg rand next r w =
        next (r\<lparr>r_ctx := (r_ctx r)\<lparr>cv_request_id := Some rid\<rparr>\<rparr>) (set_header hdr rid w)
    \<and> RequestIDFromContext ((r_ctx r)\<lparr>cv_request_id := Some rid\<rparr>) = (rid, True)
    \<and> Header_Get (w_header (set_header hdr rid w)) hdr = rid
    \<and> (if Header_Get (r_header r) hdr \<noteq> [] then rid = Header_Get (r_header r) hdr
       else rid = (case Generate cfg of None \<Rightarrow> generateRequestID rand | Some g \<Rightarrow> g))
    \<and> generateRequestID rand \<noteq> []"
proof -
  have ne: "generateRequestID rand \<noteq> []"
  proof (cases rand)
    case (Inr src)
    have "length (hex (map src [0..<16])) = 32" by simp
    then show ?thesis using Inr by (auto simp: generateRequestID_def simp del: length_hex)
  qed (simp add: generateRequestID_def dec_int_def)
  show ?thesis
    unfolding hdr_def RequestID_def Let_def
    by (rule exI, intro conjI, rule refl) (auto simp: RequestIDFromContext_def Header_Get_Set ne)
qed

lemma Recovery_returns:
  assumes "WriteError cfg = None"
  shows "\<exists>w'. fst (Recovery cfg nxt r w) = Returned w'
     \<and> (case nxt r w of Returned u \<Rightarrow> w' = u | Panicked v u \<Rightarrow> client_status w' = (case w_status u of None \<Rightarrow> 500 | Some c \<Rightarrow> c))"
  using assms
  by (cases "nxt r w"; cases "w_status (final_rw (nxt r w))")
     (simp_all add: Recovery_def Let_def http_Error_def WriteHeader_final WriteHeader_again Write_def body_allowed_def client_status_def)

text \<open>Recovery: with the default error writer the middleware never panics, whatever the handler
  does; a handler that panics before sending a status gives the client 500 with the fixed text, a
  status already sent stays, a handler that returns is left alone, and a panic is logged exactly
  when a logger is configured.\<close>

theorem recovery_total:
  assumes "WriteError cfg = None"
  shows "\<exists>w'. fst (Recovery cfg next r w) = Returned w'
     \<and> (case next r w of
          Returned u \<Rightarrow> w' = u \<and> snd (Recovery cfg next r w) = []
        | Panicked v u \<Rightarrow>
            client_status w' = (case w_status u of None \<Rightarrow> 500 | Some c \<Rightarrow> c)
          \<and> (w_status u = None \<longrightarrow> w_body w' = w_body u @ ''internal server error'' @ [CHR 0x0A])
          \<and> length (snd (Recovery cfg next r w)) = (if Logger cfg then 1 else 0))"
proof (cases "next r w")
  case (Returned u)
  with assms show ?thesis by (simp add: Recovery_def)
next
  case (Panicked v u)
  show ?thesis
  proof (cases "w_status u")
    case None
    with Panicked assms show ?thesis
      by (simp add: Recovery_def Let_def http_Error_def WriteHeader_final Write_def body_allowed_def client_status_def)
  next
    case (Some c)
    with Panicked assms show ?thesis
      by (simp add: Recovery_def Let_def http_Error_def WriteHeader_again client_status_def w_status_Write)
  qed
qed

theorem recovery_total_witness:
  "\<exists>w'. fst (Recovery \<lparr>Logger = True, WriteError = None\<rparr> (\<lambda>r w. Panicked ''boom'' w) demo_request new_rw) = Returned w'
     \<and> client_status w' = 500"
  using recovery_total [of "\<lparr>Logger = True, WriteError = None\<rparr>" "\<lambda>r w. Panicked ''boom'' w" demo_request new_rw]
  by (auto simp: new_rw_def)

text \<open>C38. The request logger is transparent and truthful for handlers that send only final statuses:
  the writer ends exactly as if the handler had used it directly, and the logged status is the one
  the client receives.\<close>

theorem request_logger_faithful:
  assumes "w_status w = None" "next r = (cs, None)" "list_all final_call cs"
  shows "\<exists>w' attrs. RequestLogger cfg next elapsed r w = (Returned w', Some attrs)
     \<and> rw_run cs w = Returned w'
     \<and> take 4 attrs = [AStr ''method'' (r_method r), AStr ''path'' (r_path r),
                       AInt ''status'' (client_status w'), ADur ''duration'' elapsed]"
proof -
  let ?s = "\<lparr>ResponseWriter = w, status = 200, wrote = False\<rparr>"
  have "sw_inv ?s" using assms(1) by (simp add: sw_inv_def)
  from sw_run_ok [OF this assms(3)] obtain s' where
    s': "sw_run cs ?s = (None, s')" "sw_inv s'" "rw_run cs w = Returned (ResponseWriter s')" by auto
  have "status s' = client_status (ResponseWriter s')"
    using s'(2) by (auto simp: sw_inv_def client_status_def split: if_splits)
  with s' assms(2) show ?thesis
    by (simp add: RequestLogger_def Let_def split: prod.split option.split)
qed

theorem request_logger_faithful_witness:
  "\<exists>w' attrs. RequestLogger \<lparr>Enrich = None\<rparr> (\<lambda>r. ([CWriteHeader 404, CWrite ''gone''], None)) 7 demo_request new_rw
       = (Returned w', Some attrs) \<and> take 4 attrs = [AStr ''method'' ''GET'', AStr ''path'' ''/'',
          AInt ''status'' (client_status w'), ADur ''duration'' 7]"
  using request_logger_faithful [of new_rw "\<lambda>r. ([CWriteHeader 404, CWrite ''gone''], None)" demo_request
          "[CWriteHeader 404, CWrite ''gone'']" "\<lparr>Enrich = None\<rparr>" 7]
  by (auto simp: new_rw_def final_code_def demo_request_def)

text \<open>Informational statuses break it: a handler that sends 103 Early Hints and then 404 gives
  the client 404 when it uses the writer directly, but 200 behind the request logger, which logs
  103 and drops the final status.\<close>

theorem request_logger_drops_final_status:
  "(\<exists>w'. rw_run [CWriteHeader 103, CWriteHeader 404, CWrite ''x''] new_rw = Returned w' \<and> client_status w' = 404)
   \<and> (\<exists>w' attrs. RequestLogger cfg (\<lambda>r. ([CWriteHeader 103, CWriteHeader 404, CWrite ''x''], None)) d r new_rw
          = (Returned w', Some attrs) \<and> client_status w' = 200 \<and> AInt ''status'' 103 \<in> set attrs)"
  by (auto simp: new_rw_def WriteHeader_def informational_def Write_def body_allowed_def client_status_def
                 RequestLogger_def sw_WriteHeader_def sw_Write_def Let_def split: prod.split option.split)

end
