(* ===== verification/Httpx_Page.thy ===== *)
theory Httpx_Page
  imports Go_Http
begin

text \<open>\<^verbatim>\<open>httpx/page/page.go\<close>: validated offset pagination from the query string.\<close>

record PageConfig =
  DefaultLimit :: int
  MaxLimit :: int

record Params =
  Offset :: int
  Limit :: int

record 't Page =
  Items :: "'t list"
  P_Offset :: int
  P_Limit :: int
  P_Total :: int

datatype page_error = PageError string string | PageConfigError string

fun page_Error :: "page_error \<Rightarrow> string" where
  "page_Error (PageError field message) = field @ '': '' @ message"
| "page_Error (PageConfigError m) = m"

definition parseNonNegative :: "string \<Rightarrow> int \<Rightarrow> string \<Rightarrow> page_error + int" where
  "parseNonNegative raw fallback field =
     (if raw = [] then Inr fallback
      else (let (v, err) = Atoi raw
            in if err \<noteq> None then Inl (PageError field ''must be an integer'')
               else if v < 0 then Inl (PageError field ''must be non-negative'')
               else Inr v))"

definition page_Parse :: "request \<Rightarrow> PageConfig \<Rightarrow> page_error + Params" where
  "page_Parse r cfg =
     (let cfg = (if DefaultLimit cfg \<le> 0 then cfg\<lparr>DefaultLimit := 20\<rparr> else cfg);
          cfg = (if MaxLimit cfg \<le> 0 then cfg\<lparr>MaxLimit := 100\<rparr> else cfg)
      in if MaxLimit cfg < DefaultLimit cfg then
           Inl (PageConfigError ''page: DefaultLimit must not exceed MaxLimit'')
         else (case parseNonNegative (Query_Get r ''offset'') 0 ''offset'' of
                 Inl e \<Rightarrow> Inl e
               | Inr offset \<Rightarrow>
           (case parseNonNegative (Query_Get r ''limit'') (DefaultLimit cfg) ''limit'' of
              Inl e \<Rightarrow> Inl e
            | Inr limit \<Rightarrow>
                if limit < 1 then Inl (PageError ''limit'' ''must be at least 1'')
                else if MaxLimit cfg < limit then
                  Inl (PageError ''limit'' (''must be at most '' @ dec_int (MaxLimit cfg)))
                else Inr \<lparr>Offset = offset, Limit = limit\<rparr>)))"

definition effective_default :: "PageConfig \<Rightarrow> int" where
  "effective_default cfg = (if DefaultLimit cfg \<le> 0 then 20 else DefaultLimit cfg)"

definition effective_max :: "PageConfig \<Rightarrow> int" where
  "effective_max cfg = (if MaxLimit cfg \<le> 0 then 100 else MaxLimit cfg)"

lemma page_Parse_eq:
  "page_Parse r cfg =
     (if effective_max cfg < effective_default cfg then
        Inl (PageConfigError ''page: DefaultLimit must not exceed MaxLimit'')
      else (case parseNonNegative (Query_Get r ''offset'') 0 ''offset'' of
              Inl e \<Rightarrow> Inl e
            | Inr offset \<Rightarrow>
        (case parseNonNegative (Query_Get r ''limit'') (effective_default cfg) ''limit'' of
           Inl e \<Rightarrow> Inl e
         | Inr limit \<Rightarrow>
             if limit < 1 then Inl (PageError ''limit'' ''must be at least 1'')
             else if effective_max cfg < limit then
               Inl (PageError ''limit'' (''must be at most '' @ dec_int (effective_max cfg)))
             else Inr \<lparr>Offset = offset, Limit = limit\<rparr>)))"
proof -
  have "DefaultLimit (if MaxLimit c \<le> 0 then c\<lparr>MaxLimit := 100\<rparr> else c) = DefaultLimit c"
    "MaxLimit (if MaxLimit c \<le> 0 then c\<lparr>MaxLimit := 100\<rparr> else c) = effective_max c" for c
    by (simp_all add: effective_max_def)
  moreover have "DefaultLimit (if DefaultLimit cfg \<le> 0 then cfg\<lparr>DefaultLimit := 20\<rparr> else cfg) = effective_default cfg"
    "effective_max (if DefaultLimit cfg \<le> 0 then cfg\<lparr>DefaultLimit := 20\<rparr> else cfg) = effective_max cfg"
    by (simp_all add: effective_default_def effective_max_def)
  ultimately show ?thesis unfolding page_Parse_def Let_def by (simp only:)
qed

lemma page_Parse_Inr:
  "page_Parse r cfg = Inr p \<longleftrightarrow>
     effective_default cfg \<le> effective_max cfg
     \<and> parseNonNegative (Query_Get r ''offset'') 0 ''offset'' = Inr (Offset p)
     \<and> parseNonNegative (Query_Get r ''limit'') (effective_default cfg) ''limit'' = Inr (Limit p)
     \<and> 1 \<le> Limit p \<and> Limit p \<le> effective_max cfg"
  by (cases p) (auto simp: page_Parse_eq not_less split: sum.split)

lemma parseNonNegative_Inr [result_iff]:
  "parseNonNegative raw d f = Inr v \<longleftrightarrow> (if raw = [] then v = d else Atoi raw = (v, None) \<and> 0 \<le> v)"
  by (auto simp: parseNonNegative_def split: prod.splits)

lemma dec_int_nonempty [simp]: "dec_int i \<noteq> []"
  by (simp add: dec_int_def)

section \<open>Properties\<close>

text \<open>C39. Pagination: a query is accepted exactly when the configuration is consistent, each present
  parameter is a decimal integer, the offset is not negative and the limit lies between 1 and the
  effective maximum; absent parameters take 0 and the effective default; the result is within bounds.\<close>

theorem page_parse_iff:
  "(page_Parse r cfg = Inr p) =
     (effective_default cfg \<le> effective_max cfg
      \<and> (if Query_Get r ''offset'' = [] then Offset p = 0 else Atoi (Query_Get r ''offset'') = (Offset p, None))
      \<and> (if Query_Get r ''limit'' = [] then Limit p = effective_default cfg
         else Atoi (Query_Get r ''limit'') = (Limit p, None))
      \<and> 0 \<le> Offset p \<and> Offset p \<le> max_int64 \<and> 1 \<le> Limit p \<and> Limit p \<le> effective_max cfg)"
proof -
  have le: "v \<le> max_int64" if "Atoi s = (v, None)" for s v using Atoi_range [of s] that by simp
  have "0 < effective_default cfg" "0 \<le> max_int64" by (simp_all add: effective_default_def max_int64_def)
  then show ?thesis by (auto simp: page_Parse_Inr parseNonNegative_Inr intro: le)
qed

text \<open>Printing parameters into the query and parsing them gives them back, for every offset and
  limit within the bounds.\<close>

theorem page_roundtrip:
  assumes "effective_default cfg \<le> effective_max cfg" "0 \<le> off" "off \<le> max_int64"
    and "1 \<le> lim" "lim \<le> effective_max cfg" "lim \<le> max_int64"
    and "r_query r ''offset'' = [dec_int off]" "r_query r ''limit'' = [dec_int lim]"
  shows "page_Parse r cfg = Inr \<lparr>Offset = off, Limit = lim\<rparr>"
  using assms Atoi_dec_int [of off] Atoi_dec_int [of lim]
  by (simp add: page_Parse_eq parseNonNegative_def Query_Get_def min_int64_def)

theorem page_roundtrip_witness:
  "page_Parse \<lparr>r_method = ''GET'', r_path = ''/'',
      r_query = (\<lambda>_. [])(''offset'' := [dec_int 40], ''limit'' := [dec_int 25]), r_header = (\<lambda>_. []),
      r_ctx = \<lparr>cv_user = None, cv_roles = None, cv_request_id = None\<rparr>\<rparr> \<lparr>DefaultLimit = 0, MaxLimit = 0\<rparr>
   = Inr \<lparr>Offset = 40, Limit = 25\<rparr>"
  by (rule page_roundtrip) (simp_all add: effective_default_def effective_max_def max_int64_def)

end
