(* ===== verification/Fieldx.thy ===== *)
theory Fieldx
  imports Gox_Prelude Go_Strings
begin

text \<open>
  \<^verbatim>\<open>fieldx/field.go\<close>: a field of a partial update that is omitted, explicitly null, or a value.
  The zero value of the type parameter is the argument \<open>zero\<close>; \<open>marshal\<close> and \<open>unmarshal\<close> are
  \<^verbatim>\<open>encoding/json\<close> at that type. Decoding updates the target it is given and may leave it half
  decoded when it fails, so \<open>unmarshal\<close> maps the old target to the new one and an error.
\<close>

section \<open>The field\<close>

record 't Field =
  f_value :: 't
  f_set :: bool
  f_null :: bool

datatype json_error = JSONText string | NilField string

type_synonym 't marshal = "'t \<Rightarrow> json_error + string"
type_synonym 't unmarshal = "string \<Rightarrow> 't \<Rightarrow> 't \<times> json_error option"

definition Unset :: "'t \<Rightarrow> 't Field" where
  "Unset zero = \<lparr>f_value = zero, f_set = False, f_null = False\<rparr>"

definition Value_of :: "'t \<Rightarrow> 't Field" where
  "Value_of v = \<lparr>f_value = v, f_set = True, f_null = False\<rparr>"

definition Null :: "'t \<Rightarrow> 't Field" where
  "Null zero = \<lparr>f_value = zero, f_set = True, f_null = True\<rparr>"

definition IsSet :: "'t Field \<Rightarrow> bool" where
  "IsSet f \<longleftrightarrow> f_set f"

definition IsNull :: "'t Field \<Rightarrow> bool" where
  "IsNull f \<longleftrightarrow> f_set f \<and> f_null f"

definition Field_Value :: "'t Field \<Rightarrow> 't \<times> bool" where
  "Field_Value f = (f_value f, f_set f \<and> \<not> f_null f)"

text \<open>\<open>Inl\<close> is the panic.\<close>

definition MustValue :: "'t Field \<Rightarrow> string + 't" where
  "MustValue f =
     (if \<not> f_set f \<or> f_null f then Inl ''fieldx: field has no value'' else Inr (f_value f))"

definition Field_IsZero :: "'t Field \<Rightarrow> bool" where
  "Field_IsZero f \<longleftrightarrow> \<not> f_set f"

text \<open>The two methods with a pointer receiver take the field behind the pointer, \<open>None\<close> for nil.\<close>

definition Reset :: "'t \<Rightarrow> 't Field option \<Rightarrow> 't Field option" where
  "Reset zero f = (case f of None \<Rightarrow> None | Some _ \<Rightarrow> Some (Unset zero))"

definition MarshalJSON :: "'t marshal \<Rightarrow> 't Field \<Rightarrow> json_error + string" where
  "MarshalJSON marshal f =
     (if \<not> f_set f \<or> f_null f then Inr ''null'' else marshal (f_value f))"

definition UnmarshalJSON ::
  "'t \<Rightarrow> 't unmarshal \<Rightarrow> string \<Rightarrow> 't Field option \<Rightarrow> 't Field option \<times> json_error option" where
  "UnmarshalJSON zero unmarshal data f =
     (case f of
        None \<Rightarrow> (None, Some (NilField ''fieldx: unmarshal into nil Field''))
      | Some f \<Rightarrow>
          (let f = f\<lparr>f_value := zero\<rparr>; f = f\<lparr>f_set := True\<rparr>; f = f\<lparr>f_null := False\<rparr>
           in if TrimSpace data = ''null'' then (Some (f\<lparr>f_null := True\<rparr>), None)
              else (let (v, err) = unmarshal data (f_value f) in (Some (f\<lparr>f_value := v\<rparr>), err))))"

section \<open>Reachable fields\<close>

text \<open>The fields a program can make: the struct's members are private to the package.\<close>

inductive field_reach :: "'t \<Rightarrow> 't unmarshal \<Rightarrow> 't Field \<Rightarrow> bool" for zero unmarshal where
  unset: "field_reach zero unmarshal (Unset zero)"
| valued: "field_reach zero unmarshal (Value_of v)"
| null: "field_reach zero unmarshal (Null zero)"
| reset: "\<lbrakk>field_reach zero unmarshal f; Reset zero (Some f) = Some f'\<rbrakk> \<Longrightarrow> field_reach zero unmarshal f'"
| decode: "\<lbrakk>field_reach zero unmarshal f; UnmarshalJSON zero unmarshal data (Some f) = (Some f', err)\<rbrakk>
    \<Longrightarrow> field_reach zero unmarshal f'"

definition three_states :: "'t \<Rightarrow> 't Field \<Rightarrow> bool" where
  "three_states zero f \<longleftrightarrow> f = Unset zero \<or> f = Null zero \<or> (\<exists>v. f = Value_of v)"

lemmas field_defs = Unset_def Value_of_def Null_def IsSet_def IsNull_def Field_Value_def MustValue_def
  Field_IsZero_def MarshalJSON_def

lemma UnmarshalJSON_Some:
  "UnmarshalJSON zero unmarshal data (Some f) =
     (if TrimSpace data = ''null'' then (Some (Null zero), None)
      else (Some (Value_of (fst (unmarshal data zero))), snd (unmarshal data zero)))"
  by (cases f) (simp add: UnmarshalJSON_def Null_def Value_of_def Let_def split: prod.split)

lemma field_reach_states: "field_reach zero unmarshal f \<Longrightarrow> three_states zero f"
  by (induction rule: field_reach.induct)
     (auto simp: three_states_def Reset_def UnmarshalJSON_Some split: if_splits)

section \<open>Properties\<close>

text \<open>C33. Three states: every field a program can make is unset, null or a value; the observers
  tell exactly which, and exactly the value state yields a value instead of the panic.\<close>

theorem field_three_states:
  assumes "field_reach zero unmarshal f"
  shows "(if \<not> IsSet f then f = Unset zero else if IsNull f then f = Null zero else f = Value_of (fst (Field_Value f)))
       \<and> Field_IsZero f = (\<not> IsSet f)
       \<and> (IsNull f \<longrightarrow> IsSet f)
       \<and> snd (Field_Value f) = (IsSet f \<and> \<not> IsNull f)
       \<and> MustValue f = (if IsSet f \<and> \<not> IsNull f then Inr (fst (Field_Value f))
                        else Inl ''fieldx: field has no value'')
       \<and> (\<not> (IsSet f \<and> \<not> IsNull f) \<longrightarrow> fst (Field_Value f) = zero)"
  using field_reach_states [OF assms] unfolding three_states_def by (auto simp: field_defs)

definition demo_unmarshal :: "string unmarshal" where
  "demo_unmarshal data old =
     (if data \<noteq> [] \<and> hd data = CHR ''q'' then (tl data, None) else (old, Some (JSONText ''syntax'')))"

theorem field_three_states_witness:
  "\<not> IsNull (Value_of ''x'') \<and> MustValue (Value_of ''x'') = Inr ''x''"
proof -
  have "field_reach [] demo_unmarshal (Value_of ''x'')" by (rule field_reach.valued)
  from field_three_states [OF this] show ?thesis by (simp add: field_defs)
qed

text \<open>JSON round trip: every field a program can make encodes, provided its value does, and
  decoding the text, into any field, restores it if it is a value (whose text the codec restores and
  is not \<^verbatim>\<open>null\<close>) and gives null if it is null or unset.\<close>

theorem field_json_roundtrip:
  assumes "field_reach zero unmarshal f"
    and "snd (Field_Value f) \<Longrightarrow> marshal (fst (Field_Value f)) = Inr txt_d \<and> TrimSpace txt_d \<noteq> ''null''
           \<and> unmarshal txt_d zero = (fst (Field_Value f), None)"
  shows "\<exists>d. MarshalJSON marshal f = Inr d
            \<and> (\<forall>g. UnmarshalJSON zero unmarshal d (Some g) =
                    (Some (if snd (Field_Value f) then f else Null zero), None))"
proof (cases "snd (Field_Value f)")
  case True
  with field_reach_states [OF assms(1)] obtain v where f: "f = Value_of v"
    by (auto simp: three_states_def field_defs)
  with assms(2) True have "marshal v = Inr txt_d" "TrimSpace txt_d \<noteq> ''null''" "unmarshal txt_d zero = (v, None)"
    by (auto simp: field_defs)
  with f have "MarshalJSON marshal f = Inr txt_d"
    "UnmarshalJSON zero unmarshal txt_d (Some g) = (Some f, None)" for g
    by (auto simp: UnmarshalJSON_Some field_defs)
  with True show ?thesis by auto
next
  case False
  then have "MarshalJSON marshal f = Inr ''null''" by (auto simp: field_defs)
  moreover have "TrimSpace ''null'' = ''null''" by (rule TrimSpace_graphic) (simp_all add: graphic_def)
  ultimately show ?thesis using False by (simp add: UnmarshalJSON_Some)
qed

theorem field_json_roundtrip_witness:
  "\<exists>d. MarshalJSON (\<lambda>v. Inr (CHR ''q'' # v)) (Value_of ''x'') = Inr d
      \<and> UnmarshalJSON [] demo_unmarshal d (Some (Null [])) = (Some (Value_of ''x''), None)"
proof -
  have "TrimSpace ''qx'' = ''qx''" by (rule TrimSpace_graphic) (simp_all add: graphic_def)
  then have "\<exists>d. MarshalJSON (\<lambda>v. Inr (CHR ''q'' # v)) (Value_of ''x'') = Inr d
      \<and> (\<forall>g. UnmarshalJSON [] demo_unmarshal d (Some g) =
             (Some (if snd (Field_Value (Value_of ''x'')) then Value_of ''x'' else Null []), None))"
    by (intro field_json_roundtrip [where txt_d = "''qx''"] field_reach.valued)
       (simp_all add: field_defs demo_unmarshal_def)
  then show ?thesis by (auto simp: Field_Value_def Value_of_def)
qed

end
