(* ===== verification/Blobx_S3.thy ===== *)
theory Blobx_S3
  imports Blobx
begin

text \<open>
  \<^verbatim>\<open>blobx/s3.go\<close>: the store over an S3 client. The AWS client is not in the repository: it is a record
  of functions on the state \<open>'s\<close> of the service, and \<open>s3_service\<close> states what the S3 documentation
  promises of them. An optional output member is an option (a nil pointer in Go).
\<close>

section \<open>The client\<close>

record PutObjectInput =
  pi_Bucket :: string
  pi_Key :: string
  pi_Body :: body
  pi_ContentType :: "string option"

record HeadOutput =
  ContentLength :: "nat option"
  h_ContentType :: "string option"
  h_ETag :: "string option"
  h_LastModified :: "time option"

record 's s3Client =
  PutObject :: "time \<Rightarrow> ctx \<Rightarrow> PutObjectInput \<Rightarrow> 's \<Rightarrow> (blob_error + string option) \<times> 's"
  GetObject :: "ctx \<Rightarrow> string \<Rightarrow> string \<Rightarrow> 's \<Rightarrow> blob_error + bytes \<times> HeadOutput"
  HeadObject :: "ctx \<Rightarrow> string \<Rightarrow> string \<Rightarrow> 's \<Rightarrow> blob_error + HeadOutput"
  DeleteObject :: "ctx \<Rightarrow> string \<Rightarrow> string \<Rightarrow> 's \<Rightarrow> blob_error option \<times> 's"

type_synonym presignClient = "ctx \<Rightarrow> string \<Rightarrow> string \<Rightarrow> duration \<Rightarrow> blob_error + string"

record S3Options =
  Bucket :: string
  KeyPrefix :: string
  Presigner :: "presignClient option"

record 's S3Store =
  s3_client :: "'s s3Client"
  presigner :: presignClient
  bucket :: string
  prefix_of :: string

section \<open>The store\<close>

definition newS3Store :: "'s s3Client option \<Rightarrow> presignClient \<Rightarrow> S3Options \<Rightarrow> blob_error + 's S3Store" where
  "newS3Store client pre opts =
     (case client of
        None \<Rightarrow> Inl (New ''blobx/s3: client is required'')
      | Some c \<Rightarrow>
          if Bucket opts = [] then Inl (New ''blobx/s3: bucket is required'')
          else (let p = Trim (KeyPrefix opts) CHR ''/'';
                    store = \<lparr>s3_client = c, presigner = pre, bucket = Bucket opts, prefix_of = p\<rparr>
                in if p \<noteq> [] then
                     (case NormalizeKey p of
                        Inl e \<Rightarrow> Inl (Wrap ''blobx/s3: invalid key prefix: '' e)
                      | Inr _ \<Rightarrow> Inr store)
                   else Inr store))"

text \<open>\<open>mk\<close> is \<^verbatim>\<open>awss3.NewPresignClient\<close>.\<close>

definition NewS3 :: "('s s3Client \<Rightarrow> presignClient) \<Rightarrow> 's s3Client option \<Rightarrow> S3Options \<Rightarrow> blob_error + 's S3Store" where
  "NewS3 mk client opts =
     (case client of
        None \<Rightarrow> Inl (New ''blobx/s3: client is required'')
      | Some c \<Rightarrow>
          (let pre = (case Presigner opts of Some p \<Rightarrow> p | None \<Rightarrow> mk c) in newS3Store (Some c) pre opts))"

definition providerKey :: "'s S3Store \<Rightarrow> string \<Rightarrow> string" where
  "providerKey s key = (if prefix_of s = [] then key else prefix_of s @ ''/'' @ key)"


text \<open>\<^verbatim>\<open>errors.As\<close> for \<^verbatim>\<open>smithy.APIError\<close>: the code of the first such error in the chain.\<close>

primrec as_api :: "blob_error \<Rightarrow> string option" where
  "as_api (Sentinel m) = None"
| "as_api (New m) = None"
| "as_api (Wrap m e) = as_api e"
| "as_api (CtxErr c) = None"
| "as_api (Ext x) = (case x of APIError code \<Rightarrow> Some code | _ \<Rightarrow> None)"

text \<open>The text after the wrapped sentinel, the provider's message, is left out.\<close>

definition mapError :: "string \<Rightarrow> string \<Rightarrow> blob_error \<Rightarrow> blob_error" where
  "mapError operation key err =
     (case as_api err of
        Some code \<Rightarrow>
          if code = ''NoSuchKey'' \<or> code = ''NotFound'' \<or> code = ''NoSuchObject''
          then Wrap (''blobx/s3: '' @ operation @ '' '' @ key @ '': '') ErrNotFound
          else Wrap (''blobx/s3: '' @ operation @ '' '' @ key @ '': '') err
      | None \<Rightarrow> Wrap (''blobx/s3: '' @ operation @ '' '' @ key @ '': '') err)"







definition PresignGet :: "'s S3Store \<Rightarrow> ctx \<Rightarrow> string \<Rightarrow> PresignOptions \<Rightarrow> blob_error + string" where
  "PresignGet s ctx key opts =
     (case NormalizeKey key of
        Inl e \<Rightarrow> Inl e
      | Inr key \<Rightarrow>
          if Expires opts \<le> 0 then Inl (New ''blobx/s3: presign expiry must be positive'')
          else (case presigner s ctx (bucket s) (providerKey s key) (Expires opts) of
                  Inl err \<Rightarrow> Inl (Wrap (''blobx/s3: presign '' @ key @ '': '') err)
                | Inr url \<Rightarrow> Inr url))"

section \<open>What the service promises\<close>


definition missing_code :: "blob_error \<Rightarrow> bool" where
  "missing_code e \<longleftrightarrow> as_api e \<in> {Some ''NoSuchKey'', Some ''NotFound'', Some ''NoSuchObject''}"

text \<open>Object keys have at most 1024 bytes.\<close>

definition s3_max_key :: nat where
  "s3_max_key = 1024"



lemma providerKey_inj: "providerKey s j = providerKey s k \<longleftrightarrow> j = k"
  by (simp add: providerKey_def)

lemma mapError_missing: "missing_code e \<Longrightarrow> errors_Is (mapError op k e) ErrNotFound"
  by (auto simp: missing_code_def mapError_def ErrNotFound_def)





section \<open>Properties\<close>


text \<open>A service in memory, with its limits: it refuses a bucket it does not have and a key that is too
  long, and reads the body to its end.\<close>

type_synonym demo_s3 = "string \<rightharpoonup> (string \<rightharpoonup> bytes \<times> string option \<times> time)"

definition demo_out :: "bytes \<times> string option \<times> time \<Rightarrow> bytes \<times> HeadOutput" where
  "demo_out x = (case x of (d, ct, t) \<Rightarrow> (d, \<lparr>ContentLength = Some (length d), h_ContentType = ct,
     h_ETag = Some [CHR 0x22, CHR ''t'', CHR 0x22], h_LastModified = Some t\<rparr>))"


definition demo_s3_check :: "string \<Rightarrow> string \<Rightarrow> demo_s3 \<Rightarrow> blob_error + (string \<rightharpoonup> bytes \<times> string option \<times> time)" where
  "demo_s3_check b k st =
     (case st b of
        None \<Rightarrow> Inl (Ext (APIError ''NoSuchBucket''))
      | Some os \<Rightarrow> if s3_max_key < length k then Inl (Ext (APIError ''KeyTooLongError'')) else Inr os)"

definition demo_s3_client :: "demo_s3 s3Client" where
  "demo_s3_client = \<lparr>
     PutObject = (\<lambda>now ctx inp st.
       case demo_s3_check (pi_Bucket inp) (pi_Key inp) st of
         Inl e \<Rightarrow> (Inl e, st)
       | Inr os \<Rightarrow>
           (case copyContext ctx Buffer_Write (pi_Body inp) [] of
              Some (n, None, b) \<Rightarrow>
                (Inr (Some [CHR 0x22, CHR ''t'', CHR 0x22]),
                 st(pi_Bucket inp \<mapsto> os(pi_Key inp \<mapsto> (b, pi_ContentType inp, now))))
            | _ \<Rightarrow> (Inl (Ext (OtherError ''body'')), st))),
     GetObject = (\<lambda>ctx b k st.
       case demo_s3_check b k st of
         Inl e \<Rightarrow> Inl e
       | Inr os \<Rightarrow> (case os k of None \<Rightarrow> Inl (Ext (APIError ''NoSuchKey'')) | Some x \<Rightarrow> Inr (demo_out x))),
     HeadObject = (\<lambda>ctx b k st.
       case demo_s3_check b k st of
         Inl e \<Rightarrow> Inl e
       | Inr os \<Rightarrow> (case os k of None \<Rightarrow> Inl (Ext (APIError ''NotFound'')) | Some x \<Rightarrow> Inr (snd (demo_out x)))),
     DeleteObject = (\<lambda>ctx b k st.
       case demo_s3_check b k st of Inl e \<Rightarrow> (Some e, st) | Inr os \<Rightarrow> (None, st(b \<mapsto> os(k := None))))\<rparr>"






definition demo_s3_store :: "demo_s3 S3Store" where
  "demo_s3_store = \<lparr>s3_client = demo_s3_client, presigner = (\<lambda>ctx b k e. Inr k), bucket = ''b'', prefix_of = ''app''\<rparr>"


text \<open>The objects of a store lie under its prefix and distinct keys are distinct objects; a
  provider error is reported as \<^verbatim>\<open>ErrNotFound\<close> exactly when it carries one of the three codes, and is
  otherwise kept in the chain; a presigned URL is only asked for with a positive expiry.\<close>

theorem s3_keys_errors:
  assumes "newS3Store (Some c) pre opts = Inr s" "NormalizeKey k = Inr k"
  shows "NormalizeKey (providerKey s k) = Inr (providerKey s k)
       \<and> Split (providerKey s k) CHR ''/'' = (if prefix_of s = [] then [] else Split (prefix_of s) CHR ''/'') @ Split k CHR ''/''
       \<and> (\<forall>j. providerKey s j = providerKey s k \<longrightarrow> j = k)
       \<and> (as_api err \<in> {Some ''NoSuchKey'', Some ''NotFound'', Some ''NoSuchObject''} \<longrightarrow> errors_Is (mapError op k err) ErrNotFound)
       \<and> (as_api err \<notin> {Some ''NoSuchKey'', Some ''NotFound'', Some ''NoSuchObject''} \<longrightarrow>
            (\<forall>t. errors_Is (mapError op k err) t = errors_Is err t))
       \<and> (Expires popts \<le> 0 \<longrightarrow> PresignGet s ctx k popts = Inl (New ''blobx/s3: presign expiry must be positive''))"
proof -
  have p: "prefix_of s = [] \<or> NormalizeKey (prefix_of s) = Inr (prefix_of s)"
    using assms(1) by (auto simp: newS3Store_def Let_def NormalizeKey_Inr split: if_splits sum.splits)
  have "Split (providerKey s k) CHR ''/'' = (if prefix_of s = [] then [] else Split (prefix_of s) CHR ''/'') @ Split k CHR ''/''"
    using Split_append_slash [of "prefix_of s" "CHR ''/''" k] by (simp add: providerKey_def)
  moreover from this p assms(2) have "NormalizeKey (providerKey s k) = Inr (providerKey s k)"
    by (auto simp: NormalizeKey_Inr) (auto simp: providerKey_def)
  moreover have "errors_Is (mapError op k err) t = errors_Is err t"
    if "as_api err \<notin> {Some ''NoSuchKey'', Some ''NotFound'', Some ''NoSuchObject''}" for t
    using that by (auto simp: mapError_def split: option.splits)
  moreover have "Expires popts \<le> 0 \<longrightarrow> PresignGet s ctx k popts = Inl (New ''blobx/s3: presign expiry must be positive'')"
    using assms(2) by (simp add: PresignGet_def)
  ultimately show ?thesis using mapError_missing [of err op k] by (simp add: providerKey_inj missing_code_def)
qed

theorem s3_keys_errors_witness:
  "newS3Store (Some demo_s3_client) (\<lambda>ctx b k e. Inr k) \<lparr>Bucket = ''b'', KeyPrefix = ''app/'', Presigner = None\<rparr> = Inr demo_s3_store
   \<and> NormalizeKey (providerKey demo_s3_store ''x'') = Inr (providerKey demo_s3_store ''x'')"
proof -
  have t: "Trim ''app/'' CHR ''/'' = ''app''" by (simp add: Trim_def)
  have "NormalizeKey ''app'' = Inr ''app''" and x: "NormalizeKey ''x'' = Inr ''x''" by (simp_all add: NormalizeKey_Inr plain_seg_def)
  then have n: "newS3Store (Some demo_s3_client) (\<lambda>ctx b k e. Inr k) \<lparr>Bucket = ''b'', KeyPrefix = ''app/'', Presigner = None\<rparr> = Inr demo_s3_store"
    by (simp add: newS3Store_def t demo_s3_store_def)
  with s3_keys_errors [OF n x] show ?thesis by blast
qed

end
