(* ===== verification/Httpx.thy ===== *)
theory Httpx
  imports Go_Http
begin

text \<open>
  \<^verbatim>\<open>httpx/httpx.go\<close>: handlers that return errors, decoding of requests, JSON responses, and the
  client-safe error type. \<^verbatim>\<open>encoding/json\<close> is two parameters: \<open>decode\<close>, the decoder at the request's type,
  and \<open>marshal\<close>, the text of a JSON tree; the model builds the tree that the struct tags describe.
\<close>

section \<open>Errors\<close>

text \<open>
  The error values a handler may return: the package's \<^verbatim>\<open>*Error\<close> (status, code, message, fields and the
  internal cause), a nil pointer of that type, an error with a \<^verbatim>\<open>Fields\<close> method, one that wraps one or
  several others, and any other. A Go map of fields is the list of its entries by ascending key.
\<close>

datatype herr =
    HTTPError (Status: int) (Code: string) (Message: string) (Fields: "(string \<times> string) list") (Err: "herr option")
  | NilHTTPError
  | FieldErrs "(string \<times> string) list"
  | Wrapped string herr
  | Joined "herr list"
  | Opaque string

definition newError :: "int \<Rightarrow> string \<Rightarrow> herr" where
  "newError status message = HTTPError status [] message [] None"

definition BadRequest :: "string \<Rightarrow> herr" where "BadRequest message = newError 400 message"
definition Unauthorized :: "string \<Rightarrow> herr" where "Unauthorized message = newError 401 message"
definition Forbidden :: "string \<Rightarrow> herr" where "Forbidden message = newError 403 message"
definition NotFound :: "string \<Rightarrow> herr" where "NotFound message = newError 404 message"
definition Conflict :: "string \<Rightarrow> herr" where "Conflict message = newError 409 message"
definition Internal :: "string \<Rightarrow> herr" where "Internal message = newError 500 message"

text \<open>The methods that fill in the error; on a nil pointer they would panic, which no caller here
  does, and the model leaves any other value alone.\<close>

fun WithCode :: "string \<Rightarrow> herr \<Rightarrow> herr" where
  "WithCode code (HTTPError s c m f e) = HTTPError s code m f e"
| "WithCode code e = e"

fun WithFields :: "(string \<times> string) list \<Rightarrow> herr \<Rightarrow> herr" where
  "WithFields fs (HTTPError s c m f e) = HTTPError s c m fs e"
| "WithFields fs e = e"

fun WithInternal :: "herr \<Rightarrow> herr \<Rightarrow> herr" where
  "WithInternal err (HTTPError s c m f e) = HTTPError s c m f (Some err)"
| "WithInternal err e = e"

text \<open>The methods \<^verbatim>\<open>Error\<close> and \<^verbatim>\<open>Unwrap\<close> of the error; \<open>None\<close> is the panic on a nil pointer, and what stands for
  a method of another type.\<close>

fun Error_Error :: "herr \<Rightarrow> string option" where
  "Error_Error (HTTPError s c m f e) = Some m"
| "Error_Error e = None"

fun Error_Unwrap :: "herr \<Rightarrow> herr option option" where
  "Error_Unwrap (HTTPError s c m f e) = Some e"
| "Error_Unwrap e = None"

text \<open>\<^verbatim>\<open>errors.As\<close> for \<^verbatim>\<open>*Error\<close>: the first one in the tree of causes, depth first. A nil pointer of the
  type is found too.\<close>

fun IsHTTPError :: "herr \<Rightarrow> herr option"
  and first_HTTPError :: "herr list \<Rightarrow> herr option" where
  "IsHTTPError (HTTPError s c m f e) = Some (HTTPError s c m f e)"
| "IsHTTPError NilHTTPError = Some NilHTTPError"
| "IsHTTPError (FieldErrs fs) = None"
| "IsHTTPError (Wrapped m e) = IsHTTPError e"
| "IsHTTPError (Joined es) = first_HTTPError es"
| "IsHTTPError (Opaque m) = None"
| "first_HTTPError [] = None"
| "first_HTTPError (e # es) = (case IsHTTPError e of Some h \<Rightarrow> Some h | None \<Rightarrow> first_HTTPError es)"

section \<open>JSON responses\<close>

datatype json = JStr string | JObj "(string \<times> json) list" | JVal string

type_synonym marshal = "json \<Rightarrow> herr + string"

text \<open>A handler's call: it panics, or returns with an error or nil.\<close>

datatype hresult = HPanic string rw | HReturn rw "herr option"

type_synonym hfunc = "request \<Rightarrow> rw \<Rightarrow> hresult"

definition WriteJSON :: "marshal \<Rightarrow> int \<Rightarrow> json \<Rightarrow> rw \<Rightarrow> hresult" where
  "WriteJSON marshal status v w =
     (case marshal v of
        Inl err \<Rightarrow> HReturn w (Some err)
      | Inr data \<Rightarrow>
          (let w = set_header ''Content-Type'' ''application/json; charset=utf-8'' w
           in case WriteHeader status w of
                Panicked p w \<Rightarrow> HPanic p w
              | Returned w \<Rightarrow>
                  (let w' = Write (data @ [CHR 0x0A]) w
                   in HReturn w' (if body_allowed (the (w_status w')) then None
                                  else Some (Opaque ''http: request method or response status code does not allow body'')))))"

definition WriteNoContent :: "rw \<Rightarrow> hresult" where
  "WriteNoContent w = (case WriteHeader 204 w of Panicked p w \<Rightarrow> HPanic p w | Returned w \<Rightarrow> HReturn w None)"

definition JSON :: "marshal \<Rightarrow> request \<Rightarrow> int \<Rightarrow> json \<Rightarrow> rw \<Rightarrow> hresult" where
  "JSON marshal r status v w = WriteJSON marshal status (JObj [(''data'', v)]) w"

definition OK :: "marshal \<Rightarrow> request \<Rightarrow> json \<Rightarrow> rw \<Rightarrow> hresult" where
  "OK marshal r v w = JSON marshal r 200 v w"

definition Created :: "marshal \<Rightarrow> request \<Rightarrow> json \<Rightarrow> rw \<Rightarrow> hresult" where
  "Created marshal r v w = JSON marshal r 201 v w"

definition NoContent :: "request \<Rightarrow> rw \<Rightarrow> hresult" where
  "NoContent r w = WriteNoContent w"

text \<open>The tree of an \<^verbatim>\<open>Error\<close> by its struct tags: an empty code and empty fields are omitted, the status and
  the cause have no member.\<close>

definition error_json :: "string \<Rightarrow> string \<Rightarrow> (string \<times> string) list \<Rightarrow> json" where
  "error_json code message fs =
     JObj ((if code = [] then [] else [(''code'', JStr code)]) @ [(''message'', JStr message)]
           @ (if fs = [] then [] else [(''fields'', JObj (map (\<lambda>(k, v). (k, JStr v)) fs))]))"

definition DefaultErrorWriter :: "marshal \<Rightarrow> rw \<Rightarrow> request \<Rightarrow> herr \<Rightarrow> outcome" where
  "DefaultErrorWriter marshal w r err =
     (let httpErr = (case IsHTTPError err of Some h \<Rightarrow> h | None \<Rightarrow> WithInternal err (Internal ''internal server error''))
      in case httpErr of
           HTTPError status code message fs cause \<Rightarrow>
             (case WriteJSON marshal status (JObj [(''error'', error_json code message fs)]) w of
                HPanic p w \<Rightarrow> Panicked p w
              | HReturn w e \<Rightarrow> Returned w)
         | _ \<Rightarrow> Panicked ''nil pointer dereference'' w)"

type_synonym error_writer = "rw \<Rightarrow> request \<Rightarrow> herr \<Rightarrow> outcome"

definition ErrorWriterFunc_WriteError :: "error_writer \<Rightarrow> rw \<Rightarrow> request \<Rightarrow> herr \<Rightarrow> outcome" where
  [simp]: "ErrorWriterFunc_WriteError f w r err = f w r err"

definition HandlerWithErrorWriter :: "marshal \<Rightarrow> hfunc \<Rightarrow> error_writer option \<Rightarrow> handler" where
  "HandlerWithErrorWriter marshal fn wr r w =
     (let writer = (case wr of None \<Rightarrow> DefaultErrorWriter marshal | Some f \<Rightarrow> f)
      in case fn r w of
           HPanic p w \<Rightarrow> Panicked p w
         | HReturn w None \<Rightarrow> Returned w
         | HReturn w (Some err) \<Rightarrow> ErrorWriterFunc_WriteError writer w r err)"

definition Handler :: "marshal \<Rightarrow> hfunc \<Rightarrow> handler" where
  "Handler marshal fn = HandlerWithErrorWriter marshal fn (Some (DefaultErrorWriter marshal))"

section \<open>Decoding requests\<close>

text \<open>The two ways a type can have a \<^verbatim>\<open>Validate\<close> method: on the value, or on the pointer, where it may
  change the value.\<close>

record 't validatable =
  on_value :: "('t \<Rightarrow> herr option) option"
  on_pointer :: "('t \<Rightarrow> herr option \<times> 't) option"

definition invalid :: "herr \<Rightarrow> herr" where
  "invalid err =
     (let httpErr = WithInternal err (WithCode ''validation_failed'' (BadRequest ''validation failed''))
      in case err of FieldErrs fs \<Rightarrow> WithFields fs httpErr | _ \<Rightarrow> httpErr)"

definition Bind :: "(string \<Rightarrow> 't \<times> herr option) \<Rightarrow> 't validatable \<Rightarrow> string \<Rightarrow> 't \<times> herr option" where
  "Bind decode T body =
     (case decode body of
        (v, Some err) \<Rightarrow> (v, Some (WithInternal err (WithCode ''invalid_json'' (BadRequest ''invalid JSON body''))))
      | (v, None) \<Rightarrow>
          (let (err, v) = (case on_value T of
                             Some f \<Rightarrow> (f v, v)
                           | None \<Rightarrow> (case on_pointer T of Some f \<Rightarrow> f v | None \<Rightarrow> (None, v)))
           in case err of None \<Rightarrow> (v, None) | Some e \<Rightarrow> (v, Some (invalid e))))"

section \<open>Lemmas\<close>

text \<open>What a client may see of an error.\<close>

fun visible :: "herr option \<Rightarrow> (int \<times> string \<times> string \<times> (string \<times> string) list) option" where
  "visible (Some (HTTPError s c m f e)) = Some (s, c, m, f)"
| "visible (Some e) = None"
| "visible None = Some (500, [], ''internal server error'', [])"

lemma IsHTTPError_cases: "IsHTTPError e = Some h \<Longrightarrow> h = NilHTTPError \<or> (\<exists>s c m f x. h = HTTPError s c m f x)"
  and "first_HTTPError es = Some h \<Longrightarrow> h = NilHTTPError \<or> (\<exists>s c m f x. h = HTTPError s c m f x)"
  by (induction e and es rule: IsHTTPError_first_HTTPError.induct) (auto split: option.splits)

lemma DefaultErrorWriter_visible:
  "DefaultErrorWriter marshal w r err =
     (case visible (IsHTTPError err) of
        None \<Rightarrow> Panicked ''nil pointer dereference'' w
      | Some (s, c, m, f) \<Rightarrow>
          (case WriteJSON marshal s (JObj [(''error'', error_json c m f)]) w of
             HPanic p w \<Rightarrow> Panicked p w
           | HReturn w e \<Rightarrow> Returned w))"
  using IsHTTPError_cases(1) [of err]
  by (cases "IsHTTPError err") (auto simp: DefaultErrorWriter_def Internal_def newError_def)

lemma WriteJSON_ok:
  assumes "marshal v = Inr d" "w_status w = None" "200 \<le> code" "code \<le> 999" "body_allowed code"
  shows "\<exists>w'. WriteJSON marshal code v w = HReturn w' None \<and> w_status w' = Some code \<and> w_body w' = w_body w @ d @ [CHR 0x0A]
           \<and> Header_Get (w_sent w') ''Content-Type'' = ''application/json; charset=utf-8''"
  using assms by (simp add: WriteJSON_def WriteHeader_final Write_def Header_Get_Set)

section \<open>Properties\<close>

text \<open>C13. Errors reach the client without their internals: when a handler fails before it has answered,
  the response is the status, code, message and fields of the first \<^verbatim>\<open>*Error\<close> among the causes, or 500
  with a fixed message if there is none. Two errors that agree on these give the same response,
  whatever they wrap.\<close>

theorem handler_error_response:
  assumes "fn r w = HReturn w1 (Some err)" "w_status w1 = None"
    and "visible (IsHTTPError err) = Some (s, c, m, f)" "200 \<le> s" "s \<le> 999" "body_allowed s"
    and "marshal (JObj [(''error'', error_json c m f)]) = Inr d"
  shows "(\<exists>w'. Handler marshal fn r w = Returned w' \<and> w_status w' = Some s \<and> w_body w' = w_body w1 @ d @ [CHR 0x0A]
            \<and> Header_Get (w_sent w') ''Content-Type'' = ''application/json; charset=utf-8'')
       \<and> (\<forall>fn' err'. fn' r w = HReturn w1 (Some err') \<and> visible (IsHTTPError err') = Some (s, c, m, f)
            \<longrightarrow> Handler marshal fn' r w = Handler marshal fn r w)"
proof
  from WriteJSON_ok [of marshal, OF assms(7,2,4-6)]
  show "\<exists>w'. Handler marshal fn r w = Returned w' \<and> w_status w' = Some s \<and> w_body w' = w_body w1 @ d @ [CHR 0x0A]
            \<and> Header_Get (w_sent w') ''Content-Type'' = ''application/json; charset=utf-8''"
    using assms(1,3) by (auto simp: Handler_def HandlerWithErrorWriter_def DefaultErrorWriter_visible)
  have same: "Handler marshal g r w = (case WriteJSON marshal s (JObj [(''error'', error_json c m f)]) w1 of
             HPanic p w \<Rightarrow> Panicked p w | HReturn w e \<Rightarrow> Returned w)"
    if "g r w = HReturn w1 (Some e)" "visible (IsHTTPError e) = Some (s, c, m, f)" for g e
    using that by (simp add: Handler_def HandlerWithErrorWriter_def DefaultErrorWriter_visible)
  show "\<forall>fn' err'. fn' r w = HReturn w1 (Some err') \<and> visible (IsHTTPError err') = Some (s, c, m, f)
            \<longrightarrow> Handler marshal fn' r w = Handler marshal fn r w"
    using same [of fn err] assms(1,3) same by metis
qed

definition demo_get :: request where
  "demo_get = \<lparr>r_method = ''GET'', r_path = ''/'', r_query = (\<lambda>_. []), r_header = (\<lambda>_. []),
     r_ctx = \<lparr>cv_user = None, cv_roles = None, cv_request_id = None\<rparr>\<rparr>"

theorem handler_error_response_witness:
  "\<exists>w'. Handler (\<lambda>_. Inr ''{}'') (\<lambda>r w. HReturn w (Some (Wrapped ''db'' (Opaque ''password'')))) demo_get new_rw = Returned w'
     \<and> w_status w' = Some 500 \<and> w_body w' = ''{}'' @ [CHR 0x0A]"
proof -
  let ?fn = "\<lambda>r w. HReturn w (Some (Wrapped ''db'' (Opaque ''password'')))"
  have "\<exists>w'. Handler (\<lambda>_. Inr ''{}'') ?fn demo_get new_rw = Returned w' \<and> w_status w' = Some 500
     \<and> w_body w' = w_body new_rw @ ''{}'' @ [CHR 0x0A]
     \<and> Header_Get (w_sent w') ''Content-Type'' = ''application/json; charset=utf-8''"
    by (rule handler_error_response [where err = "Wrapped ''db'' (Opaque ''password'')", THEN conjunct1])
       (simp_all add: new_rw_def body_allowed_def)
  then show ?thesis by (auto simp: new_rw_def)
qed

text \<open>Decoding a request: the result carries no error exactly when the body decodes and the type's
  own validation, if it has one, accepts the value; every error is a 400 whose code tells which
  of the two failed, which keeps the cause internally, and which exposes the field messages of a
  validation error that has them.\<close>

theorem bind_result:
  "(snd (Bind decode T body) = None) =
     (snd (decode body) = None \<and>
      (case on_value T of
         Some f \<Rightarrow> f (fst (decode body)) = None
       | None \<Rightarrow> (case on_pointer T of Some f \<Rightarrow> fst (f (fst (decode body))) = None | None \<Rightarrow> True)))
   \<and> (case snd (Bind decode T body) of
        None \<Rightarrow> True
      | Some e \<Rightarrow> \<exists>cause. Status e = 400 \<and> Error_Unwrap e = Some (Some cause) \<and> Error_Error e = Some (Message e)
          \<and> (if snd (decode body) \<noteq> None
             then Code e = ''invalid_json'' \<and> Message e = ''invalid JSON body'' \<and> Fields e = [] \<and> snd (decode body) = Some cause
             else Code e = ''validation_failed'' \<and> Message e = ''validation failed''
                  \<and> Fields e = (case cause of FieldErrs fs \<Rightarrow> fs | _ \<Rightarrow> [])))"
proof -
  have inv: "Status (invalid e) = 400 \<and> Error_Unwrap (invalid e) = Some (Some e) \<and> Error_Error (invalid e) = Some (Message (invalid e)) \<and> Code (invalid e) = ''validation_failed''
      \<and> Message (invalid e) = ''validation failed'' \<and> Fields (invalid e) = (case e of FieldErrs fs \<Rightarrow> fs | _ \<Rightarrow> [])" for e
    by (cases e) (simp_all add: invalid_def BadRequest_def newError_def)
  show ?thesis
    by (auto simp: Bind_def BadRequest_def newError_def inv split: option.split prod.split)
qed

text \<open>A handler that returns a nil \<^verbatim>\<open>*Error\<close> as its error makes the adapter panic instead of answering.\<close>

theorem handler_typed_nil_panics:
  "Handler marshal (\<lambda>r w. HReturn w (Some NilHTTPError)) r w = Panicked ''nil pointer dereference'' w"
  by (simp add: Handler_def HandlerWithErrorWriter_def DefaultErrorWriter_def)

end
