(* ===== verification/Validx.thy ===== *)
theory Validx
  imports Go_Strconv "HOL-Library.AList"
begin

text \<open>
  \<^verbatim>\<open>validx/validx.go\<close>: struct validation that leaves unset optional \<^verbatim>\<open>fieldx\<close> fields alone, and readable
  messages. A value is seen through reflection as a finite tree; the validator library
  (\<^verbatim>\<open>go-playground/validator\<close>) is two parameters, the registration of a type's value function and the
  filtered validation of a struct.
\<close>

section \<open>Reflected values\<close>

record StructField =
  sf_Name :: string
  sf_PkgPath :: string
  sf_Anonymous :: bool
  sf_validate :: string
  sf_json :: string

text \<open>A struct has a type name, a package path and its fields in order; a pointer is nil or leads to a
  value; slices and arrays have elements; every other kind is opaque.\<close>

datatype rval =
    RStruct string string "(StructField \<times> rval) list"
  | RPtr "rval option"
  | RList "rval list"
  | RBool bool
  | ROther string
  | RInvalid

fun dereference :: "rval \<Rightarrow> rval" where
  "dereference (RPtr None) = RInvalid"
| "dereference (RPtr (Some v)) = dereference v"
| "dereference v = v"

definition isFieldxField :: "rval \<Rightarrow> bool" where
  "isFieldxField v =
     (case v of RStruct name pkg _ \<Rightarrow> pkg = ''github.com/r6m/gox/fieldx'' \<and> HasPrefix name ''Field['' | _ \<Rightarrow> False)"

text \<open>The state of a \<^verbatim>\<open>fieldx.Field\<close>: its members \<^verbatim>\<open>value\<close>, \<^verbatim>\<open>set\<close> and \<^verbatim>\<open>null\<close>, which its methods read.\<close>

fun field_members :: "rval \<Rightarrow> (rval \<times> bool \<times> bool) option" where
  "field_members (RStruct _ _ [(_, v), (_, RBool s), (_, RBool n)]) = Some (v, s, n)"
| "field_members v = None"

text \<open>Reflection's flags: a value reached through an embedded unexported struct can be used again from an
  exported field on; the elements of an embedded unexported slice or array cannot.\<close>

datatype ro = Exported | EmbedRO | StickyRO

definition field_ro :: "ro \<Rightarrow> StructField \<Rightarrow> ro" where
  "field_ro ro ft =
     (if ro = StickyRO then StickyRO
      else if sf_PkgPath ft = [] then Exported
      else if sf_Anonymous ft then EmbedRO else StickyRO)"

definition elem_ro :: "ro \<Rightarrow> ro" where
  "elem_ro ro = (if ro = Exported then Exported else StickyRO)"

definition CanInterface :: "ro \<Rightarrow> bool" where
  "CanInterface ro \<longleftrightarrow> ro = Exported"

definition fieldxIsSet :: "ro \<Rightarrow> rval \<Rightarrow> bool" where
  "fieldxIsSet ro v = (if \<not> CanInterface ro then False else (case field_members v of Some (_, s, _) \<Rightarrow> s | None \<Rightarrow> False))"

definition fieldxValue :: "ro \<Rightarrow> rval \<Rightarrow> rval option" where
  "fieldxValue ro v =
     (if \<not> CanInterface ro then None
      else (case field_members v of Some (x, s, n) \<Rightarrow> if s \<and> \<not> n then Some x else None | None \<Rightarrow> None))"

section \<open>Presence rules\<close>

fun option_loop :: "string list \<Rightarrow> bool" where
  "option_loop [] = False"
| "option_loop (opt # rest) = (if opt = ''required'' \<or> HasPrefix opt ''required_'' then True else option_loop rest)"

fun rule_loop :: "string list \<Rightarrow> bool" where
  "rule_loop [] = False"
| "rule_loop (r # rest) =
     (let (name, _, _) = Cut r CHR ''='' in if option_loop (Split name CHR ''|'') then True else rule_loop rest)"

definition requiresPresence :: "string \<Rightarrow> bool" where
  "requiresPresence tag = rule_loop (Split tag CHR '','')"

section \<open>Preparing a value\<close>

record 'i Validator =
  inst :: 'i
  fieldxFieldTypes :: "string list"

definition New :: "'i \<Rightarrow> 'i Validator" where
  "New i = \<lparr>inst = i, fieldxFieldTypes = []\<rparr>"

text \<open>The name function that \<^verbatim>\<open>New\<close> registers: the JSON name up to a comma.\<close>

definition tag_name :: "StructField \<Rightarrow> string" where
  "tag_name f =
     (let name = hd (Split (sf_json f) CHR '','')
      in if name = ''-'' then [] else if name = [] then sf_Name f else name)"

definition registerFieldxFieldType :: "(string \<Rightarrow> 'i \<Rightarrow> 'i) \<Rightarrow> string \<Rightarrow> 'i Validator \<Rightarrow> 'i Validator" where
  "registerFieldxFieldType reg typ v =
     (if typ \<in> set (fieldxFieldTypes v) then v
      else v\<lparr>inst := reg typ (inst v), fieldxFieldTypes := fieldxFieldTypes v @ [typ]\<rparr>)"

definition type_name :: "rval \<Rightarrow> string" where
  "type_name v = (case v of RStruct name _ _ \<Rightarrow> name | _ \<Rightarrow> [])"

definition field_ns :: "string \<Rightarrow> StructField \<Rightarrow> string" where
  "field_ns ns ft = (if ns \<noteq> [] then ns @ ''.'' @ sf_Name ft else sf_Name ft)"

definition elem_ns :: "string \<Rightarrow> nat \<Rightarrow> string" where
  "elem_ns ns i = ns @ ''['' @ dec i @ '']''"

definition hidden :: "StructField \<Rightarrow> bool" where
  "hidden ft \<longleftrightarrow> sf_PkgPath ft \<noteq> [] \<and> \<not> sf_Anonymous ft"

primrec weight :: "rval \<Rightarrow> nat" where
  "weight (RStruct n p fs) = Suc (sum_list (map (\<lambda>x. Suc (Suc (snd x))) (map (map_prod id weight) fs)))"
| "weight (RPtr v) = Suc (case map_option weight v of None \<Rightarrow> 0 | Some w \<Rightarrow> w)"
| "weight (RList vs) = Suc (sum_list (map (\<lambda>w. Suc (Suc w)) (map weight vs)))"
| "weight (RBool b) = 0"
| "weight (ROther k) = 0"
| "weight RInvalid = 0"

lemma weight_dereference: "weight (dereference v) \<le> weight v"
  by (induction v rule: dereference.induct) auto

text \<open>The state is the validator and the namespaces to skip.\<close>

type_synonym 'i prep = "'i Validator \<times> string list"

function (sequential) prepareFieldxFields :: "(string \<Rightarrow> 'i \<Rightarrow> 'i) \<Rightarrow> rval \<Rightarrow> ro \<Rightarrow> string \<Rightarrow> 'i prep \<Rightarrow> 'i prep"
  and field_loop :: "(string \<Rightarrow> 'i \<Rightarrow> 'i) \<Rightarrow> (StructField \<times> rval) list \<Rightarrow> ro \<Rightarrow> string \<Rightarrow> 'i prep \<Rightarrow> 'i prep"
  and prepareNestedFieldxFields :: "(string \<Rightarrow> 'i \<Rightarrow> 'i) \<Rightarrow> rval \<Rightarrow> ro \<Rightarrow> string \<Rightarrow> 'i prep \<Rightarrow> 'i prep"
  and elem_loop :: "(string \<Rightarrow> 'i \<Rightarrow> 'i) \<Rightarrow> rval list \<Rightarrow> ro \<Rightarrow> string \<Rightarrow> nat \<Rightarrow> 'i prep \<Rightarrow> 'i prep" where
  "prepareFieldxFields reg v ro ns st =
     (case dereference v of
        RStruct name pkg fs \<Rightarrow> field_loop reg fs ro (if ns = [] then name else ns) st
      | _ \<Rightarrow> st)"
| "field_loop reg [] ro ns st = st"
| "field_loop reg ((ft, field) # fs) ro ns st =
     field_loop reg fs ro ns
       (if hidden ft then st
        else if isFieldxField field then
          (let v = registerFieldxFieldType reg (type_name field) (fst st)
           in if \<not> fieldxIsSet (field_ro ro ft) field \<and> \<not> requiresPresence (sf_validate ft)
              then (v, List.insert (field_ns ns ft) (snd st)) else (v, snd st))
        else prepareNestedFieldxFields reg field (field_ro ro ft) (field_ns ns ft) st)"
| "prepareNestedFieldxFields reg v ro ns st =
     (case dereference v of
        RStruct name pkg fs \<Rightarrow> prepareFieldxFields reg (RStruct name pkg fs) ro ns st
      | RList vs \<Rightarrow> elem_loop reg vs (elem_ro ro) ns 0 st
      | _ \<Rightarrow> st)"
| "elem_loop reg [] ro ns i st = st"
| "elem_loop reg (v # vs) ro ns i st = elem_loop reg vs ro ns (Suc i) (prepareNestedFieldxFields reg v ro (elem_ns ns i) st)"
  by pat_completeness auto
termination
proof (relation "measure (\<lambda>x. case x of
      Inl (Inl (_, v, _, _, _)) \<Rightarrow> 2 * weight v
    | Inl (Inr (_, fs, _, _, _)) \<Rightarrow> 2 * sum_list (map (\<lambda>x. Suc (Suc (weight (snd x)))) fs)
    | Inr (Inl (_, v, _, _, _)) \<Rightarrow> Suc (2 * weight v)
    | Inr (Inr (_, vs, _, _, _, _)) \<Rightarrow> 2 * sum_list (map (\<lambda>v. Suc (Suc (weight v))) vs))", goal_cases)
  case (2 reg v ro ns st n p fs)
  then show ?case using weight_dereference [of v] by (simp add: o_def)
next
  case (5 reg v ro ns st n p fs)
  then show ?case using weight_dereference [of v] by simp
next
  case (6 reg v ro ns st vs)
  then show ?case using weight_dereference [of v] by (simp add: o_def)
qed auto

declare prepareFieldxFields.simps [simp del] prepareNestedFieldxFields.simps [simp del]

section \<open>Errors and messages\<close>

record FieldError =
  fe_Namespace :: string
  fe_Tag :: string
  fe_Param :: string
  fe_Kind :: string

datatype verr =
    FieldErrors "(string \<times> string) list"
  | ValidationErrors "FieldError list"
  | InvalidError string
  | VWrap string verr

text \<open>The methods of \<^verbatim>\<open>FieldErrors\<close>.\<close>

definition FieldErrors_Error :: "(string \<times> string) list \<Rightarrow> string" where
  "FieldErrors_Error e = ''validation failed''"

definition FieldErrors_Fields :: "(string \<times> string) list \<Rightarrow> (string \<times> string) list" where
  "FieldErrors_Fields e = e"

definition lengthUnit :: "FieldError \<Rightarrow> string" where
  "lengthUnit err =
     (if fe_Kind err = ''string'' \<or> fe_Kind err = ''array'' \<or> fe_Kind err = ''slice'' \<or> fe_Kind err = ''map''
      then (if fe_Param err = ''1'' then '' character'' else '' characters'')
      else [])"

definition message :: "FieldError \<Rightarrow> string" where
  "message err =
     (let tag = fe_Tag err; param = fe_Param err in
      if tag = ''required'' then ''is required''
      else if tag = ''email'' then ''must be a valid email''
      else if tag = ''min'' then ''must be at least '' @ param @ lengthUnit err
      else if tag = ''max'' then ''must be at most '' @ param @ lengthUnit err
      else if tag = ''len'' then ''must be exactly '' @ param @ lengthUnit err
      else if tag = ''oneof'' then ''must be one of: '' @ param
      else if tag = ''uuid'' then ''must be a valid UUID''
      else if tag = ''url'' then ''must be a valid URL''
      else if tag = ''gte'' then ''must be greater than or equal to '' @ param
      else if tag = ''lte'' then ''must be less than or equal to '' @ param
      else ''failed validation for '' @ tag)"

text \<open>\<^verbatim>\<open>errors.As\<close> for the two map and slice types.\<close>

primrec as_FieldErrors :: "verr \<Rightarrow> (string \<times> string) list option" where
  "as_FieldErrors (FieldErrors m) = Some m"
| "as_FieldErrors (ValidationErrors es) = None"
| "as_FieldErrors (InvalidError s) = None"
| "as_FieldErrors (VWrap s e) = as_FieldErrors e"

primrec as_ValidationErrors :: "verr \<Rightarrow> FieldError list option" where
  "as_ValidationErrors (FieldErrors m) = None"
| "as_ValidationErrors (ValidationErrors es) = Some es"
| "as_ValidationErrors (InvalidError s) = None"
| "as_ValidationErrors (VWrap s e) = as_ValidationErrors e"

definition field_name :: "FieldError \<Rightarrow> string" where
  "field_name e = (let name = fe_Namespace e in case IndexByte name CHR ''.'' of Some dot \<Rightarrow> drop (dot + 1) name | None \<Rightarrow> name)"

fun message_loop :: "FieldError list \<Rightarrow> (string \<times> string) list \<Rightarrow> (string \<times> string) list" where
  "message_loop [] fs = fs"
| "message_loop (e # es) fs = message_loop es (AList.update (field_name e) (message e) fs)"

definition Fields_of :: "verr \<Rightarrow> (string \<times> string) list" where
  "Fields_of err =
     (case as_FieldErrors err of
        Some m \<Rightarrow> m
      | None \<Rightarrow> (case as_ValidationErrors err of None \<Rightarrow> [] | Some es \<Rightarrow> message_loop es []))"

text \<open>\<^verbatim>\<open>Struct\<close>: \<open>validate\<close> is the library's \<^verbatim>\<open>StructFiltered\<close>.\<close>

definition Validator_Struct ::
  "(string \<Rightarrow> 'i \<Rightarrow> 'i) \<Rightarrow> ('i \<Rightarrow> rval \<Rightarrow> (string \<Rightarrow> bool) \<Rightarrow> verr option) \<Rightarrow> rval \<Rightarrow> 'i Validator \<Rightarrow> verr option \<times> 'i Validator" where
  "Validator_Struct reg validate x v =
     (let (v, skip) = prepareFieldxFields reg x Exported [] (v, [])
      in case validate (inst v) x (\<lambda>ns. ns \<in> set skip) of
           None \<Rightarrow> (None, v)
         | Some err \<Rightarrow>
             (let fs = Fields_of err in if 0 < length fs then (Some (FieldErrors fs), v) else (Some err, v)))"

text \<open>Custom tags go to the library's instance; the package's own functions act on a validator it keeps.\<close>

definition Validator_RegisterValidation ::
  "(string \<Rightarrow> 'f \<Rightarrow> 'i \<Rightarrow> verr option \<times> 'i) \<Rightarrow> string \<Rightarrow> 'f \<Rightarrow> 'i Validator \<Rightarrow> verr option \<times> 'i Validator" where
  "Validator_RegisterValidation regv tag fn v = (let (e, i) = regv tag fn (inst v) in (e, v\<lparr>inst := i\<rparr>))"

definition Struct ::
  "(string \<Rightarrow> 'i \<Rightarrow> 'i) \<Rightarrow> ('i \<Rightarrow> rval \<Rightarrow> (string \<Rightarrow> bool) \<Rightarrow> verr option) \<Rightarrow> rval \<Rightarrow> 'i Validator \<Rightarrow> verr option \<times> 'i Validator" where
  "Struct reg validate x defaultValidator = Validator_Struct reg validate x defaultValidator"

definition RegisterValidation ::
  "(string \<Rightarrow> 'f \<Rightarrow> 'i \<Rightarrow> verr option \<times> 'i) \<Rightarrow> string \<Rightarrow> 'f \<Rightarrow> 'i Validator \<Rightarrow> verr option \<times> 'i Validator" where
  "RegisterValidation regv tag fn defaultValidator = Validator_RegisterValidation regv tag fn defaultValidator"

section \<open>What is skipped\<close>

text \<open>The reference: \<open>optional_unset v ro ns t\<close> says that the value \<open>v\<close>, at namespace \<open>ns\<close>, holds an unset field
  without a presence rule at namespace \<open>t\<close>, reached through pointers, visible struct fields and the
  elements of slices and arrays.\<close>

inductive optional_unset :: "rval \<Rightarrow> ro \<Rightarrow> string \<Rightarrow> string \<Rightarrow> bool" where
  here: "\<lbrakk>dereference v = RStruct name pkg fs; (ft, field) \<in> set fs; \<not> hidden ft; isFieldxField field;
     \<not> fieldxIsSet (field_ro ro ft) field; \<not> requiresPresence (sf_validate ft)\<rbrakk>
    \<Longrightarrow> optional_unset v ro ns (field_ns (if ns = [] then name else ns) ft)"
| inner: "\<lbrakk>dereference v = RStruct name pkg fs; (ft, field) \<in> set fs; \<not> hidden ft; \<not> isFieldxField field;
     optional_unset field (field_ro ro ft) (field_ns (if ns = [] then name else ns) ft) t\<rbrakk> \<Longrightarrow> optional_unset v ro ns t"
| elem: "\<lbrakk>dereference v = RList vs; i < length vs; optional_unset (vs ! i) (elem_ro ro) (elem_ns ns i) t\<rbrakk> \<Longrightarrow> optional_unset v ro ns t"

inductive_simps optional_unset_iff: "optional_unset v ro ns t"

definition unset_in_fields :: "(StructField \<times> rval) list \<Rightarrow> ro \<Rightarrow> string \<Rightarrow> string \<Rightarrow> bool" where
  "unset_in_fields fs ro ns t \<longleftrightarrow>
     (\<exists>(ft, field) \<in> set fs. \<not> hidden ft \<and>
        (if isFieldxField field
         then \<not> fieldxIsSet (field_ro ro ft) field \<and> \<not> requiresPresence (sf_validate ft) \<and> t = field_ns ns ft
         else optional_unset field (field_ro ro ft) (field_ns ns ft) t))"

lemma optional_unset_struct:
  "dereference v = RStruct name pkg fs \<Longrightarrow> optional_unset v ro ns t \<longleftrightarrow> unset_in_fields fs ro (if ns = [] then name else ns) t"
  by (subst optional_unset_iff) (auto simp: unset_in_fields_def split: if_splits)

lemma optional_unset_list:
  "dereference v = RList vs \<Longrightarrow> optional_unset v ro ns t \<longleftrightarrow> (\<exists>i<length vs. optional_unset (vs ! i) (elem_ro ro) (elem_ns ns i) t)"
  by (subst optional_unset_iff) auto

lemma optional_unset_other:
  "\<lbrakk>\<And>n p fs. dereference v \<noteq> RStruct n p fs; \<And>vs. dereference v \<noteq> RList vs\<rbrakk> \<Longrightarrow> \<not> optional_unset v ro ns t"
  by (subst optional_unset_iff) auto

lemma dereference_idem [simp]: "dereference (dereference v) = dereference v"
  by (induction v rule: dereference.induct) auto

lemma dereference_struct: "dereference v = RStruct n p fs \<Longrightarrow> dereference (RStruct n p fs) = RStruct n p fs"
  by simp

lemma prepare_skip:
  "(\<exists>n p fs. dereference v = RStruct n p fs) \<longrightarrow>
     set (snd (prepareFieldxFields reg v ro ns st)) = set (snd st) \<union> {t. optional_unset v ro ns t}"
  "set (snd (field_loop reg fs ro ns st)) = set (snd st) \<union> {t. unset_in_fields fs ro ns t}"
  "set (snd (prepareNestedFieldxFields reg v ro ns st)) = set (snd st) \<union> {t. optional_unset v ro ns t}"
  "set (snd (elem_loop reg vs ro ns i st)) = set (snd st) \<union> {t. \<exists>j<length vs. optional_unset (vs ! j) ro (elem_ns ns (i + j)) t}"
proof (induction reg v ro ns st and reg fs ro ns st and reg v ro ns st and reg vs ro ns i st
    rule: prepareFieldxFields_field_loop_prepareNestedFieldxFields_elem_loop.induct)
  case (1 reg v ro ns st)
  then show ?case by (auto simp: prepareFieldxFields.simps [of reg v] optional_unset_struct)
next
  case (3 reg ft field fs ro ns st)
  have "unset_in_fields ((ft, field) # fs) ro ns t \<longleftrightarrow> unset_in_fields fs ro ns t \<or> \<not> hidden ft \<and>
        (if isFieldxField field
         then \<not> fieldxIsSet (field_ro ro ft) field \<and> \<not> requiresPresence (sf_validate ft) \<and> t = field_ns ns ft
         else optional_unset field (field_ro ro ft) (field_ns ns ft) t)" for t
    by (auto simp: unset_in_fields_def)
  with 3 show ?case by (auto simp: Let_def)
next
  case (4 reg v ro ns st)
  show ?case
  proof (cases "dereference v")
    case (RStruct n p fs)
    with 4(1) [OF RStruct] show ?thesis
      by (simp add: prepareNestedFieldxFields.simps [of reg v] optional_unset_struct)
  next
    case (RList vs)
    with 4(2) [OF RList] show ?thesis by (simp add: prepareNestedFieldxFields.simps [of reg v] optional_unset_list)
  qed (simp_all add: prepareNestedFieldxFields.simps [of reg v] optional_unset_other)
next
  case (6 reg v vs ro ns i st)
  have "(\<exists>j<length (v # vs). optional_unset ((v # vs) ! j) ro (elem_ns ns (i + j)) t) \<longleftrightarrow>
      optional_unset v ro (elem_ns ns i) t \<or> (\<exists>j<length vs. optional_unset (vs ! j) ro (elem_ns ns (Suc i + j)) t)" for t
    by (auto simp: less_Suc_eq_0_disj)
  with 6 show ?case by auto
next
  case (2 reg ro ns st)
  show ?case by (simp add: unset_in_fields_def)
next
  case (5 reg ro ns i st)
  show ?case by simp
qed

section \<open>Registered types\<close>

text \<open>Each type is registered with the library once: the library's state is its registrations in the
  order of the recorded types.\<close>

definition registered :: "(string \<Rightarrow> 'i \<Rightarrow> 'i) \<Rightarrow> 'i \<Rightarrow> 'i Validator \<Rightarrow> bool" where
  "registered reg i0 v \<longleftrightarrow> distinct (fieldxFieldTypes v) \<and> inst v = fold reg (fieldxFieldTypes v) i0"

lemma register_registered: "registered reg i0 v \<Longrightarrow> registered reg i0 (registerFieldxFieldType reg typ v)"
  by (simp add: registered_def registerFieldxFieldType_def)

lemma prepare_registered:
  "registered reg i0 (fst st) \<Longrightarrow> registered reg i0 (fst (prepareFieldxFields reg v ro ns st))"
  "registered reg i0 (fst st) \<Longrightarrow> registered reg i0 (fst (field_loop reg fs ro ns st))"
  "registered reg i0 (fst st) \<Longrightarrow> registered reg i0 (fst (prepareNestedFieldxFields reg v ro ns st))"
  "registered reg i0 (fst st) \<Longrightarrow> registered reg i0 (fst (elem_loop reg vs ro ns i st))"
proof (induction reg v ro ns st and reg fs ro ns st and reg v ro ns st and reg vs ro ns i st
    rule: prepareFieldxFields_field_loop_prepareNestedFieldxFields_elem_loop.induct)
  case (1 reg v ro ns st)
  then show ?case by (auto simp: prepareFieldxFields.simps [of reg v] split: rval.split)
next
  case (4 reg v ro ns st)
  then show ?case by (auto simp: prepareNestedFieldxFields.simps [of reg v] split: rval.split)
qed (auto simp: Let_def register_registered)

section \<open>Properties\<close>

lemma option_loop_iff: "option_loop os \<longleftrightarrow> (\<exists>opt\<in>set os. opt = ''required'' \<or> HasPrefix opt ''required_'')"
  by (induction os) auto

lemma rule_loop_iff:
  "rule_loop rs \<longleftrightarrow>
     (\<exists>r\<in>set rs. \<exists>opt\<in>set (Split (fst (Cut r CHR ''='')) CHR ''|''). opt = ''required'' \<or> HasPrefix opt ''required_'')"
  by (induction rs) (auto simp: option_loop_iff Let_def split: prod.split)

lemma Validator_Struct_skips:
  assumes "dereference x = RStruct name pkg fs" "registered reg i0 v" "Validator_Struct reg validate x v = (res, v')"
  shows "res = (case validate (inst v') x (optional_unset x Exported []) of
                  None \<Rightarrow> None
                | Some err \<Rightarrow> Some (if Fields_of err = [] then err else FieldErrors (Fields_of err)))" (is ?res)
    and "registered reg i0 v'"
proof -
  obtain v1 skip where p: "prepareFieldxFields reg x Exported [] (v, []) = (v1, skip)" by fastforce
  then have "set skip = {t. optional_unset x Exported [] t}" "registered reg i0 v1"
    using prepare_skip(1) [of x reg Exported "[]" "(v, [])"] prepare_registered(1) [of reg i0 "(v, [])" x Exported "[]"] assms(1,2) by auto
  moreover from this(1) have "(\<lambda>ns. ns \<in> set skip) = optional_unset x Exported []" by auto
  ultimately have "?res \<and> registered reg i0 v'"
    using assms(3) p by (auto simp: Validator_Struct_def Let_def split: option.splits if_splits)
  then show ?res "registered reg i0 v'" by auto
qed

text \<open>C12. Validation of a struct skips exactly the unset optional fields that the reference relation
  reaches: the result is what the library answers when it is told to skip those, with its field
  errors turned into messages. A field is optional unless one of its rules, or an alternative of
  one, is \<^verbatim>\<open>required\<close> or begins with \<^verbatim>\<open>required_\<close>; and each field type is registered with the library
  once, however often values are validated.\<close>

theorem struct_skips_unset_optional:
  assumes "dereference x = RStruct name pkg fs" "registered reg i0 v" "Validator_Struct reg validate x v = (res, v')"
  shows "res = (case validate (inst v') x (optional_unset x Exported []) of
                  None \<Rightarrow> None
                | Some err \<Rightarrow> Some (if Fields_of err = [] then err else FieldErrors (Fields_of err)))
       \<and> registered reg i0 v'
       \<and> requiresPresence tag =
           list_ex (\<lambda>r. list_ex (\<lambda>opt. opt = ''required'' \<or> HasPrefix opt ''required_'') (Split (fst (Cut r CHR ''='')) CHR ''|''))
             (Split tag CHR '','')"
  using Validator_Struct_skips [OF assms] by (simp add: requiresPresence_def rule_loop_iff list_ex_iff)

definition demo_field :: "string \<Rightarrow> string \<Rightarrow> StructField" where
  "demo_field name tag = \<lparr>sf_Name = name, sf_PkgPath = [], sf_Anonymous = False, sf_validate = tag, sf_json = []\<rparr>"

definition demo_unset :: rval where
  "demo_unset = RStruct ''Field[string]'' ''github.com/r6m/gox/fieldx''
     [(demo_field ''value'' [], ROther ''string''), (demo_field ''set'' [], RBool False), (demo_field ''null'' [], RBool False)]"

definition demo_struct :: rval where
  "demo_struct = RPtr (Some (RStruct ''User'' ''main'' [(demo_field ''Nick'' ''min=3'', demo_unset)]))"

theorem struct_skips_unset_optional_witness:
  "fst (Validator_Struct (\<lambda>t i. t # i) (\<lambda>i x skip. if skip ''User.Nick'' then None else Some (InvalidError ''x'')) demo_struct (New [])) = None"
proof -
  let ?val = "\<lambda>(i :: string list) (x :: rval) skip. if skip ''User.Nick'' then None else Some (InvalidError ''x'')"
  obtain res v' where r: "Validator_Struct (\<lambda>t i. t # i) ?val demo_struct (New []) = (res, v')" by fastforce
  have d: "dereference demo_struct = RStruct ''User'' ''main'' [(demo_field ''Nick'' ''min=3'', demo_unset)]"
    by (simp add: demo_struct_def)
  have n: "registered (\<lambda>t i. t # i) [] (New [])" by (simp add: registered_def New_def)
  have f: "isFieldxField demo_unset" "\<not> fieldxIsSet (field_ro Exported (demo_field ''Nick'' ''min=3'')) demo_unset"
    by (code_simp, code_simp)
  have "optional_unset demo_struct Exported [] (field_ns (if [] = ([] :: string) then ''User'' else []) (demo_field ''Nick'' ''min=3''))"
    by (rule optional_unset.here [OF d])
       (use f in \<open>simp_all add: demo_field_def hidden_def HasPrefix_def requiresPresence_def Cut_def\<close>)
  then have "optional_unset demo_struct Exported [] ''User.Nick''" by (simp add: field_ns_def demo_field_def)
  with struct_skips_unset_optional [OF d n r] r show ?thesis by simp
qed

lemma message_loop_map:
  "map_of (message_loop es fs) = map_of fs ++ map_of (rev (map (\<lambda>e. (field_name e, message e)) es))"
proof (induction es arbitrary: fs)
  case (Cons e es)
  then show ?case by (simp add: update_conv' map_add_assoc [symmetric] fun_eq_iff map_add_def split: option.split)
qed simp

lemma message_loop_distinct: "distinct (map fst fs) \<Longrightarrow> distinct (map fst (message_loop es fs))"
  by (induction es arbitrary: fs) (simp_all add: distinct_update)

lemma message_loop_nonempty: "fs \<noteq> [] \<Longrightarrow> message_loop es fs \<noteq> []"
  by (induction es arbitrary: fs) (simp_all add: update_nonempty)

text \<open>Field errors: the validator's errors become a map that gives each failing field, by its path
  without the name of the struct, the message of the last failure reported for it, and nothing
  else; errors that are already such a map are returned as they are.\<close>

theorem fields_messages:
  "(case as_FieldErrors err of
      Some m \<Rightarrow> Fields_of err = m
    | None \<Rightarrow>
        (case as_ValidationErrors err of
           None \<Rightarrow> Fields_of err = []
         | Some es \<Rightarrow>
             distinct (map fst (Fields_of err))
             \<and> map_of (Fields_of err) = map_of (rev (map (\<lambda>e. (field_name e, message e)) es))
             \<and> (Fields_of err = []) = (es = [])))"
proof -
  have "(message_loop es [] = []) = (es = [])" for es
    by (cases es) (simp_all add: message_loop_nonempty)
  then show ?thesis
    using message_loop_map [of _ "[]"] message_loop_distinct [of "[]"]
    by (auto simp: Fields_of_def split: option.split)
qed

end
