(* ===== verification/Pgxutil.thy ===== *)
theory Pgxutil
  imports Gox_Prelude
begin

text \<open>
  \<^verbatim>\<open>pgxutil/pgxutil.go\<close>: opening a pool, running a function in a transaction, and conversions between
  nullable pointers and \<^verbatim>\<open>pgtype\<close> values. The pgx library is a record of functions on the state \<open>'s\<close> of
  the database and its connections; \<open>pgx_db\<close> states what its documentation promises.
\<close>

section \<open>The library\<close>

record ('s, 'e) pgx =
  Begin :: "ctx \<Rightarrow> 's \<Rightarrow> 'e option \<times> 's"
  Commit :: "ctx \<Rightarrow> 's \<Rightarrow> 'e option \<times> 's"
  Rollback :: "ctx \<Rightarrow> 's \<Rightarrow> 'e option \<times> 's"
  NewPool :: "ctx \<Rightarrow> string \<Rightarrow> 's \<Rightarrow> 'e option \<times> 's"
  PoolPing :: "ctx \<Rightarrow> 's \<Rightarrow> 'e option \<times> 's"
  ClosePool :: "'s \<Rightarrow> 's"

text \<open>A callback panics or returns an error or a value.\<close>

datatype ('e, 'v) call = CallPanic string | CallReturn "'e + 'v"

section \<open>Pools\<close>

definition OpenPool :: "('s, 'e) pgx \<Rightarrow> ctx \<Rightarrow> string \<Rightarrow> 's \<Rightarrow> 'e option \<times> 's" where
  "OpenPool p ctx url s =
     (case NewPool p ctx url s of
        (Some e, s) \<Rightarrow> (Some e, s)
      | (None, s) \<Rightarrow>
          (case PoolPing p ctx s of
             (Some e, s) \<Rightarrow> (Some e, ClosePool p s)
           | (None, s) \<Rightarrow> (None, s)))"

definition Ping :: "('s, 'e) pgx \<Rightarrow> ctx \<Rightarrow> 's \<Rightarrow> 'e option \<times> 's" where
  "Ping p ctx s = PoolPing p ctx s"

section \<open>Transactions\<close>

text \<open>The deferred rollback runs on every way out once the transaction has begun, also when the callback
  panics; its error is ignored.\<close>

definition TxValue ::
  "('s, 'e) pgx \<Rightarrow> ctx \<Rightarrow> ('s \<Rightarrow> ('e, 'v) call \<times> 's) \<Rightarrow> 's \<Rightarrow> ('e, 'v) call \<times> 's" where
  "TxValue p ctx fn s =
     (case Begin p ctx s of
        (Some e, s) \<Rightarrow> (CallReturn (Inl e), s)
      | (None, s) \<Rightarrow>
          (let rollback = (\<lambda>r s. (r, snd (Rollback p ctx s)))
           in case fn s of
                (CallPanic m, s) \<Rightarrow> rollback (CallPanic m) s
              | (CallReturn (Inl e), s) \<Rightarrow> rollback (CallReturn (Inl e)) s
              | (CallReturn (Inr v), s) \<Rightarrow>
                  (case Commit p ctx s of
                     (Some e, s) \<Rightarrow> rollback (CallReturn (Inl e)) s
                   | (None, s) \<Rightarrow> rollback (CallReturn (Inr v)) s)))"

text \<open>\<^verbatim>\<open>Tx\<close>: the callback returns only an error.\<close>

definition Tx :: "('s, 'e) pgx \<Rightarrow> ctx \<Rightarrow> ('s \<Rightarrow> ('e, unit) call \<times> 's) \<Rightarrow> 's \<Rightarrow> ('e, unit) call \<times> 's" where
  "Tx p ctx fn s = TxValue p ctx fn s"

section \<open>What the library promises\<close>

text \<open>\<open>committed s\<close> is the durable data and \<open>working s\<close> the data the open transaction sees. A commit that
  fails may or may not have taken effect, but closes the transaction.\<close>

definition pgx_db :: "('s, 'e) pgx \<Rightarrow> ('s \<Rightarrow> 'd) \<Rightarrow> ('s \<Rightarrow> 'd option) \<Rightarrow> bool" where
  "pgx_db p committed working \<longleftrightarrow>
     (\<forall>ctx s. working s = None \<longrightarrow>
        (let (e, s') = Begin p ctx s
         in committed s' = committed s \<and> working s' = (if e = None then Some (committed s) else None)))
     \<and> (\<forall>ctx s d. working s = Some d \<longrightarrow>
        (let (e, s') = Commit p ctx s
         in working s' = None \<and> (if e = None then committed s' = d else committed s' \<in> {d, committed s})))
     \<and> (\<forall>ctx s. let s' = snd (Rollback p ctx s) in committed s' = committed s \<and> working s' = None)"

text \<open>A callback that only uses the transaction it is given and leaves it open.\<close>

definition tx_only :: "('s \<Rightarrow> 'd) \<Rightarrow> ('s \<Rightarrow> 'd option) \<Rightarrow> ('s \<Rightarrow> 'r \<times> 's) \<Rightarrow> bool" where
  "tx_only committed working fn \<longleftrightarrow>
     (\<forall>s. working s \<noteq> None \<longrightarrow> committed (snd (fn s)) = committed s \<and> working (snd (fn s)) \<noteq> None)"

section \<open>Nullable values\<close>

record 'a pgvalue =
  pg_val :: 'a
  Valid :: bool

type_synonym uuid = "8 word list"

text \<open>\<open>null zero\<close> is the zero value of a \<^verbatim>\<open>pgtype\<close> struct.\<close>

definition null :: "'a \<Rightarrow> 'a pgvalue" where
  "null zero = \<lparr>pg_val = zero, Valid = False\<rparr>"

definition Text :: "string option \<Rightarrow> string pgvalue" where
  "Text v = (case v of None \<Rightarrow> null [] | Some x \<Rightarrow> \<lparr>pg_val = x, Valid = True\<rparr>)"

definition TextPtr :: "string pgvalue \<Rightarrow> string option" where
  "TextPtr v = (if \<not> Valid v then None else Some (pg_val v))"

definition Int4 :: "32 word option \<Rightarrow> 32 word pgvalue" where
  "Int4 v = (case v of None \<Rightarrow> null 0 | Some x \<Rightarrow> \<lparr>pg_val = x, Valid = True\<rparr>)"

definition Int4Ptr :: "32 word pgvalue \<Rightarrow> 32 word option" where
  "Int4Ptr v = (if \<not> Valid v then None else Some (pg_val v))"

definition Int8 :: "64 word option \<Rightarrow> 64 word pgvalue" where
  "Int8 v = (case v of None \<Rightarrow> null 0 | Some x \<Rightarrow> \<lparr>pg_val = x, Valid = True\<rparr>)"

definition Int8Ptr :: "64 word pgvalue \<Rightarrow> 64 word option" where
  "Int8Ptr v = (if \<not> Valid v then None else Some (pg_val v))"

definition Bool :: "bool option \<Rightarrow> bool pgvalue" where
  "Bool v = (case v of None \<Rightarrow> null False | Some x \<Rightarrow> \<lparr>pg_val = x, Valid = True\<rparr>)"

definition BoolPtr :: "bool pgvalue \<Rightarrow> bool option" where
  "BoolPtr v = (if \<not> Valid v then None else Some (pg_val v))"

definition Timestamptz :: "time option \<Rightarrow> time pgvalue" where
  "Timestamptz v = (case v of None \<Rightarrow> null 0 | Some x \<Rightarrow> \<lparr>pg_val = x, Valid = True\<rparr>)"

definition TimestamptzPtr :: "time pgvalue \<Rightarrow> time option" where
  "TimestamptzPtr v = (if \<not> Valid v then None else Some (pg_val v))"

definition Date :: "time option \<Rightarrow> time pgvalue" where
  "Date v = (case v of None \<Rightarrow> null 0 | Some x \<Rightarrow> \<lparr>pg_val = x, Valid = True\<rparr>)"

definition DatePtr :: "time pgvalue \<Rightarrow> time option" where
  "DatePtr v = (if \<not> Valid v then None else Some (pg_val v))"

definition UUID :: "uuid option \<Rightarrow> uuid pgvalue" where
  "UUID v = (case v of None \<Rightarrow> null (replicate 16 0) | Some x \<Rightarrow> \<lparr>pg_val = x, Valid = True\<rparr>)"

definition UUIDPtr :: "uuid pgvalue \<Rightarrow> uuid option" where
  "UUIDPtr v = (if \<not> Valid v then None else Some (pg_val v))"

text \<open>What every conversion pair promises its clients: a pointer survives the way through the database
  type, and of a database value only the irrelevant content of a null one is lost.\<close>

locale nullable =
  fixes to_pg :: "'a option \<Rightarrow> 'a pgvalue" and from_pg :: "'a pgvalue \<Rightarrow> 'a option" and zero :: 'a
  assumes from_to: "from_pg (to_pg v) = v"
    and valid_iff: "Valid x \<longleftrightarrow> from_pg x \<noteq> None"
    and to_valid: "Valid x \<Longrightarrow> to_pg (from_pg x) = x"
    and to_null: "to_pg None = null zero"
begin

lemma to_pg_inj: "to_pg u = to_pg v \<longleftrightarrow> u = v"
  by (metis from_to)

lemma normal_form: "to_pg (from_pg x) = (if Valid x then x else null zero)"
proof (cases "Valid x")
  case False
  then have "from_pg x = None" using valid_iff by blast
  with False to_null show ?thesis by simp
qed (simp add: to_valid)

lemma normalise_idem: "to_pg (from_pg (to_pg (from_pg x))) = to_pg (from_pg x)"
  by (simp add: from_to)

end

lemmas pg_conversions = Text_def TextPtr_def Int4_def Int4Ptr_def Int8_def Int8Ptr_def Bool_def BoolPtr_def
  Timestamptz_def TimestamptzPtr_def Date_def DatePtr_def UUID_def UUIDPtr_def null_def

interpretation text_pg: nullable Text TextPtr "[]"
  by unfold_locales (auto simp: pg_conversions split: option.split)

interpretation int4_pg: nullable Int4 Int4Ptr 0
  by unfold_locales (auto simp: pg_conversions split: option.split)

interpretation int8_pg: nullable Int8 Int8Ptr 0
  by unfold_locales (auto simp: pg_conversions split: option.split)

interpretation bool_pg: nullable Bool BoolPtr False
  by unfold_locales (auto simp: pg_conversions split: option.split)

interpretation timestamptz_pg: nullable Timestamptz TimestamptzPtr 0
  by unfold_locales (auto simp: pg_conversions split: option.split)

interpretation date_pg: nullable Date DatePtr 0
  by unfold_locales (auto simp: pg_conversions split: option.split)

interpretation uuid_pg: nullable UUID UUIDPtr "replicate 16 0"
  by unfold_locales (auto simp: pg_conversions split: option.split)

section \<open>Properties\<close>

lemma pgx_dbD:
  assumes "pgx_db p committed working"
  shows "\<lbrakk>working s = None; Begin p ctx s = (e, s')\<rbrakk> \<Longrightarrow>
      committed s' = committed s \<and> working s' = (if e = None then Some (committed s) else None)"
    and "\<lbrakk>working s = Some d; Commit p ctx s = (e, s')\<rbrakk> \<Longrightarrow>
      working s' = None \<and> (if e = None then committed s' = d else committed s' \<in> {d, committed s})"
    and "committed (snd (Rollback p ctx s)) = committed s \<and> working (snd (Rollback p ctx s)) = None"
proof -
  from assms have 1: "\<forall>ctx s. working s = None \<longrightarrow>
        (let (e, s') = Begin p ctx s
         in committed s' = committed s \<and> working s' = (if e = None then Some (committed s) else None))"
    and 2: "\<forall>ctx s d. working s = Some d \<longrightarrow>
        (let (e, s') = Commit p ctx s
         in working s' = None \<and> (if e = None then committed s' = d else committed s' \<in> {d, committed s}))"
    and 3: "\<forall>ctx s. let s' = snd (Rollback p ctx s) in committed s' = committed s \<and> working s' = None"
    unfolding pgx_db_def by blast+
  show "\<lbrakk>working s = None; Begin p ctx s = (e, s')\<rbrakk> \<Longrightarrow>
      committed s' = committed s \<and> working s' = (if e = None then Some (committed s) else None)"
    using 1 [rule_format, of s ctx] by simp
  show "\<lbrakk>working s = Some d; Commit p ctx s = (e, s')\<rbrakk> \<Longrightarrow>
      working s' = None \<and> (if e = None then committed s' = d else committed s' \<in> {d, committed s})"
    using 2 [rule_format, of s d ctx] by (auto split: if_splits)
  show "committed (snd (Rollback p ctx s)) = committed s \<and> working (snd (Rollback p ctx s)) = None"
    using 3 by (simp add: Let_def)
qed

text \<open>C11. Transactions: no transaction stays open, whether the function returns, fails or its callback
  panics. A success means that the data the callback left is committed; an error of the callback,
  a panic or a transaction that never began means that the data is as before; only a failing
  commit can leave either, and it is reported.\<close>

theorem tx_atomic:
  assumes "pgx_db p committed working" "tx_only committed working fn" "working s = None"
    and "TxValue p ctx fn s = (r, s')"
  shows "working s' = None
       \<and> (case r of
            CallReturn (Inr v) \<Rightarrow>
              (\<exists>s1 s2. Begin p ctx s = (None, s1) \<and> fn s1 = (CallReturn (Inr v), s2) \<and> working s2 = Some (committed s'))
          | CallReturn (Inl e) \<Rightarrow>
              committed s' = committed s
              \<or> (\<exists>s1 s2 v. Begin p ctx s = (None, s1) \<and> fn s1 = (CallReturn (Inr v), s2) \<and> fst (Commit p ctx s2) = Some e
                    \<and> working s2 = Some (committed s'))
          | CallPanic m \<Rightarrow> committed s' = committed s)"
proof -
  obtain e s1 where b: "Begin p ctx s = (e, s1)" by fastforce
  note began = pgx_dbD(1) [OF assms(1,3) b]
  show ?thesis
  proof (cases e)
    case (Some x)
    with b began assms(3,4) show ?thesis by (auto simp: TxValue_def)
  next
    case None
    obtain c s2 where f: "fn s1 = (c, s2)" by fastforce
    obtain d where d: "committed s2 = committed s" "working s2 = Some d"
      using assms(2) began None f unfolding tx_only_def by (metis option.distinct(1) option.exhaust snd_conv)
    obtain ce s3 where m: "Commit p ctx s2 = (ce, s3)" by fastforce
    note commit = pgx_dbD(2) [OF assms(1) d(2) m]
    note undo = pgx_dbD(3) [OF assms(1), of ctx]
    show ?thesis
      using assms(4) b f m None d commit undo [of s2] undo [of s3]
      by (auto simp: TxValue_def split: call.splits sum.splits option.splits if_splits)
  qed
qed

text \<open>A database with one integer, of which a commit of a negative number fails.\<close>

definition demo_pgx :: "(int \<times> int option, string) pgx" where
  "demo_pgx = \<lparr>
     Begin = (\<lambda>ctx (c, w). if w = None then (None, (c, Some c)) else (Some ''busy'', (c, w))),
     Commit = (\<lambda>ctx (c, w). case w of None \<Rightarrow> (Some ''closed'', (c, None))
       | Some d \<Rightarrow> if d < 0 then (Some ''constraint'', (c, None)) else (None, (d, None))),
     Rollback = (\<lambda>ctx (c, w). (if w = None then Some ''closed'' else None, (c, None))),
     NewPool = (\<lambda>ctx url s. (None, s)), PoolPing = (\<lambda>ctx s. (None, s)), ClosePool = (\<lambda>s. s)\<rparr>"

theorem tx_atomic_witness:
  "TxValue demo_pgx Background (\<lambda>(c, w). (CallReturn (Inr ()), (c, map_option (\<lambda>x. x + 1) w))) (4, None) = (CallReturn (Inr ()), (5, None))
   \<and> snd (snd (TxValue demo_pgx Background (\<lambda>(c, w). (CallReturn (Inr ()), (c, map_option (\<lambda>x. x + 1) w))) (4, None))) = None"
proof -
  let ?fn = "\<lambda>(c :: int, w :: int option). (CallReturn (Inr ()) :: (string, unit) call, (c, map_option (\<lambda>x. x + 1) w))"
  have db: "pgx_db demo_pgx fst snd" by (auto simp: pgx_db_def demo_pgx_def split: option.split)
  have fn: "tx_only fst snd ?fn" by (auto simp: tx_only_def)
  have r: "TxValue demo_pgx Background ?fn (4, None) = (CallReturn (Inr ()), (5, None))" by (simp add: TxValue_def demo_pgx_def)
  from tx_atomic [OF db fn _ r] r show ?thesis by simp
qed

text \<open>Nullable values: for each of the seven types a pointer survives the conversion to the database
  type and back, and a database value becomes itself, or the type's null if it is not valid.\<close>

theorem pg_values_roundtrip:
  "TextPtr (Text t) = t \<and> Int4Ptr (Int4 i) = i \<and> Int8Ptr (Int8 j) = j \<and> BoolPtr (Bool b) = b
   \<and> TimestamptzPtr (Timestamptz u) = u \<and> DatePtr (Date d) = d \<and> UUIDPtr (UUID k) = k
   \<and> Text (TextPtr x1) = (if Valid x1 then x1 else null [])
   \<and> Int4 (Int4Ptr x2) = (if Valid x2 then x2 else null 0)
   \<and> Int8 (Int8Ptr x3) = (if Valid x3 then x3 else null 0)
   \<and> Bool (BoolPtr x4) = (if Valid x4 then x4 else null False)
   \<and> Timestamptz (TimestamptzPtr x5) = (if Valid x5 then x5 else null 0)
   \<and> Date (DatePtr x6) = (if Valid x6 then x6 else null 0)
   \<and> UUID (UUIDPtr x7) = (if Valid x7 then x7 else null (replicate 16 0))"
  by (simp only: text_pg.from_to int4_pg.from_to int8_pg.from_to bool_pg.from_to timestamptz_pg.from_to date_pg.from_to
      uuid_pg.from_to text_pg.normal_form int4_pg.normal_form int8_pg.normal_form bool_pg.normal_form
      timestamptz_pg.normal_form date_pg.normal_form uuid_pg.normal_form simp_thms)

end
