(* ===== verification/Emailx_Template.thy ===== *)
theory Emailx_Template
  imports Emailx
begin

text \<open>
  \<^verbatim>\<open>emailx/template.go\<close>: templates parsed once, when the renderer is made, and executed at each rendering.
  The template packages and the file system are the record \<open>templates\<close>; \<open>'t\<close> and \<open>'h\<close> are parsed text and HTML
  templates, \<open>'d\<close> is the data.
\<close>

section \<open>The libraries\<close>

record ('t, 'h, 'd) templates =
  ReadFile :: "string \<Rightarrow> email_error + string"
  parse_text :: "string \<Rightarrow> string \<Rightarrow> email_error + 't"
  parse_html :: "string \<Rightarrow> string \<Rightarrow> email_error + 'h"
  exec_text :: "'t \<Rightarrow> 'd \<Rightarrow> email_error + string"
  exec_html :: "'h \<Rightarrow> 'd \<Rightarrow> email_error + string"

text \<open>\<^verbatim>\<open>path.Base\<close>.\<close>

definition Base :: "string \<Rightarrow> string" where
  "Base p =
     (if p = [] then ''.''
      else (let q = rev (dropWhile (\<lambda>c. c = CHR ''/'') (rev p))
            in if q = [] then ''/'' else rev (takeWhile (\<lambda>c. c \<noteq> CHR ''/'') (rev q))))"

section \<open>Making a renderer\<close>

record TemplateSpec =
  spec_Name :: string
  spec_Message :: Message
  SubjectPath :: string
  TextPath :: string
  HTMLPath :: string

record ('t, 'h) compiledTemplate =
  ct_message :: Message
  ct_subject :: "'t option"
  ct_text :: "'t option"
  ct_html :: "'h option"

type_synonym ('t, 'h) TemplateRenderer = "(string \<times> ('t, 'h) compiledTemplate) list"

definition parseTextTemplate :: "('t, 'h, 'd) templates \<Rightarrow> string \<Rightarrow> email_error + 't" where
  "parseTextTemplate lib filename =
     (case ReadFile lib filename of Inl e \<Rightarrow> Inl e | Inr data \<Rightarrow> parse_text lib (Base filename) data)"

definition parseHTMLTemplate :: "('t, 'h, 'd) templates \<Rightarrow> string \<Rightarrow> email_error + 'h" where
  "parseHTMLTemplate lib filename =
     (case ReadFile lib filename of Inl e \<Rightarrow> Inl e | Inr data \<Rightarrow> parse_html lib (Base filename) data)"

text \<open>A template of a specification, if it has a path.\<close>

definition parse_if :: "string \<Rightarrow> (string \<Rightarrow> email_error + 't) \<Rightarrow> string \<Rightarrow> email_error + 't option" where
  "parse_if msg parse filename =
     (if filename \<noteq> [] then (case parse filename of Inl e \<Rightarrow> Inl (Wrap msg e) | Inr t \<Rightarrow> Inr (Some t)) else Inr None)"

definition compile :: "('t, 'h, 'd) templates \<Rightarrow> TemplateSpec \<Rightarrow> email_error + ('t, 'h) compiledTemplate" where
  "compile lib spec =
     (case parse_if (''emailx: parse subject template '' @ spec_Name spec) (parseTextTemplate lib) (SubjectPath spec) of
        Inl e \<Rightarrow> Inl e
      | Inr subject \<Rightarrow>
     (case parse_if (''emailx: parse text template '' @ spec_Name spec) (parseTextTemplate lib) (TextPath spec) of
        Inl e \<Rightarrow> Inl e
      | Inr txt \<Rightarrow>
     (case parse_if (''emailx: parse HTML template '' @ spec_Name spec) (parseHTMLTemplate lib) (HTMLPath spec) of
        Inl e \<Rightarrow> Inl e
      | Inr html \<Rightarrow>
          if subject = None \<and> txt = None \<and> html = None
          then Inl (New (''emailx: template '' @ spec_Name spec @ '' has no template files''))
          else Inr \<lparr>ct_message = cloneMessage (spec_Message spec), ct_subject = subject, ct_text = txt, ct_html = html\<rparr>)))"

fun spec_loop :: "('t, 'h, 'd) templates \<Rightarrow> TemplateSpec list \<Rightarrow> ('t, 'h) TemplateRenderer \<Rightarrow> email_error + ('t, 'h) TemplateRenderer" where
  "spec_loop lib [] r = Inr r"
| "spec_loop lib (spec # specs) r =
     (if spec_Name spec = [] then Inl (New ''emailx: template name is required'')
      else if map_of r (spec_Name spec) \<noteq> None then Inl (New (''emailx: duplicate template '' @ spec_Name spec))
      else (case compile lib spec of
              Inl e \<Rightarrow> Inl e
            | Inr compiled \<Rightarrow> spec_loop lib specs ((spec_Name spec, compiled) # r)))"

text \<open>\<open>None\<close> is the nil file system.\<close>

definition NewTemplateRenderer :: "('t, 'h, 'd) templates option \<Rightarrow> TemplateSpec list \<Rightarrow> email_error + ('t, 'h) TemplateRenderer" where
  "NewTemplateRenderer fsys specs =
     (case fsys of
        None \<Rightarrow> Inl (New ''emailx: template filesystem is required'')
      | Some lib \<Rightarrow> spec_loop lib specs [])"

section \<open>Rendering\<close>

definition executeText :: "('t, 'h, 'd) templates \<Rightarrow> 't \<Rightarrow> 'd \<Rightarrow> email_error + string" where
  "executeText lib t data = (case exec_text lib t data of Inl e \<Rightarrow> Inl e | Inr s \<Rightarrow> Inr s)"

text \<open>The text of a template, or what the message has if there is none.\<close>

definition exec_if :: "string \<Rightarrow> ('t \<Rightarrow> 'd \<Rightarrow> email_error + string) \<Rightarrow> 't option \<Rightarrow> 'd \<Rightarrow> string \<Rightarrow> email_error + string" where
  "exec_if msg exec t data old =
     (case t of None \<Rightarrow> Inr old | Some t \<Rightarrow> (case exec t data of Inl e \<Rightarrow> Inl (Wrap msg e) | Inr s \<Rightarrow> Inr s))"

definition Render :: "('t, 'h, 'd) templates \<Rightarrow> ctx \<Rightarrow> ('t, 'h) TemplateRenderer \<Rightarrow> string \<Rightarrow> 'd \<Rightarrow> email_error + Message" where
  "Render lib ctx r name data =
     (case ctx 0 of
        Some e \<Rightarrow> Inl (CtxErr e)
      | None \<Rightarrow>
     (case map_of r name of
        None \<Rightarrow> Inl (New (''emailx: template '' @ name @ '' not found''))
      | Some compiled \<Rightarrow>
     (let m = cloneMessage (ct_message compiled) in
      case exec_if (''emailx: execute subject template '' @ name) (executeText lib) (ct_subject compiled) data (Subject m) of
        Inl e \<Rightarrow> Inl e
      | Inr subject \<Rightarrow>
     (case exec_if (''emailx: execute text template '' @ name) (executeText lib) (ct_text compiled) data (Text m) of
        Inl e \<Rightarrow> Inl e
      | Inr txt \<Rightarrow>
     (case exec_if (''emailx: execute HTML template '' @ name) (exec_html lib) (ct_html compiled) data (HTML m) of
        Inl e \<Rightarrow> Inl e
      | Inr html \<Rightarrow> Inr (m\<lparr>Subject := subject, Text := txt, HTML := html\<rparr>))))))"

section \<open>Lemmas\<close>

lemma spec_loop_ok:
  assumes "spec_loop lib specs r = Inr r'"
  shows "distinct (map spec_Name specs) \<and> (\<forall>s\<in>set specs. spec_Name s \<noteq> [] \<and> spec_Name s \<notin> fst ` set r)
    \<and> (\<forall>n. map_of r' n = (case find (\<lambda>s. spec_Name s = n) specs of None \<Rightarrow> map_of r n | Some s \<Rightarrow> (case compile lib s of Inl _ \<Rightarrow> None | Inr c \<Rightarrow> Some c)))
    \<and> (\<forall>s\<in>set specs. \<exists>c. compile lib s = Inr c)"
  using assms
proof (induction specs arbitrary: r)
  case (Cons s specs)
  then obtain c where c: "spec_Name s \<noteq> []" "map_of r (spec_Name s) = None" "compile lib s = Inr c"
    "spec_loop lib specs ((spec_Name s, c) # r) = Inr r'" by (auto split: if_splits sum.splits)
  have n: "spec_Name s \<notin> fst ` set r" using c(2) by (simp add: map_of_eq_None_iff)
  note ih = Cons.IH [OF c(4)]
  have "spec_Name s \<notin> spec_Name ` set specs" using ih by force
  then have "find (\<lambda>t. spec_Name t = spec_Name s) specs = None" by (metis (mono_tags, lifting) find_None_iff imageI)
  with ih c n show ?case by (auto split: option.splits)
qed simp

lemma spec_loop_accepts:
  assumes "distinct (map spec_Name specs)" "\<forall>s\<in>set specs. spec_Name s \<noteq> [] \<and> spec_Name s \<notin> fst ` set r \<and> (\<exists>c. compile lib s = Inr c)"
  shows "\<exists>r'. spec_loop lib specs r = Inr r'"
  using assms
proof (induction specs arbitrary: r)
  case (Cons s specs)
  then obtain c where "compile lib s = Inr c" "map_of r (spec_Name s) = None" "spec_Name s \<noteq> []"
    by (auto simp: map_of_eq_None_iff)
  moreover have "\<exists>r'. spec_loop lib specs ((spec_Name s, c) # r) = Inr r'"
    using Cons.prems by (intro Cons.IH) (simp_all, metis imageI)
  ultimately show ?case by simp
qed simp

text \<open>The reference: parse and execute on the spot.\<close>

definition rendered :: "(string \<Rightarrow> email_error + 't) \<Rightarrow> ('t \<Rightarrow> 'd \<Rightarrow> email_error + string) \<Rightarrow> string \<Rightarrow> 'd \<Rightarrow> string \<Rightarrow> string option" where
  "rendered parse exec p data old =
     (if p = [] then Some old
      else (case parse p of Inl _ \<Rightarrow> None | Inr t \<Rightarrow> (case exec t data of Inl _ \<Rightarrow> None | Inr s \<Rightarrow> Some s)))"

lemma exec_parse_if:
  "parse_if msg parse p = Inr t \<Longrightarrow>
   (\<exists>y. exec_if msg' exec t data old = Inl y \<and> rendered parse exec p data old = None)
   \<or> (\<exists>s. exec_if msg' exec t data old = Inr s \<and> rendered parse exec p data old = Some s)"
  by (auto simp: parse_if_def exec_if_def rendered_def split: if_splits sum.splits)

lemma compile_ok:
  "compile lib s = Inr c \<Longrightarrow> ct_message c = spec_Message s
   \<and> (\<exists>m1. parse_if m1 (parseTextTemplate lib) (SubjectPath s) = Inr (ct_subject c))
   \<and> (\<exists>m2. parse_if m2 (parseTextTemplate lib) (TextPath s) = Inr (ct_text c))
   \<and> (\<exists>m3. parse_if m3 (parseHTMLTemplate lib) (HTMLPath s) = Inr (ct_html c))"
  by (auto simp: compile_def split: sum.splits if_splits)

lemma parse_if_ok: "(\<exists>t. parse_if msg parse p = Inr t) \<longleftrightarrow> p = [] \<or> (\<exists>t. parse p = Inr t)"
  by (auto simp: parse_if_def split: sum.splits)

lemma parse_if_None: "parse_if msg parse p = Inr t \<Longrightarrow> t = None \<longleftrightarrow> p = []"
  by (auto simp: parse_if_def split: if_splits sum.splits)

lemma compile_iff:
  "(\<exists>c. compile lib s = Inr c) \<longleftrightarrow>
     SubjectPath s @ TextPath s @ HTMLPath s \<noteq> []
     \<and> (SubjectPath s = [] \<or> (\<exists>t. parseTextTemplate lib (SubjectPath s) = Inr t))
     \<and> (TextPath s = [] \<or> (\<exists>t. parseTextTemplate lib (TextPath s) = Inr t))
     \<and> (HTMLPath s = [] \<or> (\<exists>t. parseHTMLTemplate lib (HTMLPath s) = Inr t))"
  unfolding compile_def
  by (auto simp: parse_if_def split: sum.splits if_splits)

lemma executeText_eq [simp]: "executeText lib = exec_text lib"
  by (intro ext) (simp add: executeText_def split: sum.split)

section \<open>Properties\<close>

text \<open>C32. Rendering ahead of time is rendering on demand. A renderer is made exactly when the names are
  distinct and not empty and every template has at least one file and parses. Rendering one of
  them then gives its message with subject, text and HTML as its files, parsed and executed now,
  give them (those without a file as they were), or an error if one of these fails; another name
  is an error.\<close>

theorem template_rendering:
  "((\<exists>r. NewTemplateRenderer (Some lib) specs = Inr r) \<longleftrightarrow>
      distinct (map spec_Name specs)
      \<and> list_all (\<lambda>s. spec_Name s \<noteq> [] \<and> SubjectPath s @ TextPath s @ HTMLPath s \<noteq> []
          \<and> (SubjectPath s = [] \<or> (\<exists>t. parseTextTemplate lib (SubjectPath s) = Inr t))
          \<and> (TextPath s = [] \<or> (\<exists>t. parseTextTemplate lib (TextPath s) = Inr t))
          \<and> (HTMLPath s = [] \<or> (\<exists>t. parseHTMLTemplate lib (HTMLPath s) = Inr t))) specs)
   \<and> (NewTemplateRenderer (Some lib) specs = Inr r \<longrightarrow>
      (case find (\<lambda>s. spec_Name s = name) specs of
         None \<Rightarrow> \<exists>e. Render lib Background r name data = Inl e
       | Some s \<Rightarrow>
           (case (rendered (parseTextTemplate lib) (exec_text lib) (SubjectPath s) data (Subject (spec_Message s)),
                  rendered (parseTextTemplate lib) (exec_text lib) (TextPath s) data (Text (spec_Message s)),
                  rendered (parseHTMLTemplate lib) (exec_html lib) (HTMLPath s) data (HTML (spec_Message s))) of
              (Some a, Some b, Some c) \<Rightarrow>
                Render lib Background r name data = Inr ((spec_Message s)\<lparr>Subject := a, Text := b, HTML := c\<rparr>)
            | _ \<Rightarrow> \<exists>e. Render lib Background r name data = Inl e)))"
proof (intro conjI impI, goal_cases)
  case 1
  show ?case unfolding NewTemplateRenderer_def list_all_iff compile_iff [symmetric]
    using spec_loop_ok [of lib specs "[]"] spec_loop_accepts [of specs "[]" lib] by auto
next
  case 2
  then have r: "spec_loop lib specs [] = Inr r" by (simp add: NewTemplateRenderer_def)
  note ok = spec_loop_ok [OF r]
  show ?case
  proof (cases "find (\<lambda>s. spec_Name s = name) specs")
    case None
    with ok have "map_of r name = None" by simp
    with None show ?thesis by (simp add: Render_def)
  next
    case (Some s)
    then have "s \<in> set specs" by (auto simp: find_Some_iff)
    with ok obtain c where c: "compile lib s = Inr c" by blast
    with ok Some have m: "map_of r name = Some c" by simp
    from compile_ok [OF c] obtain m1 m2 m3 where p: "ct_message c = spec_Message s"
      "parse_if m1 (parseTextTemplate lib) (SubjectPath s) = Inr (ct_subject c)"
      "parse_if m2 (parseTextTemplate lib) (TextPath s) = Inr (ct_text c)"
      "parse_if m3 (parseHTMLTemplate lib) (HTMLPath s) = Inr (ct_html c)" by blast
    have "ct_message c = spec_Message s" by (rule p(1))
    with m Some exec_parse_if [OF p(2), of "''emailx: execute subject template '' @ name" "exec_text lib" data "Subject (spec_Message s)"]
      exec_parse_if [OF p(3), of "''emailx: execute text template '' @ name" "exec_text lib" data "Text (spec_Message s)"]
      exec_parse_if [OF p(4), of "''emailx: execute HTML template '' @ name" "exec_html lib" data "HTML (spec_Message s)"]
    show ?thesis by (elim disjE exE conjE) (simp_all add: Render_def)
  qed
qed

definition demo_templates :: "(string, string, string) templates" where
  "demo_templates = \<lparr>ReadFile = (\<lambda>p. if p = ''s.txt'' then Inr ''hi '' else Inl (Ext (TemplateError p))),
     parse_text = (\<lambda>n t. Inr t), parse_html = (\<lambda>n t. Inr t), exec_text = (\<lambda>t d. Inr (t @ d)), exec_html = (\<lambda>t d. Inr (t @ d))\<rparr>"

definition demo_spec :: TemplateSpec where
  "demo_spec = \<lparr>spec_Name = ''welcome'', spec_Message = demo_message, SubjectPath = ''s.txt'', TextPath = [], HTMLPath = []\<rparr>"

theorem template_rendering_witness:
  "\<exists>r. NewTemplateRenderer (Some demo_templates) [demo_spec] = Inr r
     \<and> Render demo_templates Background r ''welcome'' ''ann'' = Inr (demo_message\<lparr>Subject := ''hi ann''\<rparr>)"
proof -
  obtain r where r: "NewTemplateRenderer (Some demo_templates) [demo_spec] = Inr r"
    using template_rendering [THEN conjunct1, of demo_templates "[demo_spec]"]
    by (auto simp: demo_spec_def parseTextTemplate_def demo_templates_def)
  from template_rendering [THEN conjunct2, THEN mp, OF r, of "''welcome''" "''ann''"] r show ?thesis
    by (auto simp: demo_spec_def rendered_def parseTextTemplate_def demo_templates_def)
qed

end
