(* ===== verification/Envx.thy ===== *)
theory Envx
  imports Go_Strconv Go_Io
begin

text \<open>
  Package \<^verbatim>\<open>envx\<close>: environment variables with fallbacks. The environment is a map; \<^verbatim>\<open>time.ParseDuration\<close> is
  the parameter \<open>parse_duration\<close>.
\<close>

type_synonym environ = "string \<rightharpoonup> string"

section \<open>Lookups\<close>

definition LookupInt :: "environ \<Rightarrow> string \<Rightarrow> int \<times> bool \<times> numerr option" where
  "LookupInt env key =
     (case env key of
        None \<Rightarrow> (0, False, None)
      | Some v \<Rightarrow> (let (parsed, err) = Atoi v in (parsed, True, err)))"

definition LookupBool :: "environ \<Rightarrow> string \<Rightarrow> bool \<times> bool \<times> numerr option" where
  "LookupBool env key =
     (case env key of
        None \<Rightarrow> (False, False, None)
      | Some v \<Rightarrow> (case ParseBool v of None \<Rightarrow> (False, True, Some ErrSyntax) | Some parsed \<Rightarrow> (parsed, True, None)))"

definition LookupDuration :: "(string \<Rightarrow> duration \<times> 'e option) \<Rightarrow> environ \<Rightarrow> string \<Rightarrow> duration \<times> bool \<times> 'e option" where
  "LookupDuration parse_duration env key =
     (case env key of
        None \<Rightarrow> (0, False, None)
      | Some v \<Rightarrow> (let (parsed, err) = parse_duration v in (parsed, True, err)))"

section \<open>Values\<close>

definition env_String :: "environ \<Rightarrow> string \<Rightarrow> string \<Rightarrow> string" where
  "env_String env key fallback = (case env key of Some v \<Rightarrow> v | None \<Rightarrow> fallback)"

definition Required :: "environ \<Rightarrow> string \<Rightarrow> string run" where
  "Required env key =
     (case env key of
        None \<Rightarrow> Panic (''required environment variable '' @ key @ '' is not set'')
      | Some v \<Rightarrow> if v = [] then Panic (''required environment variable '' @ key @ '' is not set'') else Return v)"

definition env_Int :: "environ \<Rightarrow> string \<Rightarrow> int \<Rightarrow> int" where
  "env_Int env key fallback =
     (let (v, ok, err) = LookupInt env key in if \<not> ok \<or> err \<noteq> None then fallback else v)"

definition env_Bool :: "environ \<Rightarrow> string \<Rightarrow> bool \<Rightarrow> bool" where
  "env_Bool env key fallback =
     (let (v, ok, err) = LookupBool env key in if \<not> ok \<or> err \<noteq> None then fallback else v)"

definition env_Duration :: "(string \<Rightarrow> duration \<times> 'e option) \<Rightarrow> environ \<Rightarrow> string \<Rightarrow> duration \<Rightarrow> duration" where
  "env_Duration parse_duration env key fallback =
     (let (v, ok, err) = LookupDuration parse_duration env key in if \<not> ok \<or> err \<noteq> None then fallback else v)"

section \<open>Lemmas\<close>

text \<open>A printed value is read back, and whatever is not read gives the fallback.\<close>

lemma Int_roundtrip:
  "\<lbrakk>env key = Some (dec_int i); min_int64 \<le> i; i \<le> max_int64\<rbrakk> \<Longrightarrow> env_Int env key fallback = i"
  by (simp add: env_Int_def LookupInt_def Atoi_dec_int)

lemma Int_fallback: "env_Int env key fallback = fallback \<or> (\<exists>v. env key = Some v \<and> Atoi v = (env_Int env key fallback, None))"
  by (auto simp: env_Int_def LookupInt_def Let_def split: option.split prod.split)

lemma Int_range: "\<lbrakk>min_int64 \<le> fallback; fallback \<le> max_int64\<rbrakk> \<Longrightarrow> min_int64 \<le> env_Int env key fallback \<and> env_Int env key fallback \<le> max_int64"
  using Int_fallback [of env key fallback] Atoi_range by (metis fst_conv)

lemma Bool_roundtrip: "env key = Some (if b then ''true'' else ''false'') \<Longrightarrow> env_Bool env key fallback = b"
  by (cases b) (simp_all add: env_Bool_def LookupBool_def ParseBool_def)

lemma Required_cases:
  "Required env key = (case env key of Some v \<Rightarrow> if v = [] then Required Map.empty key else Return v | None \<Rightarrow> Required Map.empty key)"
  by (simp add: Required_def split: option.split)

end
