(* ===== verification/Configx.thy ===== *)
theory Configx
  imports Gox_Prelude
begin

text \<open>
  Package \<^verbatim>\<open>configx\<close>: decoding the environment into a type and validating the result. The library
  \<^verbatim>\<open>caarlos0/env\<close> is the parameter \<open>parse\<close>, with the options it is given; a type may have a \<^verbatim>\<open>Validate\<close> method
  on the value, or on the pointer, where it may change the value.
\<close>

datatype config_cause = EnvError string | ValidateError string

type_synonym config_error = "config_cause goerr"

record 'p Options =
  Prefix :: string
  Environment :: "(string \<rightharpoonup> string) option"
  FuncMap :: 'p

record 't config_type =
  zero :: 't
  validate_value :: "('t \<Rightarrow> config_error option) option"
  validate_pointer :: "('t \<Rightarrow> config_error option \<times> 't) option"

text \<open>\<open>no_funcs\<close> is the nil parser map of \<^verbatim>\<open>env.Options{}\<close>.\<close>

definition Load ::
  "('p Options \<Rightarrow> 't \<Rightarrow> config_error option \<times> 't) \<Rightarrow> 'p \<Rightarrow> 't config_type \<Rightarrow> 'p Options list \<Rightarrow> config_error option \<times> 't" where
  "Load parse no_funcs T options =
     (if 1 < length options then (Some (New ''configx: expected at most one Options value''), zero T)
      else
        (let opts = (case options of
                       [] \<Rightarrow> \<lparr>Prefix = [], Environment = None, FuncMap = no_funcs\<rparr>
                     | opt # _ \<Rightarrow> \<lparr>Prefix = Prefix opt, Environment = Environment opt, FuncMap = FuncMap opt\<rparr>)
         in case parse opts (zero T) of
              (Some e, v) \<Rightarrow> (Some (Wrap ''configx: load environment'' e), v)
            | (None, v) \<Rightarrow>
                (case validate_value T of
                   Some f \<Rightarrow> (case f v of Some e \<Rightarrow> (Some (Wrap ''configx: validate'' e), v) | None \<Rightarrow> (None, v))
                 | None \<Rightarrow>
                     (case validate_pointer T of
                        Some f \<Rightarrow> (case f v of (Some e, v) \<Rightarrow> (Some (Wrap ''configx: validate'' e), v) | (None, v) \<Rightarrow> (None, v))
                      | None \<Rightarrow> (None, v)))))"

text \<open>A configuration without an error was decoded from the given environment and is valid.\<close>

lemma Load_ok:
  assumes "Load parse no_funcs T [opt] = (None, v)"
  shows "\<exists>u. parse opt (zero T) = (None, u)
    \<and> (case validate_value T of
         Some f \<Rightarrow> f u = None \<and> v = u
       | None \<Rightarrow> (case validate_pointer T of Some f \<Rightarrow> f u = (None, v) | None \<Rightarrow> v = u))"
  using assms by (cases opt) (auto simp: Load_def Let_def split: prod.splits option.splits)

lemma Load_errors: "fst (Load parse no_funcs T opts) = Some e \<Longrightarrow> 1 < length opts \<or> (\<exists>m c. e = Wrap m c)"
  by (auto simp: Load_def Let_def split: prod.splits option.splits list.splits if_splits)

end
