(* ===== verification/Logx.thy ===== *)
theory Logx
  imports Go_Strings
begin

text \<open>
  Package \<^verbatim>\<open>logx\<close>: the choice of handler and level for \<^verbatim>\<open>log/slog\<close>. A logger is its configuration: the
  format, the writer and the options handed to the library.
\<close>

definition FormatAuto :: string where "FormatAuto = []"
definition FormatText :: string where "FormatText = ''text''"
definition FormatJSON :: string where "FormatJSON = ''json''"

text \<open>\<^verbatim>\<open>slog.Level\<close>.\<close>

definition LevelDebug :: int where "LevelDebug = -4"
definition LevelInfo :: int where "LevelInfo = 0"
definition LevelWarn :: int where "LevelWarn = 4"
definition LevelError :: int where "LevelError = 8"

record ('w, 'a) Config =
  cfg_Env :: string
  cfg_Level :: string
  cfg_Writer :: "'w option"
  cfg_Format :: string
  cfg_AddSource :: bool
  cfg_ReplaceAttr :: "'a option"

record 'a HandlerOptions =
  ho_Level :: int
  ho_AddSource :: bool
  ho_ReplaceAttr :: "'a option"

datatype ('w, 'a) slog_handler = TextHandler 'w "'a HandlerOptions" | JSONHandler 'w "'a HandlerOptions"

definition parseLevel :: "string \<Rightarrow> int" where
  "parseLevel level =
     (let l = ToLower level in
      if l = ''debug'' then LevelDebug
      else if l = ''warn'' \<or> l = ''warning'' then LevelWarn
      else if l = ''error'' then LevelError
      else LevelInfo)"

text \<open>\<open>stderr\<close> is \<^verbatim>\<open>os.Stderr\<close>.\<close>

definition NewLogger :: "'w \<Rightarrow> ('w, 'a) Config \<Rightarrow> ('w, 'a) slog_handler" where
  "NewLogger stderr cfg =
     (let writer = (case cfg_Writer cfg of None \<Rightarrow> stderr | Some w \<Rightarrow> w);
          options = \<lparr>ho_Level = parseLevel (cfg_Level cfg), ho_AddSource = cfg_AddSource cfg, ho_ReplaceAttr = cfg_ReplaceAttr cfg\<rparr>;
          format = (if cfg_Format cfg = FormatAuto
                    then (if ToLower (cfg_Env cfg) = ''local'' \<or> ToLower (cfg_Env cfg) = ''dev'' \<or> ToLower (cfg_Env cfg) = ''development''
                          then FormatText else FormatJSON)
                    else cfg_Format cfg)
      in if format = FormatText then TextHandler writer options else JSONHandler writer options)"

text \<open>The level and the destination do not depend on the format, and an explicit format wins over the
  environment.\<close>

lemma NewLogger_options:
  "\<exists>h\<in>{TextHandler, JSONHandler}. NewLogger stderr cfg =
     h (case cfg_Writer cfg of None \<Rightarrow> stderr | Some w \<Rightarrow> w)
       \<lparr>ho_Level = parseLevel (cfg_Level cfg), ho_AddSource = cfg_AddSource cfg, ho_ReplaceAttr = cfg_ReplaceAttr cfg\<rparr>"
  by (simp add: NewLogger_def Let_def)

lemma NewLogger_explicit:
  "cfg_Format cfg \<noteq> FormatAuto \<Longrightarrow> NewLogger stderr (cfg\<lparr>cfg_Env := e\<rparr>) = NewLogger stderr cfg"
  by (simp add: NewLogger_def Let_def)

lemma parseLevel_levels: "parseLevel l \<in> {LevelDebug, LevelInfo, LevelWarn, LevelError}"
  by (simp add: parseLevel_def Let_def)

end
