(* ===== verification/Testx.thy ===== *)
theory Testx
  imports Pgxutil Go_Http
begin

text \<open>
  Package \<^verbatim>\<open>testx\<close>: helpers of tests. A test has a state: the cleanup functions registered so far, the
  errors reported, and the database. \<^verbatim>\<open>t.Fatalf\<close> and \<^verbatim>\<open>t.Skipf\<close> end the test; then, as after a test that
  returns, the cleanup functions run, last registered first.
\<close>

section \<open>Tests\<close>

record 's tb =
  tb_errors :: "string list"
  tb_cleanups :: "('s \<Rightarrow> string list \<times> 's) list"
  tb_db :: 's

datatype 'a test = Passed 'a | Fatal string | Skipped string

type_synonym ('s, 'a) tester = "'s tb \<Rightarrow> 'a test \<times> 's tb"

definition new_tb :: "'s \<Rightarrow> 's tb" where
  "new_tb s = \<lparr>tb_errors = [], tb_cleanups = [], tb_db = s\<rparr>"

definition Cleanup :: "('s \<Rightarrow> string list \<times> 's) \<Rightarrow> 's tb \<Rightarrow> 's tb" where
  "Cleanup f t = t\<lparr>tb_cleanups := f # tb_cleanups t\<rparr>"

fun run_cleanups :: "('s \<Rightarrow> string list \<times> 's) list \<Rightarrow> string list \<times> 's \<Rightarrow> string list \<times> 's" where
  "run_cleanups [] es = es"
| "run_cleanups (f # fs) (errs, s) = (let (errs', s) = f s in run_cleanups fs (errs @ errs', s))"

definition finish :: "'s tb \<Rightarrow> string list \<times> 's" where
  "finish t = run_cleanups (tb_cleanups t) (tb_errors t, tb_db t)"

definition test_then :: "('s, 'a) tester \<Rightarrow> ('a \<Rightarrow> ('s, 'b) tester) \<Rightarrow> ('s, 'b) tester" where
  "test_then f g t =
     (case f t of (Passed a, t) \<Rightarrow> g a t | (Fatal m, t) \<Rightarrow> (Fatal m, t) | (Skipped m, t) \<Rightarrow> (Skipped m, t))"

section \<open>HTTP\<close>

text \<open>\<open>marshal\<close> is \<^verbatim>\<open>json.Marshal\<close>, \<open>new_request\<close> is \<^verbatim>\<open>http.NewRequest\<close> with the body or none.\<close>

definition JSONRequest ::
  "('b \<Rightarrow> string + string) \<Rightarrow> (string \<Rightarrow> string \<Rightarrow> string option \<Rightarrow> string + request) \<Rightarrow> string \<Rightarrow> string \<Rightarrow> 'b option \<Rightarrow> ('s, request) tester" where
  "JSONRequest marshal new_request method target body t =
     (case (case body of None \<Rightarrow> Inr None | Some b \<Rightarrow> (case marshal b of Inl e \<Rightarrow> Inl e | Inr data \<Rightarrow> Inr (Some data))) of
        Inl e \<Rightarrow> (Fatal (''marshal JSON request: '' @ e), t)
      | Inr reader \<Rightarrow>
          (case new_request method target reader of
             Inl e \<Rightarrow> (Fatal (''create request: '' @ e), t)
           | Inr req \<Rightarrow> (Passed (req\<lparr>r_header := Header_Set ''Content-Type'' ''application/json'' (r_header req)\<rparr>), t)))"

definition DecodeJSON :: "(string \<Rightarrow> string + 'v) \<Rightarrow> string \<Rightarrow> ('s, 'v) tester" where
  "DecodeJSON decode body t =
     (case decode body of Inl e \<Rightarrow> (Fatal (''decode JSON: '' @ e), t) | Inr v \<Rightarrow> (Passed v, t))"

definition AssertStatus :: "int \<Rightarrow> int \<Rightarrow> ('s, unit) tester" where
  "AssertStatus got want t = (if got \<noteq> want then (Fatal ''unexpected status'', t) else (Passed (), t))"

definition AssertJSON :: "(string \<Rightarrow> string + 'v) \<Rightarrow> string \<Rightarrow> 'v \<Rightarrow> ('s, unit) tester" where
  "AssertJSON decode body want =
     test_then (DecodeJSON decode body) (\<lambda>got t. if got \<noteq> want then (Fatal ''unexpected JSON'', t) else (Passed (), t))"

text \<open>A recorder is a fresh response writer; a panic of the handler goes through.\<close>

definition Serve :: "handler \<Rightarrow> request \<Rightarrow> outcome" where
  "Serve handler req = handler req new_rw"

section \<open>PostgreSQL\<close>

definition OpenPostgres :: "('s, 'e) pgx \<Rightarrow> string \<Rightarrow> ('s, unit) tester" where
  "OpenPostgres p databaseURL t =
     (case NewPool p Background databaseURL (tb_db t) of
        (Some e, s) \<Rightarrow> (Fatal ''open PostgreSQL pool'', t\<lparr>tb_db := s\<rparr>)
      | (None, s) \<Rightarrow>
          (case PoolPing p Background s of
             (Some e, s) \<Rightarrow> (Fatal ''ping PostgreSQL'', t\<lparr>tb_db := ClosePool p s\<rparr>)
           | (None, s) \<Rightarrow> (Passed (), Cleanup (\<lambda>s. ([], ClosePool p s)) (t\<lparr>tb_db := s\<rparr>))))"

text \<open>\<open>getenv\<close> is \<^verbatim>\<open>os.Getenv\<close>, empty for an unset variable.\<close>

definition OpenPostgresEnv :: "('s, 'e) pgx \<Rightarrow> (string \<Rightarrow> string) \<Rightarrow> string \<Rightarrow> ('s, unit) tester" where
  "OpenPostgresEnv p getenv key t =
     (let databaseURL = getenv key
      in if databaseURL = [] then (Skipped (key @ '' is not set''), t) else OpenPostgres p databaseURL t)"

definition PreparePostgres :: "('s, 'e) pgx \<Rightarrow> string \<Rightarrow> ('s \<Rightarrow> 'e option \<times> 's) option \<Rightarrow> ('s, unit) tester" where
  "PreparePostgres p databaseURL migrate =
     test_then (OpenPostgres p databaseURL)
       (\<lambda>_ t. case migrate of
          None \<Rightarrow> (Passed (), t)
        | Some f \<Rightarrow>
            (case f (tb_db t) of
               (Some e, s) \<Rightarrow> (Fatal ''migrate PostgreSQL'', t\<lparr>tb_db := s\<rparr>)
             | (None, s) \<Rightarrow> (Passed (), t\<lparr>tb_db := s\<rparr>)))"

definition CleanupPostgres :: "('s \<Rightarrow> 'e option \<times> 's) option \<Rightarrow> ('s, unit) tester" where
  "CleanupPostgres cleanup t =
     (case cleanup of
        None \<Rightarrow> (Passed (), t)
      | Some f \<Rightarrow>
          (Passed (), Cleanup (\<lambda>s. case f s of (Some e, s) \<Rightarrow> ([''clean up PostgreSQL''], s) | (None, s) \<Rightarrow> ([], s)) t))"

text \<open>\<open>closed e\<close> says that the error is \<^verbatim>\<open>pgx.ErrTxClosed\<close>.\<close>

definition PostgresTx :: "('s, 'e) pgx \<Rightarrow> ('e \<Rightarrow> bool) \<Rightarrow> ('s, unit) tester" where
  "PostgresTx p closed t =
     (case Begin p Background (tb_db t) of
        (Some e, s) \<Rightarrow> (Fatal ''begin PostgreSQL transaction'', t\<lparr>tb_db := s\<rparr>)
      | (None, s) \<Rightarrow>
          (Passed (),
           Cleanup (\<lambda>s. case Rollback p Background s of
                          (Some e, s) \<Rightarrow> (if closed e then [] else [''roll back PostgreSQL transaction''], s)
                        | (None, s) \<Rightarrow> ([], s)) (t\<lparr>tb_db := s\<rparr>)))"

section \<open>Lemmas\<close>

text \<open>Whatever a test does with a transaction it got this way, its end rolls the transaction back first and
  closes the pool after that, so that the committed data is as before.\<close>

lemma finish_Cleanup: "finish (Cleanup f t) = (let (errs, s) = f (tb_db t) in run_cleanups (tb_cleanups t) (tb_errors t @ errs, s))"
  by (simp add: finish_def Cleanup_def)

lemma OpenPostgres_closes:
  "OpenPostgres p url (new_tb s) = (Passed (), t) \<Longrightarrow> finish (t\<lparr>tb_db := s'\<rparr>) = ([], ClosePool p s')"
  by (auto simp: OpenPostgres_def finish_def Cleanup_def new_tb_def split: prod.splits option.splits)

lemma test_tx_rolled_back:
  assumes db: "pgx_db p committed working" and "\<And>s. committed (ClosePool p s) = committed s"
    and run: "test_then (OpenPostgres p url) (\<lambda>_. PostgresTx p closed) (new_tb s) = (Passed (), t)"
    and s': "committed s' = committed (tb_db t)"
  shows "committed (snd (finish (t\<lparr>tb_db := s'\<rparr>))) = committed (tb_db t)"
    "\<exists>s''. snd (finish (t\<lparr>tb_db := s'\<rparr>)) = ClosePool p s'' \<and> working s'' = None"
proof -
  from run obtain t1 s1 where o: "OpenPostgres p url (new_tb s) = (Passed (), t1)" and b: "Begin p Background (tb_db t1) = (None, s1)"
    and t: "t = Cleanup (\<lambda>s. case Rollback p Background s of
                          (Some e, s) \<Rightarrow> (if closed e then [] else [''roll back PostgreSQL transaction''], s)
                        | (None, s) \<Rightarrow> ([], s)) (t1\<lparr>tb_db := s1\<rparr>)"
    by (auto simp: test_then_def PostgresTx_def split: prod.splits test.splits option.splits)
  have c: "tb_cleanups t1 = [\<lambda>s. ([], ClosePool p s)]"
    using o by (auto simp: OpenPostgres_def Cleanup_def new_tb_def split: prod.splits option.splits)
  have f: "snd (finish (t\<lparr>tb_db := s'\<rparr>)) = ClosePool p (snd (Rollback p Background s'))"
    by (simp add: t finish_def Cleanup_def c split: prod.split option.split)
  from pgx_dbD(3) [OF db, of Background s'] f assms(2) s'
  show "committed (snd (finish (t\<lparr>tb_db := s'\<rparr>))) = committed (tb_db t)"
    "\<exists>s''. snd (finish (t\<lparr>tb_db := s'\<rparr>)) = ClosePool p s'' \<and> working s'' = None" by auto
qed

end
