(* ===== verification/Spec2Isabelle.thy ===== *)
theory Spec2Isabelle
  imports Emailx_Total Blobx_Concurrent Authx_Password Authx_Http Cachex_Contract Cachex_Redis_Alias Cachex_Concurrent Cachex_Alias Retryx Httpx_Middleware Httpx_Page Fieldx Blobx_File Blobx_S3
    Httpx Validx Pgxutil Emailx_Smtp Emailx_Template Envx Configx Logx Testx
begin

text \<open>
  A verification development for \<^verbatim>\<open>gox\<close>, a toolkit of small Go packages for HTTP services: password
  hashing and authorization, caches, object stores, e-mail, request handling, validation,
  configuration, transactions and test helpers. Every package is modelled.

  \<^bold>\<open>How the program is put together.\<close> The packages do not call each other, with two exceptions
  (\<^verbatim>\<open>validx\<close> treats fields of \<^verbatim>\<open>fieldx\<close> specially; the contract suites in \<^verbatim>\<open>internal\<close> test the
  packages next to them); a service composes them. They meet in interfaces: \<^verbatim>\<open>PasswordHasher\<close>, \<^verbatim>\<open>Cache\<close>,
  \<^verbatim>\<open>Store\<close> and \<^verbatim>\<open>Sender\<close> have several implementations and clients that know only the interface, and the
  middlewares are functions from handlers to handlers. The interfaces are locales here
  (\<open>password_hasher\<close>, \<open>cache\<close>, \<open>slice_cache\<close>, \<open>blob_store\<close>, \<open>sender\<close>, and \<open>nullable\<close> for the conversions of \<^verbatim>\<open>pgxutil\<close>):
  the laws are their assumptions, the clients are proved inside them, and every implementation of the
  repository is an interpretation, or, where it stands on a service outside the repository, a
  theorem that the documented behaviour of that service makes it one.

  \<^bold>\<open>Theories and sources.\<close>
  \<^item> \<open>Gox_Prelude\<close>: bytes, times, contexts, Go's error values with \<^verbatim>\<open>errors.Is\<close>, fact collections.
  \<^item> \<open>Go_Strings\<close>, \<open>Go_Strconv\<close>, \<open>Go_Base64\<close>, \<open>Go_Hex\<close>, \<open>Go_Path\<close>, \<open>Go_Float\<close>, \<open>Go_Io\<close>, \<open>Go_Os\<close>, \<open>Go_Http\<close>,
    \<open>Go_QuotedPrintable\<close>: what the sources use of Go's standard library, with its laws.
  \<^item> \<open>Authx_Argon2id\<close> (\<^verbatim>\<open>authx/argon2id.go\<close>), \<open>Authx_Password\<close> (\<^verbatim>\<open>authx/password.go\<close>), \<open>Authx_Http\<close>
    (\<^verbatim>\<open>authx/authx.go\<close>): Argon2id and bcrypt hashing, PHC strings; bearer tokens, JWTs, identity in the
    request context, \<^verbatim>\<open>RequireAuth\<close> and \<^verbatim>\<open>RequireRole\<close>.
  \<^item> \<open>Cachex\<close> (\<^verbatim>\<open>cachex/cache.go\<close>, \<^verbatim>\<open>memory.go\<close>, \<^verbatim>\<open>testing.go\<close>, \<^verbatim>\<open>encoding.go\<close>), \<open>Cachex_Redis\<close> (\<^verbatim>\<open>redis.go\<close>),
    \<open>Cachex_Contract\<close> (\<^verbatim>\<open>internal/cachetest\<close>). \<open>Cachex_Concurrent\<close> and \<open>Cachex_Alias\<close> model \<^verbatim>\<open>memory.go\<close> twice
    more: as interleaved critical sections of goroutines, and over a heap of byte slices; \<open>Cachex_Redis_Alias\<close>
    does the latter for \<^verbatim>\<open>redis.go\<close>. The contract suite runs over such a heap and writes to its slices.
  \<^item> \<open>Retryx\<close> (\<^verbatim>\<open>retryx/retryx.go\<close>): the backoff delay in double precision.
  \<^item> \<open>Httpx\<close> (\<^verbatim>\<open>httpx/httpx.go\<close>), \<open>Httpx_Middleware\<close> (\<^verbatim>\<open>httpx/middleware/middleware.go\<close>), \<open>Httpx_Page\<close>
    (\<^verbatim>\<open>httpx/page/page.go\<close>): error-returning handlers and JSON; CORS, request IDs, recovery, logging; pagination.
  \<^item> \<open>Fieldx\<close> (\<^verbatim>\<open>fieldx/field.go\<close>) and \<open>Validx\<close> (\<^verbatim>\<open>validx/validx.go\<close>): three-state fields, and struct validation
    that leaves the unset ones alone.
  \<^item> \<open>Blobx\<close> (\<^verbatim>\<open>blobx/blob.go\<close>, \<^verbatim>\<open>testing.go\<close>, \<^verbatim>\<open>internal/blobtest\<close>), \<open>Blobx_File\<close> (\<^verbatim>\<open>file.go\<close>), \<open>Blobx_S3\<close>
    (\<^verbatim>\<open>s3.go\<close>): object keys and the stores in memory, in the file system and in S3. \<open>Blobx_Concurrent\<close> models
    \<^verbatim>\<open>file.go\<close> again, as interleaved system calls of goroutines.
  \<^item> \<open>Emailx\<close> (\<^verbatim>\<open>emailx/email.go\<close>, \<^verbatim>\<open>testing.go\<close>), \<open>Emailx_Lines\<close>, \<open>Emailx_Mime\<close>, \<open>Emailx_Message\<close>, \<open>Emailx_Smtp\<close>,
    \<open>Emailx_Total\<close> (\<^verbatim>\<open>smtp.go\<close>: line breaking and base64, writing a message, what a written message is,
    delivery, termination), \<open>Emailx_Template\<close> (\<^verbatim>\<open>template.go\<close>).
  \<^item> \<open>Pgxutil\<close> (\<^verbatim>\<open>pgxutil/pgxutil.go\<close>), \<open>Envx\<close> (\<^verbatim>\<open>envx/envx.go\<close>), \<open>Configx\<close> (\<^verbatim>\<open>configx/configx.go\<close>), \<open>Logx\<close>
    (\<^verbatim>\<open>logx/logx.go\<close>), \<open>Testx\<close> (\<^verbatim>\<open>testx/testx.go\<close>).
  \<^item> This theory: the middleware stack of a service around an error-returning handler, and a handler that
    binds a type which validates itself with \<open>Validx\<close>.

  \<^bold>\<open>Conventions.\<close> A definition has the name of the Go function; where two packages use one name, or a method
  needs its receiver, the receiver or the package goes first (\<open>Memory_Get\<close>, \<open>page_Parse\<close>). An operation takes
  the state and returns its result and the new state; a step of \<^verbatim>\<open>emailx\<close> that may not return gives
  an option. A result \<open>Inl e\<close> is the Go error, and every return of an error in the source is a branch of the
  model. Of an error's text the model keeps the constant part followed by the interpolated arguments,
  unquoted; what \<^verbatim>\<open>%w\<close> wraps is the argument of \<open>Wrap\<close>. A Go map that is only looked up is a HOL
  map; one that is iterated over is a list in the order of the iteration, so that a statement for all
  lists holds for every order. Integers keep their width where they can wrap (\<open>32 word\<close> in Argon2id);
  durations and counters that are compared against the bounds of \<^verbatim>\<open>int64\<close> are integers with those
  bounds written out. A context is the sequence of the answers of \<^verbatim>\<open>ctx.Err()\<close>, so a cancellation may
  fall between any two calls.

  \<^bold>\<open>Parameters.\<close> Code outside the repository is an argument: Argon2's \<^verbatim>\<open>IDKey\<close>, bcrypt, the JWT library, the
  Redis, AWS and pgx clients, the validator, \<^verbatim>\<open>net/mail\<close> and the header encoders of \<^verbatim>\<open>mime\<close>, the template
  packages, \<^verbatim>\<open>encoding/json\<close> at a type, \<^verbatim>\<open>math.Pow\<close>, SHA-256, the random source, the clock, and the other side of
  an SMTP connection. What a theorem needs of one of them is a named hypothesis that states documented
  behaviour: \<open>bcrypt_lib\<close>, \<open>jwt_lib\<close>, \<open>redis_server\<close>, \<open>hredis_server\<close>, \<open>s3_service\<close>, \<open>pgx_db\<close>, \<open>pow_nonneg\<close>,
  \<open>sha_ok\<close>, \<open>file_opt_ok\<close>, \<open>one_line_values\<close>, \<open>random_ok\<close>; each is shown to hold of a concrete instance in a
  witness. \<open>s3_service\<close> promises nothing for a bucket that is missing or not accessible, for a key of more than
  1024 bytes, or for a body the SDK cannot send. \<open>one_line_values\<close> does not say that an address prints on one
  line: it says so of an address that is on one line, as those are that \<^verbatim>\<open>net/mail\<close> parses.

  \<^bold>\<open>What the theorems show.\<close>
  \<^item> Passwords: hashing then verifying, where a wrong password is false without an error; printing then
    parsing; which strings are accepted, and that the parameters of an accepted one are within the limits.
  \<^item> Caches: every interleaving refines an atomic map with expiry, hits are linearizable, callers cannot
    reach stored bytes; the Redis adapter meets the same contract; the contract suite passes on both.
  \<^item> Stores: a \<^verbatim>\<open>Put\<close> that fails anywhere leaves the old object or the whole new one; keys stay below the
    root; the contract suite passes on the stores in memory and in files, and on S3 within its limits, where
    no other failure is taken for a missing object; every interleaving of the file store's system
    calls refines an atomic map from keys to bytes, though an object and its metadata can come apart.
  \<^item> E-mail: a message reported as written is a reference text; attachments decode to what was given, and text
    bodies do but for certain line ends that the encoder loses, which are characterised; headers cannot be forged; sessions are encrypted unless the options say otherwise, deliver to
    all recipients, and close their connection.
  \<^item> HTTP: what a client receives for every outcome of a handler, under each middleware and under the
    stack; what a rejected request body is told; CORS, pagination, logging.
  \<^item> Validation skips exactly the unset optional fields; transactions are atomic and never stay open; delays
    are bounded, up to the rounding of the maximum and outside two cases that are characterised; renderers agree with rendering on demand; fields have three states.

  \<^bold>\<open>Termination.\<close> Recursions carry a measure where they are not structural (\<open>lineWriter_loop\<close>, the base64
  encoder, \<open>fields_aux\<close>, the walk of \<open>Validx\<close> over a value). Only copying from a reader need not end: \<open>copy_loop\<close> is
  a partial function whose value \<open>None\<close> is divergence, \<open>copy_loop_ends\<close> says when it returns and
  \<open>copy_loop_diverges\<close> when it does not; \<open>smtp_returns\<close> and \<open>put_returns\<close> carry this to the operations.
  There is no fuel anywhere.

  \<^bold>\<open>Bounds of the model.\<close> Paths are those of Unix and the file system is a tree of directories and regular
  files without links. Values under reflection are finite trees, so a cyclic value, on which \<^verbatim>\<open>validx\<close>
  does not return, is out of scope. Floating-point operations round one by one; a processor with fused
  multiply-add may differ in the last digit. The goroutine that closes an SMTP connection on
  cancellation acts through the server's answers, any of which may be an error. Mutexes appear as the
  atomicity of the critical sections of \<open>Cachex_Concurrent\<close>; an operation of the recorder, the in-memory
  store or the validator touches the shared state in a single critical section, and is one step. The file
  store has no mutex: a system call is one step of \<open>Blobx_Concurrent\<close>. There \<^verbatim>\<open>os.MkdirAll\<close> is one step per
  directory and \<^verbatim>\<open>os.WriteFile\<close> is a truncation and writes at offsets, so the metadata of an object can be seen
  in part; reading that file is one step. Goroutines that write temporary files at one time have different
  names for them, as \<^verbatim>\<open>os.CreateTemp\<close> promises.

  \<^bold>\<open>Not modelled.\<close> Interface declarations that only list methods and compile-time assertions such as
  \<^verbatim>\<open>var _ Store = (*FileStore)(nil)\<close>; the formatting of log records; the servers and clients of the
  libraries above.
\<close>

section \<open>A protected endpoint\<close>

text \<open>The stack of a service: recovery around authentication around the role check around a handler that
  returns errors.\<close>

definition endpoint ::
  "RecoveryConfig \<Rightarrow> (request \<Rightarrow> string \<times> string list \<times> 'e option) \<Rightarrow> string \<Rightarrow> marshal \<Rightarrow> hfunc \<Rightarrow> request \<Rightarrow> rw \<Rightarrow> Go_Http.outcome \<times> string list" where
  "endpoint cfg parse role marshal fn = Recovery cfg (RequireAuth parse (RequireRole role (Handler marshal fn)))"

definition identified :: "request \<Rightarrow> string \<Rightarrow> string list \<Rightarrow> request" where
  "identified r u rs = r\<lparr>r_ctx := WithRoles (WithUserID (r_ctx r) u) rs\<rparr>"

lemma inner_stack:
  assumes "parse r = (u, rs, err)" "w_status w = None"
  shows "if err \<noteq> None \<or> u = [] then \<exists>w'. RequireAuth parse (RequireRole role nxt) r w = Returned w' \<and> w_status w' = Some 401
    else if role \<notin> set rs then \<exists>w'. RequireAuth parse (RequireRole role nxt) r w = Returned w' \<and> w_status w' = Some 403
    else RequireAuth parse (RequireRole role nxt) r w = nxt (identified r u rs) w"
  using assms writeAuthError_status [OF assms(2), of 401 "''unauthorized''"] writeAuthError_status [OF assms(2), of 403 "''forbidden''"]
  by (auto simp: RequireAuth_def RequireRole_def Let_def identified_def)

lemma Handler_outcome:
  assumes "\<And>j. \<exists>d. marshal j = Inr d"
  shows "case fn r w of
      HPanic p w1 \<Rightarrow> Handler marshal fn r w = Panicked p w1
    | HReturn w1 None \<Rightarrow> Handler marshal fn r w = Returned w1
    | HReturn w1 (Some e) \<Rightarrow>
        (case visible (IsHTTPError e) of
           None \<Rightarrow> Handler marshal fn r w = Panicked ''nil pointer dereference'' w1
         | Some (s, c, m, f) \<Rightarrow>
             w_status w1 = None \<and> 200 \<le> s \<and> s \<le> 999 \<and> body_allowed s \<longrightarrow>
             (\<exists>w'. Handler marshal fn r w = Returned w' \<and> w_status w' = Some s))"
proof -
  have "\<exists>w' x. WriteJSON marshal s v w1 = HReturn w' x \<and> w_status w' = Some s"
    if "w_status w1 = None" "200 \<le> s" "s \<le> 999" "body_allowed s" for s v w1
    using assms [of v] WriteJSON_ok [of marshal v _ w1 s] that by blast
  note json = this
  have "\<exists>w'. Handler marshal fn r w = Returned w' \<and> w_status w' = Some s"
    if "fn r w = HReturn w1 (Some e)" "visible (IsHTTPError e) = Some (s, c, m, f)"
      "w_status w1 = None \<and> 200 \<le> s \<and> s \<le> 999 \<and> body_allowed s" for w1 e s c m f
    using json [of w1 s "JObj [(''error'', error_json c m f)]"] that
    by (auto simp: Handler_def HandlerWithErrorWriter_def DefaultErrorWriter_visible)
  then show ?thesis
    by (cases "fn r w") (auto simp: Handler_def HandlerWithErrorWriter_def DefaultErrorWriter_visible split: option.split)
qed

text \<open>C34. A protected endpoint always answers. A request without an identity gets 401 and one without the role
  403, in both cases without the handler running. Otherwise the handler runs with the caller's
  identity: what it sent stands if it returns nil; an error before it has answered becomes the
  error's own status, or 500 if it has none; and a panic before it has answered, the one of a nil
  \<^verbatim>\<open>*Error\<close> included, becomes 500.\<close>

theorem protected_endpoint:
  assumes "WriteError cfg = None" "parse r = (u, rs, err)" "w_status w = None" "\<And>j. \<exists>d. marshal j = Inr d"
  shows "\<exists>w'. fst (endpoint cfg parse role marshal fn r w) = Returned w'
    \<and> (if err \<noteq> None \<or> u = [] then client_status w' = 401
       else if role \<notin> set rs then client_status w' = 403
       else (case fn (identified r u rs) w of
               HReturn w1 None \<Rightarrow> w' = w1
             | HReturn w1 (Some e) \<Rightarrow>
                 w_status w1 = None \<longrightarrow>
                 (case visible (IsHTTPError e) of
                    None \<Rightarrow> client_status w' = 500
                  | Some (s, c, m, f) \<Rightarrow> 200 \<le> s \<and> s \<le> 999 \<and> body_allowed s \<longrightarrow> client_status w' = s)
             | HPanic p w1 \<Rightarrow> w_status w1 = None \<longrightarrow> client_status w' = 500))"
proof -
  let ?nxt = "RequireAuth parse (RequireRole role (Handler marshal fn))"
  obtain w' where w': "fst (Recovery cfg ?nxt r w) = Returned w'"
    "case ?nxt r w of Returned u \<Rightarrow> w' = u | Panicked v u \<Rightarrow> client_status w' = (case w_status u of None \<Rightarrow> 500 | Some c \<Rightarrow> c)"
    using Recovery_returns [OF assms(1)] by blast
  note inner = inner_stack [of parse r u rs err w role "Handler marshal fn", OF assms(2,3)]
  have "if err \<noteq> None \<or> u = [] then client_status w' = 401
       else if role \<notin> set rs then client_status w' = 403
       else (case fn (identified r u rs) w of
               HReturn w1 None \<Rightarrow> w' = w1
             | HReturn w1 (Some e) \<Rightarrow>
                 w_status w1 = None \<longrightarrow>
                 (case visible (IsHTTPError e) of
                    None \<Rightarrow> client_status w' = 500
                  | Some (s, c, m, f) \<Rightarrow> 200 \<le> s \<and> s \<le> 999 \<and> body_allowed s \<longrightarrow> client_status w' = s)
             | HPanic p w1 \<Rightarrow> w_status w1 = None \<longrightarrow> client_status w' = 500)"
  proof (cases "err \<noteq> None \<or> u = [] \<or> role \<notin> set rs")
    case True
    with inner w'(2) show ?thesis by (auto simp: client_status_def split: if_splits)
  next
    case False
    with inner have "?nxt r w = Handler marshal fn (identified r u rs) w" by simp
    with False w'(2) Handler_outcome [of marshal fn "identified r u rs" w, OF assms(4)] show ?thesis
      by (auto simp: client_status_def split: hresult.splits option.splits)
  qed
  with w'(1) show ?thesis unfolding endpoint_def by blast
qed

theorem protected_endpoint_witness:
  "\<exists>w'. fst (endpoint \<lparr>Logger = True, WriteError = None\<rparr> (\<lambda>_. (''ann'', [''admin''], None :: unit option)) ''admin'' (\<lambda>_. Inr ''{}'')
      (\<lambda>r w. HReturn w (Some NilHTTPError)) demo_get new_rw) = Returned w' \<and> client_status w' = 500"
  using protected_endpoint [of "\<lparr>Logger = True, WriteError = None\<rparr>" "\<lambda>_. (''ann'', [''admin''], None :: unit option)" demo_get "''ann''" "[''admin'']" None new_rw
      "\<lambda>_. Inr ''{}''" "''admin''" "\<lambda>r w. HReturn w (Some NilHTTPError)"]
  by (auto simp: new_rw_def)

section \<open>A validated endpoint\<close>

text \<open>The other composition a service makes: \<^verbatim>\<open>Bind\<close> of a type whose \<^verbatim>\<open>Validate\<close> method calls
  \<^verbatim>\<open>validx.Struct\<close>, in a handler that returns errors. A \<^verbatim>\<open>FieldErrors\<close> has the \<^verbatim>\<open>Fields\<close> method that
  \<^verbatim>\<open>Bind\<close> asks for; of any other error only its text matters, which is a parameter.\<close>

fun as_error :: "(verr \<Rightarrow> string) \<Rightarrow> verr \<Rightarrow> herr" where
  "as_error etext (FieldErrors m) = FieldErrs (sort_key fst (FieldErrors_Fields m))"
| "as_error etext (VWrap s e) = Wrapped s (as_error etext e)"
| "as_error etext e = Opaque (etext e)"

definition self_validating ::
  "(string \<Rightarrow> 'i \<Rightarrow> 'i) \<Rightarrow> ('i \<Rightarrow> rval \<Rightarrow> (string \<Rightarrow> bool) \<Rightarrow> verr option) \<Rightarrow> (verr \<Rightarrow> string) \<Rightarrow> ('t \<Rightarrow> rval) \<Rightarrow> 'i Validator \<Rightarrow> 't validatable" where
  "self_validating reg validate etext reflect v =
     \<lparr>on_value = Some (\<lambda>x. map_option (as_error etext) (fst (Struct reg validate (reflect x) v))), on_pointer = None\<rparr>"

definition bound_handler :: "(string \<Rightarrow> 't \<times> herr option) \<Rightarrow> 't validatable \<Rightarrow> string \<Rightarrow> ('t \<Rightarrow> hfunc) \<Rightarrow> hfunc" where
  "bound_handler decode T body inner r w =
     (case Bind decode T body of (x, Some e) \<Rightarrow> HReturn w (Some e) | (x, None) \<Rightarrow> inner x r w)"

text \<open>A rejection: status 400 and the error envelope as the body.\<close>

definition rejected :: "marshal \<Rightarrow> rw \<Rightarrow> string \<Rightarrow> string \<Rightarrow> (string \<times> string) list \<Rightarrow> Go_Http.outcome \<Rightarrow> bool" where
  "rejected marshal w code msg fs resp \<longleftrightarrow>
     (\<exists>w' d. resp = Returned w' \<and> w_status w' = Some 400 \<and> marshal (JObj [(''error'', error_json code msg fs)]) = Inr d
        \<and> w_body w' = w_body w @ d @ [CHR 0x0A])"

lemma Handler_rejects:
  assumes "\<And>j. \<exists>d. marshal j = Inr d" "w_status w = None" "fn r w = HReturn w (Some (HTTPError 400 c m fs cause))"
  shows "rejected marshal w c m fs (Handler marshal fn r w)"
proof -
  obtain d where d: "marshal (JObj [(''error'', error_json c m fs)]) = Inr d" using assms(1) by blast
  obtain w' where w': "WriteJSON marshal 400 (JObj [(''error'', error_json c m fs)]) w = HReturn w' None"
    "w_status w' = Some 400" "w_body w' = w_body w @ d @ [CHR 0x0A]"
    using WriteJSON_ok [where marshal = marshal and code = 400, OF d assms(2)] by (auto simp: body_allowed_def)
  then have "Handler marshal fn r w = Returned w'"
    by (simp add: Handler_def HandlerWithErrorWriter_def DefaultErrorWriter_visible assms(3))
  with w' d show ?thesis by (simp add: rejected_def)
qed

lemma invalid_as_error:
  "\<exists>cause. invalid (as_error etext (if Fields_of e = [] then e else FieldErrors (Fields_of e)))
     = HTTPError 400 ''validation_failed'' ''validation failed'' (sort_key fst (Fields_of e)) cause"
  by (cases e) (auto simp: invalid_def BadRequest_def newError_def Fields_of_def FieldErrors_Fields_def)

lemma Bind_self_validating:
  assumes "decode body = (x, None)" "Struct reg validate (reflect x) v = (res, v')"
  shows "Bind decode (self_validating reg validate etext reflect v) body = (x, map_option (\<lambda>e. invalid (as_error etext e)) res)"
  using assms by (simp add: Bind_def self_validating_def split: option.split)

text \<open>C35. A handler that binds a validated type answers every request: a body that is not JSON of the
  type gets 400 \<^verbatim>\<open>invalid_json\<close>; a value the validator rejects, when told to skip exactly the unset
  optional fields, gets 400 \<^verbatim>\<open>validation_failed\<close> with one message per failing field, by ascending
  field; in both cases the handler does not run. On any other body the response is that of the handler
  on the decoded value.\<close>

theorem validated_endpoint:
  assumes "\<And>x. \<exists>name pkg fs. dereference (reflect x) = RStruct name pkg fs" "registered reg i0 v"
    and "w_status w = None" "\<And>j. \<exists>d. marshal j = Inr d"
  shows "let run = Handler marshal (bound_handler decode (self_validating reg validate etext reflect v) body inner) r w
   in case decode body of
      (x, Some err) \<Rightarrow> rejected marshal w ''invalid_json'' ''invalid JSON body'' [] run
    | (x, None) \<Rightarrow>
        (case validate (inst (snd (Struct reg validate (reflect x) v))) (reflect x) (optional_unset (reflect x) Exported []) of
           None \<Rightarrow> run = Handler marshal (inner x) r w
         | Some err \<Rightarrow> rejected marshal w ''validation_failed'' ''validation failed'' (sort_key fst (Fields_of err)) run)"
proof (cases "snd (decode body)")
  case (Some err)
  then have "Bind decode T body = (fst (decode body), Some (HTTPError 400 ''invalid_json'' ''invalid JSON body'' [] (Some err)))" for T
    by (auto simp: Bind_def BadRequest_def newError_def split: prod.split)
  with Handler_rejects [OF assms(4,3)] Some show ?thesis
    by (auto simp: Let_def bound_handler_def split: prod.split)
next
  case None
  then obtain x where x: "decode body = (x, None)" by (metis prod.collapse)
  obtain res v' where r: "Struct reg validate (reflect x) v = (res, v')" by fastforce
  obtain name pkg fs where d: "dereference (reflect x) = RStruct name pkg fs" using assms(1) by blast
  from r have "Validator_Struct reg validate (reflect x) v = (res, v')" by (simp add: Struct_def)
  note skips = Validator_Struct_skips(1) [OF d assms(2) this]
  note bound = Bind_self_validating [where etext = etext and decode = decode and body = body and reflect = reflect, OF x r]
  show ?thesis
  proof (cases "validate (inst v') (reflect x) (optional_unset (reflect x) Exported [])")
    case None
    with skips bound x r show ?thesis by (simp add: Let_def Handler_def HandlerWithErrorWriter_def bound_handler_def)
  next
    case (Some err)
    with skips bound invalid_as_error [of etext err] x r Handler_rejects [OF assms(4,3)] show ?thesis
      by (auto simp: Let_def bound_handler_def)
  qed
qed

theorem validated_endpoint_witness:
  "rejected (\<lambda>_. Inr ''{}'') new_rw ''validation_failed'' ''validation failed'' [(''Nick'', ''is required'')]
     (Handler (\<lambda>_. Inr ''{}'')
        (bound_handler (\<lambda>_. ((), None))
           (self_validating (\<lambda>t i. t # i) (\<lambda>i x skip. Some (ValidationErrors [\<lparr>fe_Namespace = ''User.Nick'', fe_Tag = ''required'', fe_Param = [], fe_Kind = ''string''\<rparr>]))
              (\<lambda>_. []) (\<lambda>_. demo_struct) (New []))
           ''{}'' (\<lambda>_ r w. HReturn w None)) demo_get new_rw)"
proof -
  let ?err = "ValidationErrors [\<lparr>fe_Namespace = ''User.Nick'', fe_Tag = ''required'', fe_Param = [], fe_Kind = ''string''\<rparr>]"
  have s: "\<exists>name pkg fs. dereference demo_struct = RStruct name pkg fs" by (simp add: demo_struct_def)
  have n: "registered (\<lambda>t i. t # i) [] (New [])" by (simp add: registered_def New_def)
  have f: "sort_key fst (Fields_of ?err) = [(''Nick'', ''is required'')]" by code_simp
  show ?thesis
    using validated_endpoint [where reflect = "\<lambda>_. demo_struct" and decode = "\<lambda>_. ((), None)" and validate = "\<lambda>i x skip. Some ?err"
        and reg = "\<lambda>t i. t # i" and ?i0.0 = "[]" and v = "New []" and w = new_rw and marshal = "\<lambda>_. Inr ''{}''"
        and body = "''{}''" and etext = "\<lambda>_. []" and inner = "\<lambda>_ r w. HReturn w None" and r = demo_get, OF s n]
    by (simp add: f new_rw_def)
qed

end
